(* ===== verification/Prelude.thy ===== *)
theory Prelude
  imports Complex_Main "HOL-Library.AList" "HOL-Library.Multiset" "HOL-Library.Log_Nat"
    "HOL-Library.Char_ord" "HOL-Library.List_Lexorder"
begin

text \<open>
  Shared vocabulary of the development.

  A JavaScript \<open>Map\<close> keeps its entries in insertion order and overwrites a present key in
  place, so it is an association list with \<open>AList.update\<close> for \<open>set\<close>, \<open>map_of\<close> for
  \<open>get\<close> and \<open>AList.delete\<close> for \<open>delete\<close>. An optional property of a TypeScript
  interface (\<open>x?: T\<close>) is an \<open>option\<close>, and so is a result of type \<open>T | null\<close>.
  Strings are lists of characters; a \<open>char\<close> is one of the code units 0 to 255, so the
  development covers the strings over these code units, which JavaScript counts and compares
  the same way.
\<close>

named_theorems store_simps \<open>reading a store after an operation on it\<close>
named_theorems op_defs \<open>definitions of the component operations\<close>

type_synonym ('k, 'v) jsmap = "('k \<times> 'v) list"

text \<open>\<open>m.get(k) ?? d\<close>.\<close>

definition get_or :: "('k, 'v) jsmap \<Rightarrow> 'k \<Rightarrow> 'v \<Rightarrow> 'v" where
  "get_or m k d = (case map_of m k of Some v \<Rightarrow> v | None \<Rightarrow> d)"

lemma get_or_update [store_simps]:
  "get_or (AList.update k v m) k' d = (if k' = k then v else get_or m k' d)"
  by (simp add: get_or_def update_conv)

lemma get_or_Nil [simp]: "get_or [] k d = d"
  by (simp add: get_or_def)

lemma map_of_AList_update [store_simps]:
  "map_of (AList.update k v m) k' = (if k' = k then Some v else map_of m k')"
  by (simp add: update_conv)

lemma map_of_AList_delete [store_simps]:
  "map_of (AList.delete k m) k' = (if k' = k then None else map_of m k')"
  by (simp add: delete_conv)

text \<open>\<open>x ?? d\<close> and the truthiness of an optional string: \<open>undefined\<close> and the empty
  string are falsy.\<close>

definition coalesce :: "'a option \<Rightarrow> 'a \<Rightarrow> 'a" where
  "coalesce x d = (case x of Some v \<Rightarrow> v | None \<Rightarrow> d)"

lemma coalesce_simps [simp]: "coalesce None d = d" "coalesce (Some v) d = v"
  by (simp_all add: coalesce_def)

definition truthy_str :: "string option \<Rightarrow> bool" where
  "truthy_str x = (case x of None \<Rightarrow> False | Some s \<Rightarrow> s \<noteq> [])"

lemma truthy_str_simps [simp]:
  "truthy_str None = False" "truthy_str (Some s) = (s \<noteq> [])"
  by (simp_all add: truthy_str_def)

text \<open>\<open>xs[0]\<close> (undefined on an empty array), \<open>xs.findIndex(p)\<close> (\<open>-1\<close> as \<open>None\<close>)
  and \<open>xs.join(sep)\<close>.\<close>

definition head_opt :: "'a list \<Rightarrow> 'a option" where
  "head_opt xs = (case xs of [] \<Rightarrow> None | x # _ \<Rightarrow> Some x)"

lemma head_opt_simps [simp]: "head_opt [] = None" "head_opt (x # xs) = Some x"
  by (simp_all add: head_opt_def)

lemma head_opt_eq_None [simp]: "head_opt xs = None \<longleftrightarrow> xs = []"
  by (cases xs) simp_all

fun find_index :: "('a \<Rightarrow> bool) \<Rightarrow> 'a list \<Rightarrow> nat option" where
  "find_index p [] = None"
| "find_index p (x # xs) = (if p x then Some 0 else map_option Suc (find_index p xs))"

lemma find_index_Some:
  "find_index p xs = Some i \<Longrightarrow> i < length xs \<and> p (xs ! i) \<and> (\<forall>j < i. \<not> p (xs ! j))"
proof (induction xs arbitrary: i)
  case Nil
  then show ?case by simp
next
  case (Cons x xs)
  show ?case
  proof (cases "p x")
    case True
    with Cons.prems show ?thesis by simp
  next
    case False
    with Cons.prems obtain k where k: "find_index p xs = Some k" "i = Suc k"
      by auto
    from Cons.IH [OF k(1)] False k(2) show ?thesis
      by (auto simp: less_Suc_eq_0_disj)
  qed
qed

lemma find_index_None: "find_index p xs = None \<longleftrightarrow> (\<forall>x \<in> set xs. \<not> p x)"
  by (induction xs) auto

fun join_with :: "string \<Rightarrow> string list \<Rightarrow> string" where
  "join_with sep [] = []"
| "join_with sep [s] = s"
| "join_with sep (s # t # ss) = s @ sep @ join_with sep (t # ss)"

text \<open>A thrown exception is the left side of a sum; \<open>mapE\<close> maps a function that may throw
  over an array and stops at the first exception.\<close>

datatype js_error = RangeError string | Error string

fun mapE :: "('a \<Rightarrow> 'e + 'b) \<Rightarrow> 'a list \<Rightarrow> 'e + 'b list" where
  "mapE f [] = Inr []"
| "mapE f (x # xs) = (case f x of Inl e \<Rightarrow> Inl e
     | Inr y \<Rightarrow> (case mapE f xs of Inl e \<Rightarrow> Inl e | Inr ys \<Rightarrow> Inr (y # ys)))"

lemma mapE_Inr: "(\<And>x. x \<in> set xs \<Longrightarrow> f x = Inr (g x)) \<Longrightarrow> mapE f xs = Inr (map g xs)"
  by (induction xs) simp_all

text \<open>Decimal digits.\<close>

definition digit_char :: "nat \<Rightarrow> char" where
  "digit_char d = char_of (48 + d)"

definition is_digit :: "char \<Rightarrow> bool" where
  "is_digit c = (48 \<le> (of_char c :: nat) \<and> (of_char c :: nat) \<le> 57)"

definition digit_val :: "char \<Rightarrow> nat" where
  "digit_val c = of_char c - 48"

lemma of_char_digit [simp]: "d < 10 \<Longrightarrow> of_char (digit_char d) = 48 + d"
  by (simp add: digit_char_def)

lemma digit_char_props [simp]:
  "d < 10 \<Longrightarrow> is_digit (digit_char d)" "d < 10 \<Longrightarrow> digit_val (digit_char d) = d"
  by (simp_all add: is_digit_def digit_val_def)

lemma digit_char_less: "d < 10 \<Longrightarrow> e < 10 \<Longrightarrow> digit_char d < digit_char e \<longleftrightarrow> d < e"
  by (simp add: less_char_def)

lemma digit_char_inj: "d < 10 \<Longrightarrow> e < 10 \<Longrightarrow> digit_char d = digit_char e \<longleftrightarrow> d = e"
  by (metis digit_char_props(2))

fun pad_digits :: "nat \<Rightarrow> nat \<Rightarrow> string" where
  "pad_digits 0 x = []"
| "pad_digits (Suc n) x = pad_digits n (x div 10) @ [digit_char (x mod 10)]"

fun read_digits :: "nat \<Rightarrow> nat \<Rightarrow> string \<Rightarrow> (nat \<times> string) option" where
  "read_digits 0 acc s = Some (acc, s)"
| "read_digits (Suc n) acc s = (case s of [] \<Rightarrow> None
     | c # cs \<Rightarrow> if is_digit c then read_digits n (10 * acc + digit_val c) cs else None)"

lemma length_pad_digits [simp]: "length (pad_digits n x) = n"
  by (induction n arbitrary: x) auto

lemma read_digits_append:
  "read_digits (n + k) a s = (case read_digits n a s of None \<Rightarrow> None | Some (b, t) \<Rightarrow> read_digits k b t)"
  by (induction n arbitrary: a s) (auto split: list.splits)

lemma div_ten_less: "x < 10 ^ Suc n \<Longrightarrow> x div 10 < (10::nat) ^ n"
  by (rule less_mult_imp_div_less) (simp add: mult.commute)

lemma read_pad_digits:
  "x < 10 ^ n \<Longrightarrow> read_digits n a (pad_digits n x @ s) = Some (a * 10 ^ n + x, s)"
proof (induction n arbitrary: x s)
  case 0
  then show ?case by simp
next
  case (Suc n)
  have d: "x div 10 < 10 ^ n" using Suc.prems by (rule div_ten_less)
  have "read_digits (n + 1) a (pad_digits n (x div 10) @ digit_char (x mod 10) # s) =
    Some (10 * (a * 10 ^ n + x div 10) + x mod 10, s)"
    by (subst read_digits_append) (simp add: Suc.IH [OF d])
  moreover have "10 * (a * 10 ^ n + x div 10) + x mod 10 = a * 10 ^ Suc n + x"
    by (simp add: algebra_simps)
  ultimately show ?case by simp
qed

lemma append_less_same_length:
  fixes xs :: "'a::linorder list"
  assumes "length xs = length xs'"
  shows "xs @ ys < xs' @ ys' \<longleftrightarrow> xs < xs' \<or> (xs = xs' \<and> ys < ys')"
  using assms by (induction xs xs' rule: list_induct2) auto

lemma pad_digits_inj: "x < 10 ^ n \<Longrightarrow> y < 10 ^ n \<Longrightarrow> pad_digits n x = pad_digits n y \<longleftrightarrow> x = y"
  using read_pad_digits [of x n 0 "[]"] read_pad_digits [of y n 0 "[]"] by (metis add_0 mult_0 option.inject prod.inject)

lemma pad_digits_less:
  "x < 10 ^ n \<Longrightarrow> y < 10 ^ n \<Longrightarrow> pad_digits n x < pad_digits n y \<longleftrightarrow> x < y"
proof (induction n arbitrary: x y)
  case 0
  then show ?case by simp
next
  case (Suc n)
  have d: "x div 10 < 10 ^ n" "y div 10 < 10 ^ n"
    using Suc.prems by (simp_all only: div_ten_less)
  have "pad_digits (Suc n) x < pad_digits (Suc n) y \<longleftrightarrow>
    x div 10 < y div 10 \<or> (x div 10 = y div 10 \<and> x mod 10 < y mod 10)"
    using Suc.IH [OF d] pad_digits_inj [OF d]
    by (simp add: append_less_same_length digit_char_less)
  also have "\<dots> \<longleftrightarrow> x < y"
    using mult_div_mod_eq [of 10 x] mult_div_mod_eq [of 10 y]
      mod_less_divisor [of 10 x] mod_less_divisor [of 10 y] by linarith
  finally show ?case .
qed

lemma find_Some_in: "find p xs = Some x \<Longrightarrow> x \<in> set xs \<and> p x"
  by (auto simp: find_Some_iff)

lemma update_fresh: "k \<notin> fst ` set m \<Longrightarrow> AList.update k v m = m @ [(k, v)]"
  by (induction m) auto

text \<open>What one receiver gets of a log of deliveries, and a round that delivers to several.\<close>

definition deliveries :: "'c \<Rightarrow> ('c \<times> 'e) list \<Rightarrow> 'e list" where
  "deliveries c sent = map snd (filter (\<lambda>p. fst p = c) sent)"

lemma deliveries_simps [simp]:
  "deliveries c [] = []"
  "deliveries c (sent @ [(d, e)]) = deliveries c sent @ (if d = c then [e] else [])"
  by (simp_all add: deliveries_def)

lemma deliveries_round:
  "distinct cs \<Longrightarrow> deliveries c (fold (\<lambda>d sent. sent @ [(d, e)]) cs sent) =
    deliveries c sent @ (if c \<in> set cs then [e] else [])"
  by (induction cs arbitrary: sent) auto

end
