(* ===== verification/JsNumber.thy ===== *)
theory JsNumber
  imports Prelude
begin

text \<open>
  JavaScript numbers: IEEE 754 binary64 with round to nearest, ties to even. A finite number
  is the rational it stands for; \<open>rnd\<close> rounds an exact rational result to the nearest
  double, gradual underflow and overflow included. The two zeros are one value: no operation
  of the modelled code tells them apart (it never divides by a zero, and both print as
  \<open>0\<close>). The lemmas show that rounding is monotone, fixes the integers up to \<open>2^53\<close> and that
  the sign of a difference of two doubles is the sign of the exact difference.
\<close>

section \<open>Rounding\<close>

definition round_half_even :: "rat \<Rightarrow> int" where
  "round_half_even q =
     (let f = \<lfloor>q\<rfloor>; r = q - of_int f
      in if r < 1/2 then f else if 1/2 < r then f + 1 else if even f then f else f + 1)"

definition ilog2 :: "rat \<Rightarrow> int" where
  "ilog2 q =
     (let a = nat (fst (quotient_of q)); b = nat (snd (quotient_of q));
          k = int (floorlog 2 a) - int (floorlog 2 b)
      in if q < 2 powi k then k - 1 else k)"

definition quantum_exp :: "rat \<Rightarrow> int" where
  "quantum_exp q = max (ilog2 q - 52) (-1074)"

definition rnd_pos :: "rat \<Rightarrow> rat" where
  "rnd_pos q = (if q = 0 then 0
     else of_int (round_half_even (q / 2 powi quantum_exp q)) * 2 powi quantum_exp q)"

definition rnd_rat :: "rat \<Rightarrow> rat" where
  "rnd_rat q = (if q < 0 then - rnd_pos (- q) else rnd_pos q)"

datatype jsnum = NaN | PosInf | NegInf | Fin rat

definition rnd :: "rat \<Rightarrow> jsnum" where
  "rnd q = (let r = rnd_rat q
     in if 2 ^ 1024 \<le> r then PosInf else if r \<le> - (2 ^ 1024) then NegInf else Fin r)"

section \<open>Properties of the rounding\<close>

lemma round_half_even_bounds:
  "of_int (round_half_even q) - q \<le> 1/2" "q - of_int (round_half_even q) \<le> 1/2"
proof -
  have "of_int \<lfloor>q\<rfloor> \<le> q" "q < of_int \<lfloor>q\<rfloor> + 1"
    using floor_correct [of q] by simp_all
  then show "of_int (round_half_even q) - q \<le> 1/2" "q - of_int (round_half_even q) \<le> 1/2"
    unfolding round_half_even_def Let_def by (simp_all split: if_splits) linarith+
qed

lemma round_half_even_of_int [simp]: "round_half_even (of_int n) = n"
  by (simp add: round_half_even_def)

lemma round_half_even_mono:
  assumes "p \<le> q"
  shows "round_half_even p \<le> round_half_even q"
proof (cases "\<lfloor>p\<rfloor> = \<lfloor>q\<rfloor>")
  case True
  with assms show ?thesis by (auto simp: round_half_even_def Let_def)
next
  case False
  with assms have "\<lfloor>p\<rfloor> + 1 \<le> \<lfloor>q\<rfloor>"
    using floor_mono [OF assms] by linarith
  moreover have "round_half_even p \<le> \<lfloor>p\<rfloor> + 1" "\<lfloor>q\<rfloor> \<le> round_half_even q"
    by (auto simp: round_half_even_def Let_def)
  ultimately show ?thesis by linarith
qed

lemma floorlog_two_bounds:
  assumes "0 < n"
  shows "(2::rat) powi (int (floorlog 2 n) - 1) \<le> of_nat n" "of_nat n < (2::rat) powi int (floorlog 2 n)"
proof -
  let ?k = "floorlog 2 n"
  have k: "0 < ?k" using assms by (simp add: floorlog_def)
  have "2 ^ (?k - 1) \<le> n \<and> n < 2 ^ ?k"
    using floorlog_bounds [of n 2] assms by simp
  then have "(of_nat (2 ^ (?k - 1)) :: rat) \<le> of_nat n" "(of_nat n :: rat) < of_nat (2 ^ ?k)"
    by (simp_all only: of_nat_le_iff of_nat_less_iff)
  moreover have "(2::rat) powi (int ?k - 1) = 2 ^ (?k - 1)"
    using k by (simp add: power_int_def nat_diff_distrib')
  ultimately show "(2::rat) powi (int ?k - 1) \<le> of_nat n" "of_nat n < (2::rat) powi int ?k"
    by simp_all
qed

lemma ilog2_bounds:
  assumes "0 < q"
  shows "2 powi ilog2 q \<le> q" "q < 2 powi (ilog2 q + 1)"
proof -
  obtain a b where ab: "quotient_of q = (a, b)" by (cases "quotient_of q")
  have b: "0 < b" using quotient_of_denom_pos [OF ab] .
  have q: "q = of_int a / of_int b" using quotient_of_div [OF ab] .
  have a: "0 < a" using assms q b by (simp add: zero_less_divide_iff)
  let ?x = "int (floorlog 2 (nat a))" and ?y = "int (floorlog 2 (nat b))"
  have A: "(2::rat) powi (?x - 1) \<le> of_int a" "of_int a < (2::rat) powi ?x"
    using floorlog_two_bounds [of "nat a"] a by simp_all
  have B: "(2::rat) powi (?y - 1) \<le> of_int b" "of_int b < (2::rat) powi ?y"
    using floorlog_two_bounds [of "nat b"] b by simp_all
  have "q < 2 powi ?x / 2 powi (?y - 1)"
    unfolding q using A B a b by (intro frac_less) simp_all
  also have "\<dots> = 2 powi (?x - (?y - 1))"
    by (subst power_int_diff) simp_all
  also have "?x - (?y - 1) = ?x - ?y + 1" by simp
  finally have up: "q < 2 powi (?x - ?y + 1)" .
  have "2 powi (?x - 1) / 2 powi ?y \<le> q"
    unfolding q using A B a b by (intro frac_le) simp_all
  moreover have "(2::rat) powi (?x - 1) / 2 powi ?y = 2 powi (?x - 1 - ?y)"
    by (subst (2) power_int_diff) simp_all
  moreover have "?x - 1 - ?y = ?x - ?y - 1" by simp
  ultimately have low: "2 powi (?x - ?y - 1) \<le> q" by simp
  have e: "ilog2 q = (if q < 2 powi (?x - ?y) then ?x - ?y - 1 else ?x - ?y)"
    by (simp add: ilog2_def ab Let_def)
  show "2 powi ilog2 q \<le> q" "q < 2 powi (ilog2 q + 1)"
    using up low by (simp_all add: e)
qed

lemma ilog2_mono:
  assumes "0 < p" "p \<le> q"
  shows "ilog2 p \<le> ilog2 q"
proof (rule ccontr)
  assume "\<not> ilog2 p \<le> ilog2 q"
  then have "(2::rat) powi (ilog2 q + 1) \<le> 2 powi ilog2 p"
    by (intro power_int_increasing) auto
  then show False
    using ilog2_bounds [of p] ilog2_bounds [of q] assms by linarith
qed

lemma quantum_exp_bounds:
  assumes "0 < q"
  shows "q < 2 powi (quantum_exp q + 53)" "-1074 \<le> quantum_exp q"
    "-1074 < quantum_exp q \<Longrightarrow> 2 powi (quantum_exp q + 52) \<le> q"
proof -
  have "(2::rat) powi (ilog2 q + 1) \<le> 2 powi (quantum_exp q + 53)"
    by (intro power_int_increasing) (auto simp: quantum_exp_def)
  then show "q < 2 powi (quantum_exp q + 53)"
    using ilog2_bounds [OF assms] by linarith
  show "-1074 \<le> quantum_exp q" by (simp add: quantum_exp_def)
  show "2 powi (quantum_exp q + 52) \<le> q" if "-1074 < quantum_exp q"
    using that ilog2_bounds [OF assms] by (auto simp: quantum_exp_def max_def split: if_splits)
qed

lemma two_powi_add: "(2::rat) powi (a + b) = 2 powi a * 2 powi b"
  by (simp add: power_int_add)

lemma rnd_pos_scaled:
  assumes "0 < q"
  shows "rnd_pos q = of_int (round_half_even (q / 2 powi quantum_exp q)) * 2 powi quantum_exp q"
  using assms by (simp add: rnd_pos_def)

lemma round_scaled_le:
  assumes "0 < q"
  shows "of_int (round_half_even (q / 2 powi quantum_exp q)) \<le> (2::rat) ^ 53"
proof -
  have "q / 2 powi quantum_exp q \<le> of_int (2 ^ 53)"
    using quantum_exp_bounds(1) [OF assms] by (simp add: divide_le_eq two_powi_add mult.commute)
  from round_half_even_mono [OF this] have "round_half_even (q / 2 powi quantum_exp q) \<le> 2 ^ 53"
    by (simp only: round_half_even_of_int)
  then have "(of_int (round_half_even (q / 2 powi quantum_exp q)) :: rat) \<le> of_int (2 ^ 53)"
    by (simp only: of_int_le_iff)
  then show ?thesis by simp
qed

lemma round_scaled_ge:
  assumes "0 < q" "-1074 < quantum_exp q"
  shows "(2::rat) ^ 52 \<le> of_int (round_half_even (q / 2 powi quantum_exp q))"
proof -
  have "of_int (2 ^ 52) \<le> q / 2 powi quantum_exp q"
    using quantum_exp_bounds(3) [OF assms] by (simp add: le_divide_eq two_powi_add mult.commute)
  from round_half_even_mono [OF this] have "2 ^ 52 \<le> round_half_even (q / 2 powi quantum_exp q)"
    by (simp only: round_half_even_of_int)
  then have "(of_int (2 ^ 52) :: rat) \<le> of_int (round_half_even (q / 2 powi quantum_exp q))"
    by (simp only: of_int_le_iff)
  then show ?thesis by simp
qed

lemma rnd_pos_nonneg: "0 \<le> q \<Longrightarrow> 0 \<le> rnd_pos q"
proof -
  assume "0 \<le> q"
  then have "round_half_even (of_int 0) \<le> round_half_even (q / 2 powi quantum_exp q)"
    by (intro round_half_even_mono) simp
  then have "0 \<le> round_half_even (q / 2 powi quantum_exp q)"
    by (simp only: round_half_even_of_int)
  then show ?thesis by (simp add: rnd_pos_def)
qed

lemma rnd_pos_mono:
  assumes "0 \<le> p" "p \<le> q"
  shows "rnd_pos p \<le> rnd_pos q"
proof (cases "p = 0")
  case True
  with assms show ?thesis using rnd_pos_nonneg [of q] by (simp add: rnd_pos_def)
next
  case False
  with assms have p: "0 < p" and q: "0 < q" by auto
  have le: "quantum_exp p \<le> quantum_exp q"
    using ilog2_mono [OF p assms(2)] by (simp add: quantum_exp_def)
  show ?thesis
  proof (cases "quantum_exp p = quantum_exp q")
    case True
    have "round_half_even (p / 2 powi quantum_exp q) \<le> round_half_even (q / 2 powi quantum_exp q)"
      using assms by (intro round_half_even_mono divide_right_mono) simp_all
    then show ?thesis
      by (simp add: rnd_pos_scaled p q True)
  next
    case False
    with le have lt: "quantum_exp p + 1 \<le> quantum_exp q" by simp
    then have big: "-1074 < quantum_exp q"
      using quantum_exp_bounds(2) [OF p] by simp
    have "rnd_pos p \<le> 2 ^ 53 * 2 powi quantum_exp p"
      using round_scaled_le [OF p] by (simp add: rnd_pos_scaled p)
    also have "\<dots> = 2 ^ 52 * 2 powi (quantum_exp p + 1)"
      by (simp add: two_powi_add)
    also have "\<dots> \<le> 2 ^ 52 * 2 powi quantum_exp q"
      using lt by (intro mult_left_mono power_int_increasing) simp_all
    also have "\<dots> \<le> rnd_pos q"
      using round_scaled_ge [OF q big] by (simp add: rnd_pos_scaled q)
    finally show ?thesis .
  qed
qed

lemma rnd_rat_mono: "p \<le> q \<Longrightarrow> rnd_rat p \<le> rnd_rat q"
proof -
  assume pq: "p \<le> q"
  consider "0 \<le> p" | "p < 0" "0 \<le> q" | "q < 0" using pq by linarith
  then show ?thesis
  proof cases
    case 1
    with pq show ?thesis by (simp add: rnd_rat_def rnd_pos_mono)
  next
    case 2
    then show ?thesis
      using rnd_pos_nonneg [of "- p"] rnd_pos_nonneg [of q] by (simp add: rnd_rat_def)
  next
    case 3
    with pq show ?thesis by (simp add: rnd_rat_def rnd_pos_mono)
  qed
qed

lemma rnd_rat_uminus: "rnd_rat (- q) = - rnd_rat q"
  by (simp add: rnd_rat_def rnd_pos_def)

lemma rnd_rat_exact:
  assumes m: "\<bar>m\<bar> \<le> 2 ^ 53" and e: "-1074 \<le> e"
  shows "rnd_rat (of_int m * 2 powi e) = of_int m * 2 powi e"
proof -
  have pos: "rnd_pos (of_int k * 2 powi i) = of_int k * 2 powi i"
    if k: "0 < k" "k < 2 ^ 53" and i: "-1074 \<le> i" for k i
  proof -
    let ?q = "of_int k * (2::rat) powi i"
    have q: "0 < ?q" using k by simp
    have "(of_int k :: rat) < of_int (2 ^ 53)"
      using k(2) by (simp only: of_int_less_iff)
    then have "(of_int k :: rat) < 2 ^ 53" by simp
    then have "?q < 2 powi (i + 53)"
      by (simp add: two_powi_add mult.commute)
    then have "(2::rat) powi ilog2 ?q < 2 powi (i + 53)"
      using ilog2_bounds(1) [OF q] by linarith
    then have "ilog2 ?q < i + 53"
      by (metis linorder_not_le one_le_numeral power_int_increasing)
    then have le: "quantum_exp ?q \<le> i" using i by (simp add: quantum_exp_def)
    have "?q / 2 powi quantum_exp ?q = of_int k * 2 powi (i - quantum_exp ?q)"
      by (simp add: power_int_diff)
    also have "\<dots> = of_int (k * 2 ^ nat (i - quantum_exp ?q))"
      using le by (simp add: power_int_def)
    finally have "?q / 2 powi quantum_exp ?q = of_int (k * 2 ^ nat (i - quantum_exp ?q))" .
    then have "rnd_pos ?q = ?q / 2 powi quantum_exp ?q * 2 powi quantum_exp ?q"
      using rnd_pos_scaled [OF q] by (simp only: round_half_even_of_int)
    then show ?thesis by simp
  qed
  have top: "rnd_pos (of_int k * 2 powi e) = of_int k * 2 powi e" if k: "0 < k" "k \<le> 2 ^ 53" for k
  proof (cases "k = 2 ^ 53")
    case False
    with k e pos show ?thesis by simp
  next
    case True
    then have "(of_int k :: rat) * 2 powi e = of_int (2 ^ 52) * 2 powi (e + 1)"
      by (simp add: two_powi_add)
    then show ?thesis using pos [of "2 ^ 52" "e + 1"] e by simp
  qed
  show ?thesis
  proof (cases "m < 0")
    case True
    with m have "rnd_pos (of_int (- m) * 2 powi e) = of_int (- m) * 2 powi e" by (intro top) auto
    with True show ?thesis by (simp add: rnd_rat_def mult_less_0_iff)
  next
    case False
    then have "\<not> of_int m * (2::rat) powi e < 0"
      by (simp add: not_less)
    then show ?thesis
      using False m top [of m] by (cases "m = 0") (simp_all add: rnd_rat_def rnd_pos_def)
  qed
qed

text \<open>The integers up to \<open>2^53\<close> in absolute value are doubles.\<close>

lemma rnd_of_int: "\<bar>n\<bar> \<le> 2 ^ 53 \<Longrightarrow> rnd (of_int n) = Fin (of_int n)"
proof -
  assume n: "\<bar>n\<bar> \<le> 2 ^ 53"
  have "\<bar>of_int n :: rat\<bar> = of_int \<bar>n\<bar>" by simp
  also have "\<dots> \<le> of_int (2 ^ 53)" using n by (simp only: of_int_le_iff)
  finally have "\<bar>of_int n :: rat\<bar> \<le> 2 ^ 53" by simp
  moreover have "(2::rat) ^ 53 < 2 ^ 1024" by (rule power_strict_increasing) simp_all
  ultimately show ?thesis
    using rnd_rat_exact [OF n, of 0] by (auto simp: rnd_def Let_def abs_le_iff)
qed

lemma rnd_rat_grid: "\<exists>m e. rnd_rat q = of_int m * 2 powi e \<and> \<bar>m\<bar> \<le> 2 ^ 53 \<and> -1074 \<le> e"
proof -
  have pos: "\<exists>m e. rnd_pos p = of_int m * 2 powi e \<and> \<bar>m\<bar> \<le> 2 ^ 53 \<and> -1074 \<le> e" if p: "0 < p" for p
  proof -
    let ?m = "round_half_even (p / 2 powi quantum_exp p)"
    have "0 \<le> ?m" using round_half_even_mono [of "of_int 0" "p / 2 powi quantum_exp p"] p
      by (simp only: round_half_even_of_int) simp
    moreover have "(of_int ?m :: rat) \<le> of_int (2 ^ 53)"
      using round_scaled_le [OF p] by simp
    then have "?m \<le> 2 ^ 53" by (simp only: of_int_le_iff)
    ultimately show ?thesis
      using rnd_pos_scaled [OF p] quantum_exp_bounds(2) [OF p]
      by (intro exI [of _ ?m] exI [of _ "quantum_exp p"]) simp
  qed
  consider "q = 0" | "0 < q" | "q < 0" by linarith
  then show ?thesis
  proof cases
    case 1
    then show ?thesis by (intro exI [of _ 0]) (auto simp: rnd_rat_def rnd_pos_def)
  next
    case 2
    with pos [of q] show ?thesis by (simp add: rnd_rat_def)
  next
    case 3
    with pos [of "- q"] obtain m e where
      "rnd_pos (- q) = of_int m * 2 powi e" "\<bar>m\<bar> \<le> 2 ^ 53" "-1074 \<le> e" by auto
    with 3 show ?thesis by (intro exI [of _ "- m"] exI [of _ e]) (simp add: rnd_rat_def)
  qed
qed

lemma rnd_rat_idem: "rnd_rat (rnd_rat q) = rnd_rat q"
  using rnd_rat_grid [of q] rnd_rat_exact by auto

text \<open>A nonzero multiple of the smallest subnormal does not round to zero.\<close>

lemma rnd_rat_pos:
  assumes "0 < k"
  shows "0 < rnd_rat (of_int k * 2 powi -1074)"
proof -
  have "(of_int 1 :: rat) * 2 powi -1074 \<le> of_int k * 2 powi -1074"
    using assms by (intro mult_right_mono) (simp_all add: int_one_le_iff_zero_less)
  from rnd_rat_mono [OF this] have "(2::rat) powi -1074 \<le> rnd_rat (of_int k * 2 powi -1074)"
    using rnd_rat_exact [of 1 "-1074"] by (simp del: power_int_minus)
  moreover have "(0::rat) < 2 powi -1074" by (rule zero_less_power_int) simp
  ultimately show ?thesis by linarith
qed

text \<open>The overflow test by the exponent, for evaluation.\<close>

lemma rnd_code [code]:
  "rnd q = (let r = rnd_rat q
     in if 0 < r \<and> 1024 \<le> ilog2 r then PosInf
        else if r < 0 \<and> 1024 \<le> ilog2 (- r) then NegInf else Fin r)"
proof -
  have E: "2 ^ 1024 \<le> p \<longleftrightarrow> 1024 \<le> ilog2 p" if "0 < p" for p
  proof
    assume "2 ^ 1024 \<le> p"
    then have "(2::rat) powi 1024 < 2 powi (ilog2 p + 1)"
      using ilog2_bounds(2) [OF that] by (simp add: power_int_def)
    then have "1024 < ilog2 p + 1"
      by (metis linorder_not_le one_le_numeral power_int_increasing)
    then show "1024 \<le> ilog2 p" by simp
  next
    assume "1024 \<le> ilog2 p"
    then have "(2::rat) powi 1024 \<le> 2 powi ilog2 p" by (intro power_int_increasing) simp_all
    then show "2 ^ 1024 \<le> p" using ilog2_bounds(1) [OF that] by (simp add: power_int_def)
  qed
  have Z: "(0::rat) < 2 ^ 1024" by (rule zero_less_power) simp
  let ?r = "rnd_rat q"
  have 1: "2 ^ 1024 \<le> ?r \<longleftrightarrow> 0 < ?r \<and> 1024 \<le> ilog2 ?r"
    using E [of ?r] Z by (cases "0 < ?r") auto
  have 2: "?r \<le> - (2 ^ 1024) \<longleftrightarrow> ?r < 0 \<and> 1024 \<le> ilog2 (- ?r)"
    using E [of "- ?r"] Z by (cases "?r < 0") auto
  show ?thesis unfolding rnd_def Let_def 1 2 ..
qed

section \<open>Comparison and arithmetic\<close>

fun js_lt :: "jsnum \<Rightarrow> jsnum \<Rightarrow> bool" where
  "js_lt NaN _ = False"
| "js_lt _ NaN = False"
| "js_lt (Fin a) (Fin b) = (a < b)"
| "js_lt _ NegInf = False"
| "js_lt PosInf _ = False"
| "js_lt NegInf _ = True"
| "js_lt _ PosInf = True"

fun js_le :: "jsnum \<Rightarrow> jsnum \<Rightarrow> bool" where
  "js_le NaN _ = False"
| "js_le _ NaN = False"
| "js_le (Fin a) (Fin b) = (a \<le> b)"
| "js_le NegInf _ = True"
| "js_le _ PosInf = True"
| "js_le _ _ = False"

text \<open>\<open>===\<close> on numbers: \<open>NaN\<close> differs from itself.\<close>

definition js_eq :: "jsnum \<Rightarrow> jsnum \<Rightarrow> bool" where
  "js_eq a b = (a \<noteq> NaN \<and> a = b)"

fun js_neg :: "jsnum \<Rightarrow> jsnum" where
  "js_neg NaN = NaN"
| "js_neg PosInf = NegInf"
| "js_neg NegInf = PosInf"
| "js_neg (Fin a) = Fin (- a)"

fun js_add :: "jsnum \<Rightarrow> jsnum \<Rightarrow> jsnum" where
  "js_add (Fin a) (Fin b) = rnd (a + b)"
| "js_add NaN _ = NaN"
| "js_add _ NaN = NaN"
| "js_add PosInf NegInf = NaN"
| "js_add NegInf PosInf = NaN"
| "js_add PosInf _ = PosInf"
| "js_add NegInf _ = NegInf"
| "js_add _ b = b"

definition js_sub :: "jsnum \<Rightarrow> jsnum \<Rightarrow> jsnum" where
  "js_sub a b = js_add a (js_neg b)"

fun js_sgn :: "jsnum \<Rightarrow> rat" where
  "js_sgn NaN = 0"
| "js_sgn PosInf = 1"
| "js_sgn NegInf = -1"
| "js_sgn (Fin a) = sgn a"

definition inf_of_sign :: "rat \<Rightarrow> jsnum" where
  "inf_of_sign s = (if s = 0 then NaN else if 0 < s then PosInf else NegInf)"

fun js_mul :: "jsnum \<Rightarrow> jsnum \<Rightarrow> jsnum" where
  "js_mul (Fin a) (Fin b) = rnd (a * b)"
| "js_mul NaN _ = NaN"
| "js_mul _ NaN = NaN"
| "js_mul a b = inf_of_sign (js_sgn a * js_sgn b)"

fun js_div :: "jsnum \<Rightarrow> jsnum \<Rightarrow> jsnum" where
  "js_div (Fin a) (Fin b) = (if b = 0 then inf_of_sign (sgn a) else rnd (a / b))"
| "js_div NaN _ = NaN"
| "js_div _ NaN = NaN"
| "js_div (Fin a) _ = Fin 0"
| "js_div a (Fin b) = inf_of_sign (js_sgn a * (if b < 0 then -1 else 1))"
| "js_div _ _ = NaN"

text \<open>\<open>Math.max\<close>, \<open>Math.min\<close> of two arguments and \<open>Math.round\<close> (to the nearest integer,
  halves upwards).\<close>

definition js_max :: "jsnum \<Rightarrow> jsnum \<Rightarrow> jsnum" where
  "js_max a b = (if a = NaN \<or> b = NaN then NaN else if js_lt a b then b else a)"

definition js_min :: "jsnum \<Rightarrow> jsnum \<Rightarrow> jsnum" where
  "js_min a b = (if a = NaN \<or> b = NaN then NaN else if js_lt b a then b else a)"

fun js_round :: "jsnum \<Rightarrow> jsnum" where
  "js_round (Fin q) = Fin (of_int \<lfloor>q + 1/2\<rfloor>)"
| "js_round x = x"

abbreviation num_of_int :: "int \<Rightarrow> jsnum" where
  "num_of_int n \<equiv> Fin (of_int n)"

text \<open>The values a JavaScript number can take.\<close>

definition is_double :: "jsnum \<Rightarrow> bool" where
  "is_double x = (case x of Fin q \<Rightarrow> rnd q = Fin q | _ \<Rightarrow> True)"

definition nonneg_num :: "jsnum \<Rightarrow> bool" where
  "nonneg_num x = js_le (Fin 0) x"

lemma js_le_refl [simp]: "js_le a a \<longleftrightarrow> a \<noteq> NaN"
  by (cases a) auto

lemma js_le_NaN [simp]: "\<not> js_le a NaN"
  by (cases a) auto

lemma js_le_PosInf [simp]: "js_le a PosInf \<longleftrightarrow> a \<noteq> NaN"
  by (cases a) auto

lemma js_le_NegInf [simp]: "js_le NegInf a \<longleftrightarrow> a \<noteq> NaN"
  by (cases a) auto

lemma js_le_trans: "js_le a b \<Longrightarrow> js_le b c \<Longrightarrow> js_le a c"
  by (cases a; cases b; cases c) auto

lemma js_le_antisym: "js_le a b \<Longrightarrow> js_le b a \<Longrightarrow> a = b"
  by (cases a; cases b) auto

lemma js_le_total: "a \<noteq> NaN \<Longrightarrow> b \<noteq> NaN \<Longrightarrow> js_le a b \<or> js_le b a"
  by (cases a; cases b) auto

lemma js_lt_iff: "js_lt a b \<longleftrightarrow> js_le a b \<and> a \<noteq> b"
  by (cases a; cases b) auto

lemma js_not_lt: "a \<noteq> NaN \<Longrightarrow> b \<noteq> NaN \<Longrightarrow> \<not> js_lt a b \<longleftrightarrow> js_le b a"
  by (cases a; cases b) auto

lemma rnd_not_NaN [simp]: "rnd q \<noteq> NaN"
  by (simp add: rnd_def Let_def)

lemma rnd_mono: "p \<le> q \<Longrightarrow> js_le (rnd p) (rnd q)"
  using rnd_rat_mono [of p q] by (auto simp: rnd_def Let_def)

lemma rnd_zero [simp]: "rnd 0 = Fin 0"
  using rnd_of_int [of 0] by simp

lemma rnd_nonneg: "0 \<le> q \<Longrightarrow> js_le (Fin 0) (rnd q)"
  using rnd_mono [of 0 q] by simp

lemma is_double_rnd [simp]: "is_double (rnd q)"
  using rnd_rat_idem [of q] by (auto simp: is_double_def rnd_def Let_def)

lemma is_double_of_int: "\<bar>n\<bar> \<le> 2 ^ 53 \<Longrightarrow> is_double (Fin (of_int n))"
  using rnd_of_int [of n] by (simp add: is_double_def)

lemma is_double_simps [simp]: "is_double NaN" "is_double PosInf" "is_double NegInf"
  by (simp_all add: is_double_def)

lemma is_double_add [simp]: "is_double a \<Longrightarrow> is_double b \<Longrightarrow> is_double (js_add a b)"
  by (cases a; cases b) auto

lemma is_double_mul [simp]: "is_double (js_mul a b)"
  by (cases a; cases b) (auto simp: inf_of_sign_def)

section \<open>Monotone operations\<close>

lemma js_add_mono:
  assumes "js_le (Fin 0) a" "js_le a b" "js_le (Fin 0) c" "js_le c d"
  shows "js_le (js_add a c) (js_add b d)"
proof (cases "b = PosInf \<or> d = PosInf")
  case True
  with assms show ?thesis by (cases a; cases b; cases c; cases d) auto
next
  case False
  with assms show ?thesis by (cases a; cases b; cases c; cases d) (auto intro!: rnd_mono)
qed

lemma js_add_nonneg: "js_le (Fin 0) a \<Longrightarrow> js_le (Fin 0) b \<Longrightarrow> js_le (Fin 0) (js_add a b)"
  using js_add_mono [of "Fin 0" a "Fin 0" b] by simp

lemma js_mul_mono:
  assumes "js_le a b" "0 < c"
  shows "js_le (js_mul a (Fin c)) (js_mul b (Fin c))"
  using assms by (cases a; cases b) (auto simp: inf_of_sign_def intro!: rnd_mono)

lemma js_div_mono:
  assumes "js_le a b" "0 < c"
  shows "js_le (js_div a (Fin c)) (js_div b (Fin c))"
  using assms by (cases a; cases b) (auto simp: inf_of_sign_def intro!: rnd_mono divide_right_mono)

lemma js_round_mono: "js_le a b \<Longrightarrow> js_le (js_round a) (js_round b)"
  by (cases a; cases b) (auto intro: floor_mono)

lemma js_max_mono: "js_le a b \<Longrightarrow> c \<noteq> NaN \<Longrightarrow> js_le (js_max c a) (js_max c b)"
  by (cases a; cases b; cases c) (auto simp: js_max_def)

lemma js_min_mono: "js_le a b \<Longrightarrow> c \<noteq> NaN \<Longrightarrow> js_le (js_min c a) (js_min c b)"
  by (cases a; cases b; cases c) (auto simp: js_min_def)

text \<open>The sign of a difference of doubles is the sign of the exact difference.\<close>

lemma double_grid: "is_double (Fin q) \<Longrightarrow> \<exists>m. q = of_int m * 2 powi -1074"
proof -
  assume "is_double (Fin q)"
  then have "rnd_rat q = q" by (auto simp: is_double_def rnd_def Let_def split: if_splits)
  then obtain m e where q: "q = of_int m * 2 powi e" "-1074 \<le> e"
    using rnd_rat_grid [of q] by auto
  have "(2::rat) powi e = 2 powi (e + 1074) * 2 powi -1074"
    by (subst two_powi_add [symmetric]) simp
  also have "(2::rat) powi (e + 1074) = of_int (2 ^ nat (e + 1074))"
    using q(2) by (simp add: power_int_def)
  finally have "q = of_int (m * 2 ^ nat (e + 1074)) * 2 powi -1074"
    using q(1) by (simp only: of_int_mult mult.assoc)
  then show ?thesis ..
qed

lemma rnd_pos_diff:
  assumes "is_double (Fin a)" "is_double (Fin b)" "b < a"
  shows "js_lt (Fin 0) (rnd (a - b))"
proof -
  obtain u :: rat where u: "u = 2 powi -1074" by blast
  have u0: "0 < u" unfolding u by (rule zero_less_power_int) simp
  obtain m n where mn: "a = of_int m * u" "b = of_int n * u"
    using double_grid assms(1,2) unfolding u by meson
  have d: "a - b = of_int (m - n) * u"
    unfolding mn by (simp add: left_diff_distrib)
  have "0 < m - n" using assms(3) u0 unfolding mn by simp
  then have "0 < rnd_rat (a - b)" unfolding d u by (rule rnd_rat_pos)
  then show ?thesis by (auto simp: rnd_def Let_def)
qed

lemma js_sub_sign:
  assumes "is_double a" "is_double b" "a \<noteq> NaN" "b \<noteq> NaN" "a \<noteq> b"
  shows "js_lt (Fin 0) (js_sub a b) \<longleftrightarrow> js_lt b a"
proof (cases "\<exists>p q. a = Fin p \<and> b = Fin q")
  case False
  with assms(3-5) show ?thesis by (cases a; cases b) (auto simp: js_sub_def)
next
  case True
  then obtain p q where ab: "a = Fin p" "b = Fin q" by blast
  show ?thesis
  proof (cases "q < p")
    case True
    then show ?thesis using rnd_pos_diff [of p q] assms(1,2) ab by (simp add: js_sub_def)
  next
    case False
    then have "js_le (rnd (p - q)) (Fin 0)" using rnd_mono [of "p - q" 0] by simp
    then have "\<not> js_lt (Fin 0) (rnd (p - q))" by (cases "rnd (p - q)") auto
    then show ?thesis using False ab by (simp add: js_sub_def)
  qed
qed

section \<open>Evaluating a rounding\<close>

text \<open>A rounding at a concrete rational: scale it into \<open>[2^52, 2^53)\<close> and give the nearest
  integer. Evaluations of the modelled arithmetic use this instead of unfolding \<open>rnd\<close>.\<close>

lemma rnd_eval:
  assumes "2 ^ 52 \<le> q * 2 ^ k" "q * 2 ^ k < 2 ^ 53" "round_half_even (q * 2 ^ k) = m" "k \<le> 1074"
  shows "rnd q = Fin (of_int m / 2 ^ k)"
proof -
  let ?e = "- int k"
  have P: "(2::rat) powi ?e = 1 / 2 ^ k"
    by (simp add: power_int_def power_one_over inverse_eq_divide)
  have q: "0 < q"
  proof (rule ccontr)
    assume "\<not> 0 < q"
    then have "q * 2 ^ k \<le> 0" by (simp add: mult_le_0_iff)
    with assms(1) show False by simp
  qed
  have "q < 2 powi (?e + 53)"
    using assms(2) by (subst two_powi_add) (simp add: P field_simps)
  then have "(2::rat) powi ilog2 q < 2 powi (?e + 53)"
    using ilog2_bounds(1) [OF q] by linarith
  then have up: "ilog2 q < ?e + 53"
    by (metis linorder_not_le one_le_numeral power_int_increasing)
  have "2 powi (?e + 52) \<le> q"
    using assms(1) by (subst two_powi_add) (simp add: P field_simps)
  then have "(2::rat) powi (?e + 52) < 2 powi (ilog2 q + 1)"
    using ilog2_bounds(2) [OF q] by linarith
  then have "?e + 52 < ilog2 q + 1"
    by (metis linorder_not_le one_le_numeral power_int_increasing)
  with up have e: "quantum_exp q = ?e"
    using assms(4) by (simp add: quantum_exp_def)
  have r: "rnd_rat q = of_int m / 2 ^ k"
    using assms(3) q e by (simp add: rnd_rat_def rnd_pos_scaled P divide_divide_eq_right)
  have "rnd_rat q \<le> 2 ^ 53 * 2 powi ?e"
    using round_scaled_le [OF q] q e
    by (simp add: rnd_rat_def rnd_pos_scaled P divide_right_mono)
  also have "\<dots> \<le> 2 ^ 53" by (simp add: P divide_le_eq)
  also have "(2::rat) ^ 53 < 2 ^ 1024" by (rule power_strict_increasing) simp_all
  finally have "rnd_rat q < 2 ^ 1024" .
  moreover have "0 \<le> rnd_rat q" using q by (simp add: rnd_rat_def rnd_pos_nonneg)
  moreover have "0 < (2::rat) ^ 1024" by (rule zero_less_power) simp
  ultimately have "\<not> 2 ^ 1024 \<le> rnd_rat q" "\<not> rnd_rat q \<le> - (2 ^ 1024)"
    by linarith+
  then have "rnd q = Fin (rnd_rat q)"
    unfolding rnd_def Let_def by (simp only: if_False)
  then show ?thesis using r by simp
qed

lemma floor_rat_numeral [simp]: "\<lfloor>(numeral a :: rat) / numeral b\<rfloor> = numeral a div numeral b"
  by (metis floor_divide_of_int_eq of_int_numeral)

lemma rnd_evalI:
  assumes "2 ^ 52 \<le> q * 2 ^ k" "q * 2 ^ k < 2 ^ 53" "\<bar>q * 2 ^ k - of_int m\<bar> < 1/2" "k \<le> 1074"
  shows "rnd q = Fin (of_int m / 2 ^ k)"
proof -
  have "of_int (round_half_even (q * 2 ^ k)) - of_int m < (1::rat)"
    "of_int m - of_int (round_half_even (q * 2 ^ k)) < (1::rat)"
    using round_half_even_bounds [of "q * 2 ^ k"] assms(3) by linarith+
  then have "round_half_even (q * 2 ^ k) = m" by linarith
  with assms show ?thesis by (intro rnd_eval)
qed

section \<open>Printing a number\<close>

text \<open>\<open>Number::toString\<close> in base ten: the shortest digit string that rounds back to the
  number, in positional notation for exponents from -6 to 20 and in exponent notation outside.\<close>

fun nat_to_string :: "nat \<Rightarrow> string" where
  "nat_to_string n = (if n < 10 then [digit_char n]
     else nat_to_string (n div 10) @ [digit_char (n mod 10)])"

declare nat_to_string.simps [simp del]

definition dec_exponent :: "rat \<Rightarrow> int" where
  "dec_exponent q = (if 1 \<le> q then int (length (nat_to_string (nat \<lfloor>q\<rfloor>)))
     else case find (\<lambda>j. 1 \<le> q * 10 ^ j) [1..<330] of Some j \<Rightarrow> 1 - int j | None \<Rightarrow> 0)"

definition shortest_digits :: "rat \<Rightarrow> int \<times> nat" where
  "shortest_digits q =
     (let n = dec_exponent q;
          s = (\<lambda>k. round_half_even (q / 10 powi (n - int k)))
      in case find (\<lambda>k. rnd_rat (of_int (s k) * 10 powi (n - int k)) = q) [1..<18] of
           Some k \<Rightarrow> if s k = 10 ^ k then (n + 1, 1) else (n, nat (s k))
         | None \<Rightarrow> (n, nat (s 17)))"

definition pos_num_to_string :: "rat \<Rightarrow> string" where
  "pos_num_to_string q =
     (let (n, s) = shortest_digits q; ds = nat_to_string s; k = int (length ds);
          e = n - 1;
          expo = ''e'' @ (if e < 0 then ''-'' else ''+'') @ nat_to_string (nat \<bar>e\<bar>)
      in if k \<le> n \<and> n \<le> 21 then ds @ replicate (nat (n - k)) (CHR ''0'')
         else if 0 < n \<and> n \<le> 21 then take (nat n) ds @ ''.'' @ drop (nat n) ds
         else if -6 < n \<and> n \<le> 0 then ''0.'' @ replicate (nat (- n)) (CHR ''0'') @ ds
         else if k = 1 then ds @ expo
         else take 1 ds @ ''.'' @ drop 1 ds @ expo)"

fun num_to_string :: "jsnum \<Rightarrow> string" where
  "num_to_string NaN = ''NaN''"
| "num_to_string PosInf = ''Infinity''"
| "num_to_string NegInf = ''-Infinity''"
| "num_to_string (Fin q) =
     (if q = 0 then ''0''
      else if q < 0 then ''-'' @ pos_num_to_string (- q)
      else pos_num_to_string q)"

end
