(* ===== verification/JsDate.thy ===== *)
theory JsDate
  imports Prelude "HOL-Library.Monad_Syntax"
begin

text \<open>
  JavaScript dates. A valid \<open>Date\<close> is its time value, the milliseconds since 1970-01-01 UTC
  as an integer; \<open>new Date(s).getTime()\<close> is an optional integer, \<open>None\<close> for \<open>NaN\<close>.
  \<open>toISOString\<close> and \<open>date_parse\<close> follow ECMA-262: the proleptic Gregorian calendar, the
  date-time string format with a four-digit year or a signed six-digit one, and an offset
  \<open>Z\<close>, \<open>+HH:mm\<close> or \<open>-HH:mm\<close> (the colon may be missing, which V8 accepts too). Fraction digits after
  the third are ignored, as V8 does. Every other string is read as \<open>None\<close>; for strings outside
  the format the standard leaves the result to the host.

  The lemmas give the round trip of printing and parsing for the years 0 to 9999 and the fact
  that on these years the order of the strings is the order of the times.
\<close>

section \<open>The calendar\<close>

definition ms_per_day :: int where
  "ms_per_day = 86400000"

definition day_from_year :: "int \<Rightarrow> int" where
  "day_from_year y = 365 * (y - 1970) + (y - 1969) div 4 - (y - 1901) div 100 + (y - 1601) div 400"

definition leap_year :: "int \<Rightarrow> bool" where
  "leap_year y = (y mod 4 = 0 \<and> (y mod 100 \<noteq> 0 \<or> y mod 400 = 0))"

definition leap_day :: "int \<Rightarrow> int" where
  "leap_day y = (if leap_year y then 1 else 0)"

definition year_from_day :: "int \<Rightarrow> int" where
  "year_from_day d =
     (let y = 1970 + (400 * d) div 146097
      in if d < day_from_year y then y - 1
         else if day_from_year (y + 1) \<le> d then y + 1 else y)"

text \<open>Days before the first of a month (1 to 12), for a year with \<open>l\<close> leap days.\<close>

definition month_start :: "int \<Rightarrow> int \<Rightarrow> int" where
  "month_start l m =
     (if m \<le> 1 then 0 else if m \<le> 2 then 31
      else l + (if m \<le> 3 then 59 else if m \<le> 4 then 90 else if m \<le> 5 then 120
        else if m \<le> 6 then 151 else if m \<le> 7 then 181 else if m \<le> 8 then 212
        else if m \<le> 9 then 243 else if m \<le> 10 then 273 else if m \<le> 11 then 304
        else if m \<le> 12 then 334 else 365))"

definition month_of :: "int \<Rightarrow> int \<Rightarrow> int" where
  "month_of l n =
     (if n < 31 then 1 else if n < 59 + l then 2 else if n < 90 + l then 3
      else if n < 120 + l then 4 else if n < 151 + l then 5 else if n < 181 + l then 6
      else if n < 212 + l then 7 else if n < 243 + l then 8 else if n < 273 + l then 9
      else if n < 304 + l then 10 else if n < 334 + l then 11 else 12)"

definition days_from_civil :: "int \<Rightarrow> int \<Rightarrow> int \<Rightarrow> int" where
  "days_from_civil y m d = day_from_year y + month_start (leap_day y) m + d - 1"

definition civil_from_days :: "int \<Rightarrow> int \<times> int \<times> int" where
  "civil_from_days n =
     (let y = year_from_day n; r = n - day_from_year y; m = month_of (leap_day y) r
      in (y, m, r - month_start (leap_day y) m + 1))"

lemma ms_per_day_pos: "0 < ms_per_day"
  by (simp add: ms_per_day_def)

lemma div_bounds:
  fixes a :: int
  assumes "0 < b"
  shows "b * (a div b) \<le> a" "a < b * (a div b) + b"
  using pos_mod_bound [OF assms, of a] pos_mod_sign [OF assms, of a] mult_div_mod_eq [of b a]
  by linarith+

lemma div_Suc_int:
  fixes x :: int
  assumes "0 < b"
  shows "(x + 1) div b = x div b + (if b dvd x + 1 then 1 else 0)"
proof (cases "b dvd x + 1")
  case True
  then obtain k where k: "x + 1 = b * k" by (rule dvdE)
  then have "x = b * (k - 1) + (b - 1)" by (simp add: algebra_simps)
  then have "x div b = k - 1" by (rule int_div_pos_eq) (use assms in simp_all)
  with True k assms show ?thesis by simp
next
  case False
  let ?r = "(x + 1) mod b"
  have "?r \<noteq> 0" using False by (simp add: dvd_eq_mod_eq_0)
  moreover have "0 \<le> ?r" "?r < b" using assms by simp_all
  moreover have x: "x = b * ((x + 1) div b) + (?r - 1)"
    using mult_div_mod_eq [of b "x + 1"] by linarith
  ultimately have "0 \<le> ?r - 1" "?r - 1 < b" by linarith+
  with x have "x div b = (x + 1) div b" by (rule int_div_pos_eq)
  with False show ?thesis by simp
qed

lemma dvd_diff_const: "(b::int) dvd c \<Longrightarrow> b dvd y - c \<longleftrightarrow> b dvd y"
  using dvd_add_left_iff [of b c "y - c"] by simp

lemma day_from_year_Suc: "day_from_year (y + 1) = day_from_year y + 365 + leap_day y"
proof -
  have 4: "(y - 1968) div 4 = (y - 1969) div 4 + (if 4 dvd y then 1 else 0)"
    using div_Suc_int [of 4 "y - 1969"] dvd_diff_const [of 4 1968 y] by simp
  have 100: "(y - 1900) div 100 = (y - 1901) div 100 + (if 100 dvd y then 1 else 0)"
    using div_Suc_int [of 100 "y - 1901"] dvd_diff_const [of 100 1900 y] by simp
  have 400: "(y - 1600) div 400 = (y - 1601) div 400 + (if 400 dvd y then 1 else 0)"
    using div_Suc_int [of 400 "y - 1601"] dvd_diff_const [of 400 1600 y] by simp
  have d: "400 dvd y \<Longrightarrow> 100 dvd y" "100 dvd y \<Longrightarrow> 4 dvd y"
    using dvd_trans [of 100 400 y] dvd_trans [of 4 100 y] by simp_all
  have l: "leap_day y = (if 4 dvd y then 1 else 0) - (if 100 dvd y then 1 else 0) + (if 400 dvd y then 1 else 0)"
    unfolding leap_day_def leap_year_def mod_eq_0_iff_dvd using d by presburger
  show ?thesis
    unfolding l by (simp add: day_from_year_def 4 100 400)
qed

lemma leap_day_01: "leap_day y = 0 \<or> leap_day y = 1"
  by (simp add: leap_day_def)

lemma day_from_year_approx:
  "1460970 * (y - 1970) - 10000 \<le> 4000 * day_from_year y"
  "4000 * day_from_year y \<le> 1460970 * (y - 1970) + 10000"
  using div_bounds [of 4 "y - 1969"] div_bounds [of 100 "y - 1901"] div_bounds [of 400 "y - 1601"]
  unfolding day_from_year_def by simp_all

lemma year_from_day_bounds:
  "day_from_year (year_from_day d) \<le> d" "d < day_from_year (year_from_day d + 1)"
proof -
  let ?y = "1970 + (400 * d) div 146097"
  have q: "146097 * ((400 * d) div 146097) \<le> 400 * d"
    "400 * d < 146097 * ((400 * d) div 146097) + 146097"
    using div_bounds [of 146097 "400 * d"] by simp_all
  have lo: "day_from_year (?y - 1) \<le> d"
    using day_from_year_approx(2) [of "?y - 1"] q by simp
  have hi: "d < day_from_year (?y + 2)"
    using day_from_year_approx(1) [of "?y + 2"] q by simp
  have two: "?y + 1 + 1 = ?y + 2" by simp
  show "day_from_year (year_from_day d) \<le> d" "d < day_from_year (year_from_day d + 1)"
    using lo hi two by (auto simp: year_from_day_def Let_def)
qed

lemma day_from_year_mono: "a \<le> b \<Longrightarrow> day_from_year a \<le> day_from_year b"
proof (induction b rule: int_ge_induct)
  case base
  then show ?case by simp
next
  case (step i)
  then show ?case using day_from_year_Suc [of i] leap_day_01 [of i] by auto
qed

lemma year_from_day_unique:
  assumes "day_from_year y \<le> d" "d < day_from_year (y + 1)"
  shows "year_from_day d = y"
proof (rule ccontr)
  assume "year_from_day d \<noteq> y"
  then consider "year_from_day d + 1 \<le> y" | "y + 1 \<le> year_from_day d" by linarith
  then show False
    using day_from_year_mono year_from_day_bounds [of d] assms by cases fastforce+
qed

lemma month_of_bounds:
  assumes "l = 0 \<or> l = 1" "0 \<le> n" "n < 365 + l"
  shows "1 \<le> month_of l n" "month_of l n \<le> 12"
    "month_start l (month_of l n) \<le> n" "n < month_start l (month_of l n + 1)"
  using assms by (auto simp: month_of_def month_start_def)

lemma month_of_unique:
  assumes "l = 0 \<or> l = 1" "1 \<le> m" "m \<le> 12" "month_start l m \<le> n" "n < month_start l (m + 1)"
  shows "month_of l n = m"
proof -
  from assms(2,3) have "m \<in> {1,2,3,4,5,6,7,8,9,10,11,12}" by simp presburger
  then show ?thesis using assms(1,4,5)
    by (elim insertE) (auto simp: month_of_def month_start_def)
qed

text \<open>A day number determines its civil date and back.\<close>

lemma civil_from_days_range:
  assumes "civil_from_days n = (y, m, d)"
  shows "1 \<le> m" "m \<le> 12" "1 \<le> d" "d \<le> 31" "days_from_civil y m d = n"
    "d \<le> month_start (leap_day y) (m + 1) - month_start (leap_day y) m"
proof -
  let ?y = "year_from_day n" and ?r = "n - day_from_year (year_from_day n)"
  have y: "y = ?y" "m = month_of (leap_day ?y) ?r" "d = ?r - month_start (leap_day ?y) m + 1"
    using assms by (auto simp: civil_from_days_def Let_def)
  have "0 \<le> ?r" "?r < 365 + leap_day ?y"
    using year_from_day_bounds [of n] day_from_year_Suc [of ?y] by simp_all
  note mb = month_of_bounds [OF leap_day_01 this, folded y]
  show "1 \<le> m" "m \<le> 12" "1 \<le> d" "d \<le> month_start (leap_day y) (m + 1) - month_start (leap_day y) m"
    using mb y by simp_all
  have "month_start (leap_day y) (m + 1) - month_start (leap_day y) m \<le> 31"
    using mb(1,2) leap_day_01 [of y] by (auto simp: month_start_def)
  with mb(4) y show "d \<le> 31" by simp
  show "days_from_civil y m d = n" using y by (simp add: days_from_civil_def)
qed

section \<open>Printing\<close>

definition year_string :: "int \<Rightarrow> string" where
  "year_string y = (if 0 \<le> y \<and> y \<le> 9999 then pad_digits 4 (nat y)
     else (if y < 0 then ''-'' else ''+'') @ pad_digits 6 (nat \<bar>y\<bar>))"

definition clock_string :: "int \<Rightarrow> string" where
  "clock_string r = pad_digits 2 (nat (r div 3600000)) @ '':'' @ pad_digits 2 (nat (r div 60000 mod 60))
     @ '':'' @ pad_digits 2 (nat (r div 1000 mod 60)) @ ''.'' @ pad_digits 3 (nat (r mod 1000)) @ ''Z''"

definition toISOString :: "int \<Rightarrow> string" where
  "toISOString t =
     (let (y, m, d) = civil_from_days (t div ms_per_day)
      in year_string y @ ''-'' @ pad_digits 2 (nat m) @ ''-'' @ pad_digits 2 (nat d) @ ''T''
         @ clock_string (t mod ms_per_day))"

section \<open>Parsing\<close>

fun expect :: "char \<Rightarrow> string \<Rightarrow> string option" where
  "expect c [] = None"
| "expect c (x # xs) = (if x = c then Some xs else None)"

fun parse_year :: "string \<Rightarrow> (int \<times> string) option" where
  "parse_year s = (case s of
     CHR ''+'' # cs \<Rightarrow> map_option (\<lambda>(v, r). (int v, r)) (read_digits 6 0 cs)
   | CHR ''-'' # cs \<Rightarrow> Option.bind (read_digits 6 0 cs) (\<lambda>(v, r). if v = 0 then None else Some (- int v, r))
   | _ \<Rightarrow> map_option (\<lambda>(v, r). (int v, r)) (read_digits 4 0 s))"

definition parse_fraction :: "string \<Rightarrow> (nat \<times> string) option" where
  "parse_fraction s = (case s of
     CHR ''.'' # cs \<Rightarrow>
       (let ds = takeWhile is_digit cs
        in if ds = [] then None
           else map_option (\<lambda>(v, _). (v, dropWhile is_digit cs)) (read_digits 3 0 (ds @ ''00'')))
   | _ \<Rightarrow> Some (0, s))"

text \<open>The offset from UTC in minutes; nothing may follow it.\<close>

definition parse_offset :: "string \<Rightarrow> int option" where
  "parse_offset s = (if s = ''Z'' then Some 0
     else case s of [] \<Rightarrow> None
       | c # cs \<Rightarrow> if c \<noteq> CHR ''+'' \<and> c \<noteq> CHR ''-'' then None
         else do {
           (h, r) \<leftarrow> read_digits 2 0 cs;
           (m, r') \<leftarrow> read_digits 2 0 (case r of CHR '':'' # r1 \<Rightarrow> r1 | _ \<Rightarrow> r);
           if r' = [] \<and> h \<le> 23 \<and> m \<le> 59
           then Some ((if c = CHR ''-'' then -1 else 1) * (60 * int h + int m)) else None
         })"

definition parse_clock :: "string \<Rightarrow> int option" where
  "parse_clock s = do {
     (h, s1) \<leftarrow> read_digits 2 0 s;
     s2 \<leftarrow> expect CHR '':'' s1;
     (mi, s3) \<leftarrow> read_digits 2 0 s2;
     s4 \<leftarrow> expect CHR '':'' s3;
     (sec, s5) \<leftarrow> read_digits 2 0 s4;
     (ms, s6) \<leftarrow> parse_fraction s5;
     off \<leftarrow> parse_offset s6;
     if (h \<le> 23 \<or> (h = 24 \<and> mi = 0 \<and> sec = 0 \<and> ms = 0)) \<and> mi \<le> 59 \<and> sec \<le> 59
     then Some (int h * 3600000 + int mi * 60000 + int sec * 1000 + int ms - off * 60000) else None
   }"

text \<open>\<open>new Date(s).getTime()\<close>.\<close>

definition date_parse :: "string \<Rightarrow> int option" where
  "date_parse s = do {
     (y, s1) \<leftarrow> parse_year s;
     s2 \<leftarrow> expect CHR ''-'' s1;
     (m, s3) \<leftarrow> read_digits 2 0 s2;
     s4 \<leftarrow> expect CHR ''-'' s3;
     (d, s5) \<leftarrow> read_digits 2 0 s4;
     s6 \<leftarrow> expect CHR ''T'' s5;
     t \<leftarrow> parse_clock s6;
     if 1 \<le> m \<and> m \<le> 12 \<and> 1 \<le> d
       \<and> int d \<le> month_start (leap_day y) (int m + 1) - month_start (leap_day y) (int m)
     then Some (days_from_civil y (int m) (int d) * ms_per_day + t) else None
   }"

section \<open>Round trip and order\<close>

definition valid_time :: "int \<Rightarrow> bool" where
  "valid_time t = (\<bar>t\<bar> \<le> 8640000000000000)"

definition four_digit_year :: "int \<Rightarrow> bool" where
  "four_digit_year t = (-62167219200000 \<le> t \<and> t \<le> 253402300799999)"

lemma read_pad_2: "x < 100 \<Longrightarrow> read_digits 2 0 (pad_digits 2 x @ s) = Some (x, s)"
  using read_pad_digits [of x 2 0 s] by simp

lemma pad_digits_3: "pad_digits 3 x = [digit_char (x div 100 mod 10), digit_char (x div 10 mod 10), digit_char (x mod 10)]"
  by (simp add: numeral_3_eq_3 div_mult2_eq [symmetric])

lemma parse_fraction_pad:
  assumes "x < 1000"
  shows "parse_fraction (CHR ''.'' # pad_digits 3 x @ ''Z'') = Some (x, ''Z'')"
proof -
  have "\<not> is_digit (CHR ''Z'')" by (simp add: is_digit_def)
  then have "takeWhile is_digit (pad_digits 3 x @ ''Z'') = pad_digits 3 x"
    "dropWhile is_digit (pad_digits 3 x @ ''Z'') = ''Z''"
    by (simp_all add: pad_digits_3)
  moreover have "pad_digits 3 x \<noteq> []" by (simp add: pad_digits_3)
  moreover have "read_digits 3 0 (pad_digits 3 x @ ''00'') = Some (x, ''00'')"
    using read_pad_digits [of x 3 0 "''00''"] assms by simp
  ultimately show ?thesis by (simp add: parse_fraction_def)
qed

lemma parse_clock_fields:
  assumes "h \<le> 23" "mi \<le> 59" "sec \<le> 59" "ms < 1000"
  shows "parse_clock (pad_digits 2 h @ '':'' @ pad_digits 2 mi @ '':'' @ pad_digits 2 sec @ ''.''
    @ pad_digits 3 ms @ ''Z'') = Some (int h * 3600000 + int mi * 60000 + int sec * 1000 + int ms)"
  using assms parse_fraction_pad [of ms]
  by (simp add: parse_clock_def read_pad_2 parse_offset_def)

lemma clock_fields:
  assumes "0 \<le> r" "r < ms_per_day"
  shows "r = r div 3600000 * 3600000 + r div 60000 mod 60 * 60000 + r div 1000 mod 60 * 1000 + r mod 1000"
    "0 \<le> r div 3600000" "r div 3600000 \<le> 23"
proof -
  have e: "r div 60000 = r div 1000 div 60" "r div 3600000 = r div 1000 div 60 div 60"
    by (simp_all add: zdiv_zmult2_eq [symmetric])
  obtain a b c where q: "a = r div 1000" "b = a div 60" "c = b div 60" by blast
  have "r = 1000 * a + r mod 1000" "a = 60 * b + a mod 60" "b = 60 * c + b mod 60"
    unfolding q by simp_all
  then have "r = c * 3600000 + b mod 60 * 60000 + a mod 60 * 1000 + r mod 1000" by linarith
  then show "r = r div 3600000 * 3600000 + r div 60000 mod 60 * 60000 + r div 1000 mod 60 * 1000 + r mod 1000"
    by (simp only: e q)
  show "0 \<le> r div 3600000" "r div 3600000 \<le> 23"
    using assms by (simp_all add: ms_per_day_def pos_imp_zdiv_nonneg_iff)
qed

lemma parse_clock_string:
  assumes "0 \<le> r" "r < ms_per_day"
  shows "parse_clock (clock_string r) = Some r"
proof -
  note c = clock_fields [OF assms]
  have "parse_clock (clock_string r) = Some (int (nat (r div 3600000)) * 3600000
    + int (nat (r div 60000 mod 60)) * 60000 + int (nat (r div 1000 mod 60)) * 1000 + int (nat (r mod 1000)))"
    unfolding clock_string_def
  proof (rule parse_clock_fields)
    show "nat (r div 3600000) \<le> 23" using c(3) by simp
  qed (simp_all add: nat_le_iff nat_less_iff)
  also have "\<dots> = Some (r div 3600000 * 3600000 + r div 60000 mod 60 * 60000
    + r div 1000 mod 60 * 1000 + r mod 1000)"
    using c(2) by simp
  also have "\<dots> = Some r" by (simp only: c(1) [symmetric])
  finally show ?thesis .
qed

lemma pad_digits_first: "\<exists>d cs. d < 10 \<and> pad_digits (Suc n) x = digit_char d # cs"
proof (induction n arbitrary: x)
  case 0
  show ?case by (intro exI [of _ "x mod 10"] exI [of _ "[]"]) simp
next
  case (Suc n)
  from Suc.IH [of "x div 10"] obtain d cs
    where "d < 10" "pad_digits (Suc n) (x div 10) = digit_char d # cs" by blast
  then have "pad_digits (Suc (Suc n)) x = digit_char d # cs @ [digit_char (x mod 10)]"
    by (simp only: pad_digits.simps(2) [of "Suc n" x] append_Cons)
  with \<open>d < 10\<close> show ?case by blast
qed

lemma year_from_day_range:
  assumes "-100000001 \<le> n" "n \<le> 100000000"
  shows "\<bar>year_from_day n\<bar> \<le> 999999"
proof -
  let ?y = "year_from_day n"
  have "1460970 * (?y - 1970) - 10000 \<le> 4000 * n" "4000 * n < 1460970 * (?y + 1 - 1970) + 10000"
    using year_from_day_bounds [of n] day_from_year_approx [of ?y] day_from_year_approx [of "?y + 1"]
    by linarith+
  then show ?thesis using assms by simp
qed

lemma parse_year_plain:
  "c \<noteq> CHR ''+'' \<Longrightarrow> c \<noteq> CHR ''-'' \<Longrightarrow>
    parse_year (c # s) = map_option (\<lambda>(v, r). (int v, r)) (read_digits 4 0 (c # s))"
  by (simp only: parse_year.simps list.case) (auto split: char.split bool.split)

lemma parse_year_string:
  assumes "\<bar>y\<bar> \<le> 999999"
  shows "parse_year (year_string y @ ''-'' @ s) = Some (y, ''-'' @ s)"
proof (cases "0 \<le> y \<and> y \<le> 9999")
  case True
  have r: "read_digits 4 0 (pad_digits 4 (nat y) @ ''-'' @ s) = Some (nat y, ''-'' @ s)"
    using read_pad_digits [of "nat y" 4 0 "''-'' @ s"] True by (simp add: nat_less_iff)
  obtain e cs where "e < 10" "pad_digits 4 (nat y) = digit_char e # cs"
    using pad_digits_first [of 3 "nat y"] by auto
  moreover have "digit_char d \<noteq> CHR ''+''" "digit_char d \<noteq> CHR ''-''" if "d < 10" for d
    using digit_char_props(1) [OF that] by (auto simp: is_digit_def)
  ultimately show ?thesis using r True parse_year_plain [of "digit_char e" "cs @ ''-'' @ s"]
    by (simp add: year_string_def del: parse_year.simps)
next
  case False
  then show ?thesis
    using read_pad_digits [of "nat \<bar>y\<bar>" 6 0 "''-'' @ s"] assms by (auto simp: year_string_def)
qed

lemma valid_time_year:
  assumes "valid_time t" "civil_from_days (t div ms_per_day) = (y, m, d)"
  shows "\<bar>y\<bar> \<le> 999999"
proof -
  let ?n = "t div ms_per_day"
  have n: "-100000001 \<le> ?n" "?n \<le> 100000000"
    using assms(1) by (auto simp: valid_time_def ms_per_day_def)
  have y: "y = year_from_day ?n" using assms(2) by (simp add: civil_from_days_def Let_def)
  show ?thesis using year_from_day_range [OF n] by (simp only: y)
qed

theorem date_parse_toISOString:
  assumes "valid_time t"
  shows "date_parse (toISOString t) = Some t"
proof -
  obtain y m d where ymd: "civil_from_days (t div ms_per_day) = (y, m, d)"
    by (metis prod_cases3)
  note r = civil_from_days_range [OF ymd]
  have "0 \<le> t mod ms_per_day" "t mod ms_per_day < ms_per_day" by (simp_all add: ms_per_day_def)
  note c = parse_clock_string [OF this]
  have m: "int (nat m) = m" "nat m < 100" "1 \<le> nat m" "nat m \<le> 12"
    and d: "int (nat d) = d" "nat d < 100" "1 \<le> nat d" using r by simp_all
  have "date_parse (toISOString t) = Some (days_from_civil y m d * ms_per_day + t mod ms_per_day)"
    using r m d c parse_year_string [OF valid_time_year [OF assms ymd]]
    by (simp add: date_parse_def toISOString_def ymd read_pad_2 del: parse_year.simps)
  also have "\<dots> = Some t" using r(5) by simp
  finally show ?thesis .
qed

text \<open>On four-digit years the code-unit order of the strings is the order of the times.\<close>

lemma pad_nat:
  assumes "0 \<le> a" "a < 10 ^ k" "0 \<le> b" "b < 10 ^ k"
  shows "pad_digits k (nat a) < pad_digits k (nat b) \<longleftrightarrow> a < b"
    "pad_digits k (nat a) = pad_digits k (nat b) \<longleftrightarrow> a = b"
proof -
  have "int (nat a) < int (10 ^ k)" "int (nat b) < int (10 ^ k)" using assms by simp_all
  then have "nat a < 10 ^ k" "nat b < 10 ^ k" by (simp_all only: of_nat_less_iff)
  then show "pad_digits k (nat a) < pad_digits k (nat b) \<longleftrightarrow> a < b"
    "pad_digits k (nat a) = pad_digits k (nat b) \<longleftrightarrow> a = b"
    using assms(1,3) by (auto simp: pad_digits_less pad_digits_inj)
qed

lemma clock_string_less:
  assumes "0 \<le> r" "r < ms_per_day" "0 \<le> r'" "r' < ms_per_day" "clock_string r < clock_string r'"
  shows "r < r'"
proof -
  obtain h m s f h' m' s' f' where q:
    "h = r div 3600000" "m = r div 60000 mod 60" "s = r div 1000 mod 60" "f = r mod 1000"
    "h' = r' div 3600000" "m' = r' div 60000 mod 60" "s' = r' div 1000 mod 60" "f' = r' mod 1000"
    by blast
  have b: "0 \<le> h" "h < 100" "0 \<le> m" "m < 60" "0 \<le> s" "s < 60" "0 \<le> f" "f < 1000"
    "0 \<le> h'" "h' < 100" "0 \<le> m'" "m' < 60" "0 \<le> s'" "s' < 60" "0 \<le> f'" "f' < 1000"
    using clock_fields(2,3) [OF assms(1,2)] clock_fields(2,3) [OF assms(3,4)] unfolding q by simp_all
  have "h < h' \<or> h = h' \<and> (m < m' \<or> m = m' \<and> (s < s' \<or> s = s' \<and> f < f'))"
    using assms(5) b unfolding clock_string_def q [symmetric]
    by (simp add: append_less_same_length pad_nat)
  moreover have "r = h * 3600000 + m * 60000 + s * 1000 + f" "r' = h' * 3600000 + m' * 60000 + s' * 1000 + f'"
    unfolding q by (rule clock_fields(1) [OF assms(1,2)], rule clock_fields(1) [OF assms(3,4)])
  ultimately show ?thesis using b by auto
qed

lemma month_start_mono: "l = 0 \<or> l = 1 \<Longrightarrow> m \<le> m' \<Longrightarrow> month_start l m \<le> month_start l m'"
  unfolding month_start_def by auto

lemma days_from_civil_less:
  assumes "civil_from_days n = (y, m, d)" "civil_from_days n' = (y', m', d')"
    and "y < y' \<or> y = y' \<and> (m < m' \<or> m = m' \<and> d < d')"
  shows "n < n'"
proof -
  note r = civil_from_days_range [OF assms(1)] and r' = civil_from_days_range [OF assms(2)]
  have nb: "n < day_from_year (y + 1)" "day_from_year y' \<le> n'"
    using assms(1,2) year_from_day_bounds [of n] year_from_day_bounds [of n']
    by (auto simp: civil_from_days_def Let_def)
  have md: "n < day_from_year y + month_start (leap_day y) (m + 1)" "day_from_year y' + month_start (leap_day y') m' \<le> n'"
    using r r' by (auto simp: days_from_civil_def)
  consider "y + 1 \<le> y'" | "y = y'" "m + 1 \<le> m'" | "y = y'" "m = m'" "d < d'"
    using assms(3) by force
  then show ?thesis
  proof cases
    case 1
    then show ?thesis using day_from_year_mono [of "y + 1" y'] nb by linarith
  next
    case 2
    then show ?thesis using month_start_mono [OF leap_day_01, of "m + 1" m' y] md by auto
  next
    case 3
    then show ?thesis using r(5) r'(5) by (auto simp: days_from_civil_def)
  qed
qed

lemma four_digit_year_range:
  assumes "four_digit_year t" "civil_from_days (t div ms_per_day) = (y, m, d)"
  shows "0 \<le> y \<and> y \<le> 9999"
proof -
  obtain n where n: "n = t div ms_per_day" by blast
  have b: "day_from_year 0 \<le> n" "n < day_from_year 10000"
    using assms(1) unfolding n by (auto simp: four_digit_year_def ms_per_day_def day_from_year_def)
  have y: "day_from_year y \<le> n" "n < day_from_year (y + 1)"
    using assms(2) year_from_day_bounds [of n] unfolding n by (auto simp: civil_from_days_def Let_def)
  show ?thesis
    using day_from_year_mono [of "y + 1" 0] day_from_year_mono [of 10000 y] b y by linarith
qed

lemma date_string_less:
  assumes "0 \<le> y" "y \<le> 9999" "0 \<le> y'" "y' \<le> 9999" "1 \<le> m" "m \<le> 12" "1 \<le> d" "d \<le> 31"
    "1 \<le> m'" "m' \<le> 12" "1 \<le> d'" "d' \<le> 31"
  shows "pad_digits 4 (nat y) @ CHR ''-'' # pad_digits 2 (nat m) @ CHR ''-'' # pad_digits 2 (nat d) @ CHR ''T'' # s
      < pad_digits 4 (nat y') @ CHR ''-'' # pad_digits 2 (nat m') @ CHR ''-'' # pad_digits 2 (nat d') @ CHR ''T'' # s'
    \<longleftrightarrow> y < y' \<or> y = y' \<and> (m < m' \<or> m = m' \<and> (d < d' \<or> d = d' \<and> s < s'))"
proof -
  have Y: "pad_digits 4 (nat y) < pad_digits 4 (nat y') \<longleftrightarrow> y < y'"
    "pad_digits 4 (nat y) = pad_digits 4 (nat y') \<longleftrightarrow> y = y'"
    using pad_nat [of y 4 y'] assms by simp_all
  have M: "pad_digits 2 (nat m) < pad_digits 2 (nat m') \<longleftrightarrow> m < m'"
    "pad_digits 2 (nat m) = pad_digits 2 (nat m') \<longleftrightarrow> m = m'"
    using pad_nat [of m 2 m'] assms by simp_all
  have D: "pad_digits 2 (nat d) < pad_digits 2 (nat d') \<longleftrightarrow> d < d'"
    "pad_digits 2 (nat d) = pad_digits 2 (nat d') \<longleftrightarrow> d = d'"
    using pad_nat [of d 2 d'] assms by simp_all
  show ?thesis
    by (simp add: append_less_same_length Y M D)
qed

lemma toISOString_less_imp:
  assumes "four_digit_year t" "four_digit_year t'" "toISOString t < toISOString t'"
  shows "t < t'"
proof -
  obtain y m d where c: "civil_from_days (t div ms_per_day) = (y, m, d)" by (metis prod_cases3)
  obtain y' m' d' where c': "civil_from_days (t' div ms_per_day) = (y', m', d')" by (metis prod_cases3)
  note r = civil_from_days_range [OF c] and r' = civil_from_days_range [OF c']
  have y: "0 \<le> y" "y \<le> 9999" "0 \<le> y'" "y' \<le> 9999"
    using four_digit_year_range [OF assms(1) c] four_digit_year_range [OF assms(2) c'] by simp_all
  have s: "year_string y = pad_digits 4 (nat y)" "year_string y' = pad_digits 4 (nat y')"
    using y by (simp_all add: year_string_def)
  note date_string_less = date_string_less [OF y r(1-4) r'(1-4)]
  let ?r = "t mod ms_per_day" and ?r' = "t' mod ms_per_day"
  have "y < y' \<or> y = y' \<and> (m < m' \<or> m = m' \<and> (d < d' \<or> d = d' \<and> clock_string ?r < clock_string ?r'))"
    using assms(3) unfolding toISOString_def c c' by (simp add: s date_string_less)
  then consider "y < y' \<or> y = y' \<and> (m < m' \<or> m = m' \<and> d < d')"
    | "y = y'" "m = m'" "d = d'" "clock_string ?r < clock_string ?r'" by blast
  then show ?thesis
  proof cases
    case 1
    from days_from_civil_less [OF c c' this] show ?thesis
      by (meson linorder_not_le ms_per_day_pos zdiv_mono1)
  next
    case 2
    then have "t div ms_per_day = t' div ms_per_day" using r(5) r'(5) by simp
    moreover have "?r < ?r'"
      using clock_string_less [OF _ _ _ _ 2(4)] ms_per_day_pos by simp
    ultimately show ?thesis by (metis add_less_cancel_left mult_div_mod_eq)
  qed
qed

lemma toISOString_not_empty: "toISOString t \<noteq> []"
  by (simp add: toISOString_def Let_def split: prod.splits)

lemma four_digit_valid: "four_digit_year t \<Longrightarrow> valid_time t"
  by (auto simp: four_digit_year_def valid_time_def)

lemma toISOString_inj:
  "valid_time t \<Longrightarrow> valid_time t' \<Longrightarrow> toISOString t = toISOString t' \<longleftrightarrow> t = t'"
  by (metis date_parse_toISOString option.inject)

theorem toISOString_less:
  assumes "four_digit_year t" "four_digit_year t'"
  shows "toISOString t < toISOString t' \<longleftrightarrow> t < t'"
proof
  show "t < t'" if "toISOString t < toISOString t'" using toISOString_less_imp [OF assms that] .
  show "toISOString t < toISOString t'" if "t < t'"
  proof (rule ccontr)
    assume "\<not> ?thesis"
    then consider "toISOString t = toISOString t'" | "toISOString t' < toISOString t"
      by (meson linorder_neqE)
    then show False
      using that toISOString_inj [OF assms [THEN four_digit_valid]]
        toISOString_less_imp [OF assms(2,1)] by cases auto
  qed
qed

end
