(* ===== verification/Models.thy ===== *)
theory Models
  imports JsNumber JsDate
begin

text \<open>
  The domain types of \<open>src/types/models.ts\<close>, one record or datatype per interface or union,
  with the fields in the order of the source. An optional field is an \<open>option\<close>; a number is a
  \<open>jsnum\<close> where it carries a measured or computed quantity; \<open>actionRank\<close> and
  \<open>offsetMinutes\<close>, which only ever hold small whole numbers computed by the code, are \<open>int\<close>.
\<close>

type_synonym GateId = string
type_synonym RouteId = string
type_synonym FanId = string

record Gate =
  gate_id :: GateId
  gate_name :: string
  capacityThreshold :: jsnum
  assignedRouteIds :: "RouteId list"

record ShuttleRoute =
  route_id :: RouteId
  servedGateIds :: "GateId list"

datatype SignalSource = GATE_COUNTER | TICKET_SCANNER | TRANSIT_FEED

fun source_string :: "SignalSource \<Rightarrow> string" where
  "source_string GATE_COUNTER = ''GATE_COUNTER''"
| "source_string TICKET_SCANNER = ''TICKET_SCANNER''"
| "source_string TRANSIT_FEED = ''TRANSIT_FEED''"

lemma source_string_inj [simp]: "source_string a = source_string b \<longleftrightarrow> a = b"
  by (cases a; cases b) simp_all

record GateCounterPayload =
  gc_count :: jsnum
  intervalSeconds :: jsnum

record TicketScanPayload =
  scan_fanId :: FanId

record TransitArrivalPayload =
  estimatedPassengerCount :: jsnum
  destinationGateId :: "GateId option"
  destinationRouteId :: "RouteId option"
  transit_fanIds :: "FanId list option"

datatype SignalEventPayloadBody =
    GateCounterBody GateCounterPayload
  | TicketScanBody TicketScanPayload
  | TransitArrivalBody TransitArrivalPayload

record SignalEvent =
  signalId :: string
  source :: SignalSource
  gateId :: "GateId option"
  routeId :: "RouteId option"
  timestamp :: string
  receivedAt :: string
  payload :: SignalEventPayloadBody
  isStale :: bool
  lateArrivalFlag :: bool

datatype RiskLevel = LOW | MODERATE | HIGH | CRITICAL

fun risk_string :: "RiskLevel \<Rightarrow> string" where
  "risk_string LOW = ''LOW''"
| "risk_string MODERATE = ''MODERATE''"
| "risk_string HIGH = ''HIGH''"
| "risk_string CRITICAL = ''CRITICAL''"

record CongestionScorePoint =
  point_gateId :: GateId
  forecastTime :: string
  offsetMinutes :: int
  score :: jsnum
  riskLevel :: RiskLevel
  point_lowConfidence :: bool
  outdated :: bool

datatype ActionType = OPEN_GATE_LANE | REDIRECT_SHUTTLE_ROUTE | HOLD_TRANSIT_ARRIVAL | FAN_NUDGE_CAMPAIGN

fun action_string :: "ActionType \<Rightarrow> string" where
  "action_string OPEN_GATE_LANE = ''OPEN_GATE_LANE''"
| "action_string REDIRECT_SHUTTLE_ROUTE = ''REDIRECT_SHUTTLE_ROUTE''"
| "action_string HOLD_TRANSIT_ARRIVAL = ''HOLD_TRANSIT_ARRIVAL''"
| "action_string FAN_NUDGE_CAMPAIGN = ''FAN_NUDGE_CAMPAIGN''"

lemma action_string_inj [simp]: "action_string a = action_string b \<longleftrightarrow> a = b"
  by (cases a; cases b) simp_all

record RecommendedAction =
  actionId :: string
  action_gateId :: GateId
  actionType :: ActionType
  actionRank :: int
  action_explanation :: string
  targetGateId :: "GateId option"
  targetRouteId :: "RouteId option"
  action_generatedAt :: string
  executedAt :: "string option"
  executedByUserId :: "string option"

datatype RedirectionStatus = PENDING | ACCEPTED | REJECTED

record ShuttleRedirectionRecommendation =
  recommendationId :: string
  redir_routeId :: RouteId
  redir_originGateId :: GateId
  redir_alternativeGateId :: GateId
  redir_explanation :: string
  redir_generatedAt :: string
  redir_status :: RedirectionStatus
  acceptedAt :: "string option"
  acceptedByDispatcherId :: "string option"
  rejectedAt :: "string option"
  rejectedByDispatcherId :: "string option"

datatype NudgeStatus = QUEUED | SIMULATED_DELIVERED | CANCELLED

record FanNudge =
  nudgeId :: string
  nudge_fanId :: FanId
  nudge_originGateId :: GateId
  nudge_alternativeGateId :: "GateId option"
  alternativeArrivalTime :: "string option"
  alternativeRouteId :: "RouteId option"
  nudge_message :: string
  nudge_generatedAt :: string
  simulatedDeliveryTimestamp :: "string option"
  nudge_status :: NudgeStatus

datatype AlertType = RISK_LEVEL | DATA_QUALITY

record Alert =
  alertId :: string
  alert_gateId :: GateId
  alertType :: AlertType
  raisedAt :: string
  alert_riskLevel :: "RiskLevel option"
  affectedSources :: "SignalSource list option"
  acknowledgedAt :: "string option"
  acknowledgedByUserId :: "string option"

text \<open>\<open>SignalSource | "UNKNOWN"\<close> is an optional source, \<open>None\<close> for \<open>UNKNOWN\<close>; the raw payload
  of type \<open>unknown\<close> is a value of the type parameter \<open>'raw\<close>.\<close>

record 'raw ValidationErrorRecord =
  errorId :: string
  err_source :: "SignalSource option"
  err_reason :: string
  err_offendingField :: "string option"
  err_rawPayload :: 'raw
  recordedAt :: string

record ScoreAuditRecord =
  sa_gateId :: GateId
  sa_timestamp :: string
  sa_score :: jsnum
  sa_riskLevel :: RiskLevel
  contributingSignalIds :: "string list"
  contributingSignalLateArrivalFlags :: "(string, bool) jsmap"

text \<open>\<open>ForecastResult\<close> of \<open>src/congestion-forecaster/forecast.ts\<close>.\<close>

record ForecastResult =
  scores :: "CongestionScorePoint list"
  lowConfidence :: bool

text \<open>Risk levels are ordered by severity; the order is the one of the map \<open>RISK_ORDER\<close> of
  \<open>risk-comparison.ts\<close> and of \<open>RISK_PRIORITY\<close> of \<open>priority-queue.ts\<close>.\<close>

fun risk_rank :: "RiskLevel \<Rightarrow> nat" where
  "risk_rank LOW = 0"
| "risk_rank MODERATE = 1"
| "risk_rank HIGH = 2"
| "risk_rank CRITICAL = 3"

lemma risk_rank_inj: "risk_rank a = risk_rank b \<Longrightarrow> a = b"
  by (cases a; cases b) simp_all

instantiation RiskLevel :: linorder
begin

definition less_eq_RiskLevel :: "RiskLevel \<Rightarrow> RiskLevel \<Rightarrow> bool" where
  "less_eq_RiskLevel a b = (risk_rank a \<le> risk_rank b)"

definition less_RiskLevel :: "RiskLevel \<Rightarrow> RiskLevel \<Rightarrow> bool" where
  "less_RiskLevel a b = (risk_rank a < risk_rank b)"

instance
  by standard (auto simp: less_eq_RiskLevel_def less_RiskLevel_def intro: risk_rank_inj)

end

lemma LOW_least [simp]: "LOW \<le> r"
  by (simp add: less_eq_RiskLevel_def)

lemma CRITICAL_greatest [simp]: "r \<le> CRITICAL"
  by (cases r) (simp_all add: less_eq_RiskLevel_def)

definition high_or_critical :: "RiskLevel \<Rightarrow> bool" where
  "high_or_critical r = (r = HIGH \<or> r = CRITICAL)"

lemma high_or_critical_iff: "high_or_critical r \<longleftrightarrow> HIGH \<le> r"
  by (cases r) (simp_all add: high_or_critical_def less_eq_RiskLevel_def)

end
