(* ===== verification/Schema.thy ===== *)
theory Schema
  imports Models
begin

text \<open>
  \<open>src/signal-ingestion/schema.ts\<close>: the schema of a signal event on the wire.

  The schema is a value of the datatype \<open>zod\<close>, one constructor per combinator of the
  validation library the source calls, and the definitions below are the declarations of the
  source in that syntax. The library itself is not part of the repository: its
  \<open>safeParse\<close> is a parameter of the parser, and \<open>zod_contract\<close> states what its documentation
  promises of it: it accepts exactly the values that conform to the schema (\<open>zod_accepts\<close>,
  with the form of date-time strings as a parameter \<open>dt\<close>), returns data equal to the input up to
  the order of keys and absent optional keys, and reports at least one issue otherwise.
\<close>

section \<open>JSON values\<close>

datatype json = JUndef | JNull | JBool bool | JNum jsnum | JStr string
  | JArr "json list" | JObj "(string \<times> json) list"

text \<open>Reading a property: \<open>undefined\<close> where the value has none.\<close>

definition field :: "string \<Rightarrow> (string \<times> json) list \<Rightarrow> json" where
  "field k fs = coalesce (map_of fs k) JUndef"

fun prop_of :: "json \<Rightarrow> string \<Rightarrow> json" where
  "prop_of (JObj fs) k = field k fs"
| "prop_of _ k = JUndef"

lemma field_simps [simp]:
  "field k [] = JUndef" "field k ((k', v) # fs) = (if k' = k then v else field k fs)"
  by (simp_all add: field_def)

lemma size_field: "size (field k fs) < size (JObj fs)"
proof (induction fs)
  case Nil
  then show ?case by simp
next
  case (Cons f fs)
  then show ?case by (cases f) auto
qed

text \<open>Equality up to key order and keys whose value is \<open>undefined\<close>.\<close>

function json_equiv :: "json \<Rightarrow> json \<Rightarrow> bool" where
  "json_equiv (JObj fs) (JObj gs) =
     (\<forall>k \<in> set (map fst fs) \<union> set (map fst gs). json_equiv (field k fs) (field k gs))"
| "json_equiv (JArr xs) j = (case j of JArr ys \<Rightarrow> xs = ys | _ \<Rightarrow> False)"
| "json_equiv JUndef j = (j = JUndef)"
| "json_equiv JNull j = (j = JNull)"
| "json_equiv (JBool b) j = (j = JBool b)"
| "json_equiv (JNum x) j = (j = JNum x)"
| "json_equiv (JStr s) j = (j = JStr s)"
| "json_equiv (JObj fs) JUndef = False"
| "json_equiv (JObj fs) JNull = False"
| "json_equiv (JObj fs) (JBool b) = False"
| "json_equiv (JObj fs) (JNum x) = False"
| "json_equiv (JObj fs) (JStr s) = False"
| "json_equiv (JObj fs) (JArr xs) = False"
  by pat_completeness auto
termination
  by (relation "measure (size \<circ> fst)") (use size_field in auto)

lemma field_absent: "k \<notin> set (map fst fs) \<Longrightarrow> field k fs = JUndef"
  by (simp add: field_def map_of_eq_None_iff [symmetric])

lemma json_equiv_field: "json_equiv (JObj fs) (JObj gs) \<Longrightarrow> json_equiv (field k fs) (field k gs)"
  by (cases "k \<in> set (map fst fs) \<union> set (map fst gs)") (auto simp: field_absent)

lemma json_equiv_prop: "json_equiv a b \<Longrightarrow> json_equiv (prop_of a k) (prop_of b k)"
  by (cases a; cases b) (auto simp: json_equiv_field simp del: json_equiv.simps(1))

lemma json_equiv_refl [simp]: "json_equiv j j"
proof (induction "size j" arbitrary: j rule: less_induct)
  case less
  show ?case
  proof (cases j)
    case (JObj fs)
    with less show ?thesis using size_field [of _ fs] by auto
  qed simp_all
qed

section \<open>Schemas\<close>

datatype zod_string_check = MinLength nat | Datetime
datatype zod_number_check = Nonnegative | Positive

datatype zod =
    ZString "zod_string_check list"
  | ZNumber "zod_number_check list"
  | ZBoolean
  | ZLiteral string
  | ZEnum "string list"
  | ZOptional zod
  | ZArray zod
  | ZStrictObject "(string \<times> zod) list"
  | ZUnion "zod list"
  | ZDiscriminatedUnion string "zod list"

definition SignalSourceSchema :: zod where
  "SignalSourceSchema = ZEnum [''GATE_COUNTER'', ''TICKET_SCANNER'', ''TRANSIT_FEED'']"

definition GateCounterPayloadSchema :: zod where
  "GateCounterPayloadSchema = ZStrictObject
     [(''count'', ZNumber [Nonnegative]), (''intervalSeconds'', ZNumber [Positive])]"

definition TicketScanPayloadSchema :: zod where
  "TicketScanPayloadSchema = ZStrictObject [(''fanId'', ZString [MinLength 1])]"

definition TransitArrivalPayloadSchema :: zod where
  "TransitArrivalPayloadSchema = ZStrictObject
     [(''estimatedPassengerCount'', ZNumber [Nonnegative]),
      (''destinationGateId'', ZOptional (ZString [MinLength 1])),
      (''destinationRouteId'', ZOptional (ZString [MinLength 1])),
      (''fanIds'', ZOptional (ZArray (ZString [MinLength 1])))]"

definition SignalEventPayloadBodySchema :: zod where
  "SignalEventPayloadBodySchema =
     ZUnion [GateCounterPayloadSchema, TicketScanPayloadSchema, TransitArrivalPayloadSchema]"

definition baseSignalEventFields :: "(string \<times> zod) list" where
  "baseSignalEventFields =
     [(''signalId'', ZString [MinLength 1]),
      (''gateId'', ZOptional (ZString [MinLength 1])),
      (''routeId'', ZOptional (ZString [MinLength 1])),
      (''timestamp'', ZString [Datetime]),
      (''receivedAt'', ZString [Datetime]),
      (''isStale'', ZBoolean),
      (''lateArrivalFlag'', ZBoolean)]"

definition GateCounterEventSchema :: zod where
  "GateCounterEventSchema = ZStrictObject (baseSignalEventFields @
     [(''source'', ZLiteral ''GATE_COUNTER''), (''payload'', GateCounterPayloadSchema)])"

definition TicketScannerEventSchema :: zod where
  "TicketScannerEventSchema = ZStrictObject (baseSignalEventFields @
     [(''source'', ZLiteral ''TICKET_SCANNER''), (''payload'', TicketScanPayloadSchema)])"

definition TransitFeedEventSchema :: zod where
  "TransitFeedEventSchema = ZStrictObject (baseSignalEventFields @
     [(''source'', ZLiteral ''TRANSIT_FEED''), (''payload'', TransitArrivalPayloadSchema)])"

definition SignalEventPayloadSchema :: zod where
  "SignalEventPayloadSchema = ZDiscriminatedUnion ''source''
     [GateCounterEventSchema, TicketScannerEventSchema, TransitFeedEventSchema]"

section \<open>What the validation library promises\<close>

fun string_check :: "(string \<Rightarrow> bool) \<Rightarrow> zod_string_check \<Rightarrow> string \<Rightarrow> bool" where
  "string_check dt (MinLength n) s = (n \<le> length s)"
| "string_check dt Datetime s = dt s"

fun number_check :: "zod_number_check \<Rightarrow> jsnum \<Rightarrow> bool" where
  "number_check Nonnegative x = js_le (Fin 0) x"
| "number_check Positive x = js_lt (Fin 0) x"

fun literal_of :: "string \<Rightarrow> zod \<Rightarrow> string option" where
  "literal_of k (ZStrictObject shape) =
     (case map_of shape k of Some (ZLiteral s) \<Rightarrow> Some s | _ \<Rightarrow> None)"
| "literal_of k _ = None"

fun zod_accepts :: "(string \<Rightarrow> bool) \<Rightarrow> zod \<Rightarrow> json \<Rightarrow> bool" where
  "zod_accepts dt (ZString cs) j =
     (case j of JStr s \<Rightarrow> (\<forall>c \<in> set cs. string_check dt c s) | _ \<Rightarrow> False)"
| "zod_accepts dt (ZNumber cs) j =
     (case j of JNum x \<Rightarrow> x \<noteq> NaN \<and> is_double x \<and> (\<forall>c \<in> set cs. number_check c x) | _ \<Rightarrow> False)"
| "zod_accepts dt ZBoolean j = (case j of JBool b \<Rightarrow> True | _ \<Rightarrow> False)"
| "zod_accepts dt (ZLiteral s) j = (j = JStr s)"
| "zod_accepts dt (ZEnum ss) j = (case j of JStr s \<Rightarrow> s \<in> set ss | _ \<Rightarrow> False)"
| "zod_accepts dt (ZOptional s) j = (j = JUndef \<or> zod_accepts dt s j)"
| "zod_accepts dt (ZArray s) j = (case j of JArr xs \<Rightarrow> (\<forall>x \<in> set xs. zod_accepts dt s x) | _ \<Rightarrow> False)"
| "zod_accepts dt (ZStrictObject shape) j =
     (case j of JObj fs \<Rightarrow> (\<forall>f \<in> set fs. fst f \<in> fst ` set shape)
        \<and> list_all (\<lambda>ks. zod_accepts dt (snd ks) (field (fst ks) fs)) shape | _ \<Rightarrow> False)"
| "zod_accepts dt (ZUnion ss) j = list_ex (\<lambda>s. zod_accepts dt s j) ss"
| "zod_accepts dt (ZDiscriminatedUnion k ss) j =
     (case j of JObj fs \<Rightarrow> list_ex (\<lambda>s. (\<exists>l. literal_of k s = Some l \<and> field k fs = JStr l)
        \<and> zod_accepts dt s j) ss | _ \<Rightarrow> False)"

text \<open>An issue: the path to the offending value and a message. A path step is a key or an index.\<close>

datatype path_step = Key string | Index nat

record zod_issue =
  issue_path :: "path_step list"
  issue_message :: string

type_synonym safe_parse = "zod \<Rightarrow> json \<Rightarrow> zod_issue list + json"

definition zod_contract :: "(string \<Rightarrow> bool) \<Rightarrow> safe_parse \<Rightarrow> bool" where
  "zod_contract dt sp = (\<forall>j. case sp SignalEventPayloadSchema j of
      Inr v \<Rightarrow> zod_accepts dt SignalEventPayloadSchema j \<and> json_equiv v j
    | Inl issues \<Rightarrow> \<not> zod_accepts dt SignalEventPayloadSchema j \<and> issues \<noteq> [])"

text \<open>The contract can be met: a validator that returns its input, or one root issue.\<close>

definition reference_safe_parse :: "(string \<Rightarrow> bool) \<Rightarrow> safe_parse" where
  "reference_safe_parse dt s j =
     (if zod_accepts dt s j then Inr j else Inl [\<lparr>issue_path = [], issue_message = ''Invalid input''\<rparr>])"

lemma reference_meets_contract: "zod_contract dt (reference_safe_parse dt)"
  by (simp add: zod_contract_def reference_safe_parse_def)

lemma zod_contract_cases:
  assumes "zod_contract dt sp"
  shows "zod_accepts dt SignalEventPayloadSchema j \<Longrightarrow>
      \<exists>v. sp SignalEventPayloadSchema j = Inr v \<and> json_equiv v j"
    "\<not> zod_accepts dt SignalEventPayloadSchema j \<Longrightarrow>
      \<exists>i is. sp SignalEventPayloadSchema j = Inl (i # is)"
  using assms [unfolded zod_contract_def, rule_format, of j]
  by (auto split: sum.splits simp: neq_Nil_conv)

end
