(* ===== verification/JsSort.thy ===== *)
theory JsSort
  imports JsNumber
begin

text \<open>
  \<open>Array.prototype.sort\<close> with a comparator, and \<open>String.prototype.localeCompare\<close>.

  ECMAScript prescribes a stable sort; for a consistent comparator the result is therefore
  unique, and \<open>js_sort\<close> computes it by insertion. The locale \<open>js_comparator\<close> is the contract a
  comparator has to meet on the elements it is used on; its lemmas say that the result is a
  permutation, is ordered, keeps tied elements in their input order and starts with a least element.
  The locale \<open>collation\<close> is what the code relies on of \<open>localeCompare\<close>, whose order is that of
  the host's locale.
\<close>

section \<open>Sorting\<close>

text \<open>Comparator results below zero order the first argument first, results above zero the
  second one; \<open>NaN\<close> counts as zero.\<close>

definition cmp_gt :: "('a \<Rightarrow> 'a \<Rightarrow> jsnum) \<Rightarrow> 'a \<Rightarrow> 'a \<Rightarrow> bool" where
  "cmp_gt cmp x y = js_lt (Fin 0) (cmp x y)"

fun insert_cmp :: "('a \<Rightarrow> 'a \<Rightarrow> jsnum) \<Rightarrow> 'a \<Rightarrow> 'a list \<Rightarrow> 'a list" where
  "insert_cmp cmp x [] = [x]"
| "insert_cmp cmp x (y # ys) = (if cmp_gt cmp x y then y # insert_cmp cmp x ys else x # y # ys)"

fun js_sort :: "('a \<Rightarrow> 'a \<Rightarrow> jsnum) \<Rightarrow> 'a list \<Rightarrow> 'a list" where
  "js_sort cmp [] = []"
| "js_sort cmp (x # xs) = insert_cmp cmp x (js_sort cmp xs)"

lemma mset_insert_cmp [simp]: "mset (insert_cmp cmp x xs) = add_mset x (mset xs)"
  by (induction xs) auto

lemma mset_js_sort [simp]: "mset (js_sort cmp xs) = mset xs"
  by (induction xs) auto

lemma set_js_sort [simp]: "set (js_sort cmp xs) = set xs"
  by (metis mset_js_sort set_mset_mset)

lemma set_insert_cmp [simp]: "set (insert_cmp cmp x xs) = insert x (set xs)"
  by (induction xs) auto

lemma length_js_sort [simp]: "length (js_sort cmp xs) = length xs"
  by (metis mset_js_sort size_mset)

lemma distinct_js_sort [simp]: "distinct (js_sort cmp xs) = distinct xs"
  by (metis mset_js_sort mset_eq_imp_distinct_iff)

lemma js_sort_Nil_iff [simp]: "js_sort cmp xs = [] \<longleftrightarrow> xs = []"
  by (metis length_js_sort length_0_conv)

text \<open>\<open>cmp_le\<close>: the first argument may stand before the second.\<close>

definition cmp_le :: "('a \<Rightarrow> 'a \<Rightarrow> jsnum) \<Rightarrow> 'a \<Rightarrow> 'a \<Rightarrow> bool" where
  "cmp_le cmp x y = (\<not> cmp_gt cmp x y)"

locale js_comparator =
  fixes cmp :: "'a \<Rightarrow> 'a \<Rightarrow> jsnum" and elems :: "'a set"
  assumes gt_asym: "x \<in> elems \<Longrightarrow> y \<in> elems \<Longrightarrow> cmp_gt cmp x y \<Longrightarrow> \<not> cmp_gt cmp y x"
    and le_trans: "x \<in> elems \<Longrightarrow> y \<in> elems \<Longrightarrow> z \<in> elems \<Longrightarrow>
      cmp_le cmp x y \<Longrightarrow> cmp_le cmp y z \<Longrightarrow> cmp_le cmp x z"
begin

lemma le_total: "x \<in> elems \<Longrightarrow> y \<in> elems \<Longrightarrow> cmp_le cmp x y \<or> cmp_le cmp y x"
  using gt_asym by (auto simp: cmp_le_def)

lemma sorted_insert:
  assumes "set xs \<subseteq> elems" "x \<in> elems" "sorted_wrt (cmp_le cmp) xs"
  shows "sorted_wrt (cmp_le cmp) (insert_cmp cmp x xs)"
  using assms
proof (induction xs)
  case Nil
  then show ?case by simp
next
  case (Cons y ys)
  show ?case
  proof (cases "cmp_gt cmp x y")
    case True
    with Cons.prems have "cmp_le cmp y x" using gt_asym by (auto simp: cmp_le_def)
    with Cons True show ?thesis by auto
  next
    case False
    with Cons.prems have "cmp_le cmp x y" by (simp add: cmp_le_def)
    with Cons.prems False show ?thesis by (auto intro: le_trans)
  qed
qed

lemma sort_sorted: "set xs \<subseteq> elems \<Longrightarrow> sorted_wrt (cmp_le cmp) (js_sort cmp xs)"
  by (induction xs) (simp_all add: sorted_insert)

lemma sort_head_least:
  assumes "set xs \<subseteq> elems" "js_sort cmp xs = y # ys" "x \<in> set xs"
  shows "cmp_le cmp y x"
proof -
  have "sorted_wrt (cmp_le cmp) (y # ys)" using sort_sorted [OF assms(1)] assms(2) by simp
  moreover have "x \<in> set (y # ys)" using assms(2,3) by (metis set_js_sort)
  moreover have "cmp_le cmp y y" using assms(1,2) le_total [of y y]
    by (metis list.set_intros(1) set_js_sort subsetD)
  ultimately show ?thesis by auto
qed

text \<open>Stability: the elements tied with \<open>z\<close> keep their order.\<close>

lemma filter_insert_tied:
  assumes "set xs \<subseteq> elems" "x \<in> elems" "z \<in> elems"
  defines "tied \<equiv> \<lambda>y. cmp_le cmp y z \<and> cmp_le cmp z y"
  shows "filter tied (insert_cmp cmp x xs) = (if tied x then x # filter tied xs else filter tied xs)"
  using assms(1)
proof (induction xs)
  case Nil
  then show ?case by simp
next
  case (Cons y ys)
  have "\<not> tied y" if gt: "cmp_gt cmp x y" and t: "tied x"
  proof
    assume "tied y"
    with t have "cmp_le cmp x y"
      using le_trans [of x z y] Cons.prems assms(2,3) by (auto simp: tied_def)
    with gt show False by (simp add: cmp_le_def)
  qed
  with Cons show ?case by auto
qed

lemma sort_stable:
  assumes "set xs \<subseteq> elems" "z \<in> elems"
  defines "tied \<equiv> \<lambda>y. cmp_le cmp y z \<and> cmp_le cmp z y"
  shows "filter tied (js_sort cmp xs) = filter tied xs"
  using assms(1)
proof (induction xs)
  case Nil
  then show ?case by simp
next
  case (Cons x xs)
  then have "set (js_sort cmp xs) \<subseteq> elems" "x \<in> elems" by auto
  from filter_insert_tied [OF this assms(2)] Cons show ?case
    by (simp add: tied_def)
qed

end

section \<open>Comparing strings\<close>

text \<open>\<open>a.localeCompare(b)\<close> is a parameter \<open>lc\<close>: a consistent comparison of all strings.\<close>

locale collation =
  fixes lc :: "string \<Rightarrow> string \<Rightarrow> jsnum"
  assumes lc_antisym: "js_lt (Fin 0) (lc a b) \<Longrightarrow> \<not> js_lt (Fin 0) (lc b a)"
    and lc_trans: "\<not> js_lt (Fin 0) (lc a b) \<Longrightarrow> \<not> js_lt (Fin 0) (lc b c) \<Longrightarrow> \<not> js_lt (Fin 0) (lc a c)"

text \<open>The \<open><\<close> of strings compares code units; \<open>code_unit_compare\<close> is the comparator of that order.\<close>

definition str_lt :: "string \<Rightarrow> string \<Rightarrow> bool" where
  "str_lt a b = (a < b)"

definition code_unit_compare :: "string \<Rightarrow> string \<Rightarrow> jsnum" where
  "code_unit_compare a b = (if str_lt a b then Fin (- 1) else if str_lt b a then Fin 1 else Fin 0)"

lemma code_unit_compare_gt: "js_lt (Fin 0) (code_unit_compare a b) \<longleftrightarrow> b < a"
  by (auto simp: code_unit_compare_def str_lt_def)

interpretation code_units: collation code_unit_compare
  by unfold_locales (auto simp: code_unit_compare_gt)

end
