(* ===== verification/RiskLevels.thy ===== *)
theory RiskLevels
  imports Models JsSort
begin

text \<open>
  \<open>src/congestion-forecaster/risk-level.ts\<close> and \<open>risk-comparison.ts\<close>: the risk level of a score
  and the choice of an alternative gate of strictly lower risk. The lemmas show that the
  levels partition the scores as documented, that the level grows with the score, and that the
  chosen gate is a least one, in the comparator's order, among the gates below the origin.
\<close>

section \<open>The level of a score\<close>

definition deriveRiskLevel :: "jsnum \<Rightarrow> js_error + RiskLevel" where
  "deriveRiskLevel s =
     (if js_lt s (Fin 0) \<or> js_lt (Fin 100) s
      then Inl (RangeError (''Congestion_Score out of bounds: '' @ num_to_string s))
      else if js_le s (Fin 39) then Inr LOW
      else if js_le s (Fin 69) then Inr MODERATE
      else if js_le s (Fin 89) then Inr HIGH
      else Inr CRITICAL)"

text \<open>The level of a score in range, as a total function.\<close>

definition level_of :: "jsnum \<Rightarrow> RiskLevel" where
  "level_of s = (if js_le s (Fin 39) then LOW else if js_le s (Fin 69) then MODERATE
     else if js_le s (Fin 89) then HIGH else CRITICAL)"

definition score_in_range :: "jsnum \<Rightarrow> bool" where
  "score_in_range s = (js_le (Fin 0) s \<and> js_le s (Fin 100))"

lemma score_in_rangeE:
  assumes "score_in_range s"
  obtains q where "s = Fin q" "0 \<le> q" "q \<le> 100"
  using assms by (cases s) (auto simp: score_in_range_def)

lemma deriveRiskLevel_in_range: "score_in_range s \<Longrightarrow> deriveRiskLevel s = Inr (level_of s)"
  by (erule score_in_rangeE) (simp add: deriveRiskLevel_def level_of_def)

lemma level_of_mono:
  assumes "js_le a b" "score_in_range b"
  shows "level_of a \<le> level_of b"
  using assms by (cases a; cases b) (auto simp: level_of_def score_in_range_def less_eq_RiskLevel_def)

section \<open>Comparing gates\<close>

definition RISK_ORDER :: "RiskLevel \<Rightarrow> int" where
  "RISK_ORDER r = (case r of LOW \<Rightarrow> 0 | MODERATE \<Rightarrow> 1 | HIGH \<Rightarrow> 2 | CRITICAL \<Rightarrow> 3)"

definition riskOrderOf :: "RiskLevel \<Rightarrow> int" where
  "riskOrderOf r = RISK_ORDER r"

lemma riskOrderOf_less: "riskOrderOf a < riskOrderOf b \<longleftrightarrow> a < b"
  by (cases a; cases b) (simp_all add: riskOrderOf_def RISK_ORDER_def less_RiskLevel_def)

lemma riskOrderOf_le: "riskOrderOf a \<le> riskOrderOf b \<longleftrightarrow> a \<le> b"
  by (cases a; cases b) (simp_all add: riskOrderOf_def RISK_ORDER_def less_eq_RiskLevel_def)

lemma riskOrderOf_inj [simp]: "riskOrderOf a = riskOrderOf b \<longleftrightarrow> a = b"
  by (cases a; cases b) (simp_all add: riskOrderOf_def RISK_ORDER_def)

lemma riskOrderOf_range: "0 \<le> riskOrderOf r" "riskOrderOf r \<le> 3"
  by (cases r; simp add: riskOrderOf_def RISK_ORDER_def)+

definition currentRiskLevel :: "ForecastResult option \<Rightarrow> RiskLevel" where
  "currentRiskLevel f =
     coalesce (map_option riskLevel (Option.bind f (\<lambda>r. head_opt (scores r)))) LOW"

definition currentScore :: "ForecastResult option \<Rightarrow> jsnum" where
  "currentScore f =
     coalesce (map_option score (Option.bind f (\<lambda>r. head_opt (scores r)))) (Fin 0)"

lemma currentRiskLevel_None [simp]: "currentRiskLevel None = LOW"
  by (simp add: currentRiskLevel_def)

record Candidate =
  cand_gateId :: GateId
  cand_riskOrder :: int
  cand_score :: jsnum

definition candidate_of :: "GateId \<times> ForecastResult \<Rightarrow> Candidate" where
  "candidate_of gf = \<lparr>cand_gateId = fst gf,
     cand_riskOrder = riskOrderOf (currentRiskLevel (Some (snd gf))),
     cand_score = currentScore (Some (snd gf))\<rparr>"

definition alternative_candidates ::
  "GateId \<Rightarrow> RiskLevel \<Rightarrow> (GateId, ForecastResult) jsmap \<Rightarrow> Candidate list" where
  "alternative_candidates origin level forecasts =
     map candidate_of
       (filter (\<lambda>(g, f). g \<noteq> origin \<and> riskOrderOf (currentRiskLevel (Some f)) < riskOrderOf level)
          forecasts)"

definition candidate_compare ::
  "(string \<Rightarrow> string \<Rightarrow> jsnum) \<Rightarrow> Candidate \<Rightarrow> Candidate \<Rightarrow> jsnum" where
  "candidate_compare lc a b =
     (if cand_riskOrder a \<noteq> cand_riskOrder b then num_of_int (cand_riskOrder a - cand_riskOrder b)
      else if \<not> js_eq (cand_score a) (cand_score b) then js_sub (cand_score a) (cand_score b)
      else lc (cand_gateId a) (cand_gateId b))"

definition pickAlternativeGate ::
  "(string \<Rightarrow> string \<Rightarrow> jsnum) \<Rightarrow> GateId \<Rightarrow> RiskLevel \<Rightarrow> (GateId, ForecastResult) jsmap \<Rightarrow> GateId option" where
  "pickAlternativeGate lc origin level forecasts =
     map_option cand_gateId
       (head_opt (js_sort (candidate_compare lc) (alternative_candidates origin level forecasts)))"

text \<open>The comparator is consistent on candidates whose scores are numbers, for any collation.\<close>

definition good_candidate :: "Candidate \<Rightarrow> bool" where
  "good_candidate c = (cand_score c \<noteq> NaN \<and> is_double (cand_score c))"

lemma candidate_gt:
  assumes "good_candidate a" "good_candidate b"
  shows "cmp_gt (candidate_compare lc) a b \<longleftrightarrow>
    cand_riskOrder b < cand_riskOrder a \<or> (cand_riskOrder a = cand_riskOrder b \<and>
      (js_lt (cand_score b) (cand_score a) \<or> (cand_score a = cand_score b \<and>
        js_lt (Fin 0) (lc (cand_gateId a) (cand_gateId b)))))"
  using assms js_sub_sign [of "cand_score a" "cand_score b"]
  by (auto simp: cmp_gt_def candidate_compare_def js_eq_def good_candidate_def js_lt_iff)

lemma candidates_iff:
  "c \<in> set (alternative_candidates origin level forecasts) \<longleftrightarrow>
    (\<exists>g f. (g, f) \<in> set forecasts \<and> g \<noteq> origin \<and> currentRiskLevel (Some f) < level
       \<and> c = candidate_of (g, f))"
  by (auto simp: alternative_candidates_def riskOrderOf_less)

lemma pick_None_iff:
  "pickAlternativeGate lc origin level forecasts = None \<longleftrightarrow>
    (\<forall>(g, f) \<in> set forecasts. g \<noteq> origin \<longrightarrow> level \<le> currentRiskLevel (Some f))"
proof -
  have "pickAlternativeGate lc origin level forecasts = None \<longleftrightarrow>
    alternative_candidates origin level forecasts = []"
    by (simp add: pickAlternativeGate_def)
  also have "\<dots> \<longleftrightarrow> (\<forall>(g, f) \<in> set forecasts. g \<noteq> origin \<longrightarrow> level \<le> currentRiskLevel (Some f))"
    by (auto simp: alternative_candidates_def filter_empty_conv riskOrderOf_less not_less)
  finally show ?thesis .
qed

lemma pick_Some_head:
  assumes "pickAlternativeGate lc origin level forecasts = Some g"
  obtains f cs where "(g, f) \<in> set forecasts" "g \<noteq> origin" "currentRiskLevel (Some f) < level"
    "js_sort (candidate_compare lc) (alternative_candidates origin level forecasts) = candidate_of (g, f) # cs"
proof -
  from assms obtain c cs where c:
    "js_sort (candidate_compare lc) (alternative_candidates origin level forecasts) = c # cs" "cand_gateId c = g"
    by (auto simp: pickAlternativeGate_def head_opt_def split: list.splits)
  then have "c \<in> set (alternative_candidates origin level forecasts)"
    by (metis list.set_intros(1) set_js_sort)
  then show thesis using c that by (auto simp: candidates_iff candidate_of_def)
qed

lemma pick_lower_risk:
  assumes "pickAlternativeGate lc origin level forecasts = Some g" "distinct (map fst forecasts)"
  shows "g \<noteq> origin \<and> currentRiskLevel (map_of forecasts g) < level"
proof -
  obtain f where "(g, f) \<in> set forecasts" "g \<noteq> origin" "currentRiskLevel (Some f) < level"
    using pick_Some_head [OF assms(1)] by metis
  then show ?thesis using assms(2) by simp
qed

definition good_forecast :: "ForecastResult \<Rightarrow> bool" where
  "good_forecast f = (currentScore (Some f) \<noteq> NaN \<and> is_double (currentScore (Some f)))"

context collation
begin

lemma candidate_comparator: "js_comparator (candidate_compare lc) {c. good_candidate c}"
proof
  fix x y :: Candidate
  assume g: "x \<in> {c. good_candidate c}" "y \<in> {c. good_candidate c}"
    and "cmp_gt (candidate_compare lc) x y"
  then show "\<not> cmp_gt (candidate_compare lc) y x"
    using lc_antisym by (auto simp: candidate_gt js_lt_iff dest: js_le_antisym)
next
  fix x y z :: Candidate
  assume g: "x \<in> {c. good_candidate c}" "y \<in> {c. good_candidate c}" "z \<in> {c. good_candidate c}"
    and le: "cmp_le (candidate_compare lc) x y" "cmp_le (candidate_compare lc) y z"
  have n: "cand_score x \<noteq> NaN" "cand_score y \<noteq> NaN" "cand_score z \<noteq> NaN"
    using g by (auto simp: good_candidate_def)
  have L: "\<not> js_lt b a \<longleftrightarrow> js_le a b" if "a \<noteq> NaN" "b \<noteq> NaN" for a b
    using js_not_lt that by simp
  show "cmp_le (candidate_compare lc) x z"
    using le g n unfolding cmp_le_def
    by (auto simp: candidate_gt js_not_lt L dest: js_le_trans js_le_antisym lc_trans)
qed

lemma pick_least:
  assumes "pickAlternativeGate lc origin level forecasts = Some g" "distinct (map fst forecasts)"
    and "\<forall>f \<in> snd ` set forecasts. good_forecast f"
    and "(g', f') \<in> set forecasts" "g' \<noteq> origin" "currentRiskLevel (Some f') < level"
  shows "currentRiskLevel (map_of forecasts g) < currentRiskLevel (Some f') \<or>
    (currentRiskLevel (map_of forecasts g) = currentRiskLevel (Some f') \<and>
     js_le (currentScore (map_of forecasts g)) (currentScore (Some f')))"
proof -
  let ?cs = "alternative_candidates origin level forecasts"
  obtain f cs where f: "(g, f) \<in> set forecasts"
    and s: "js_sort (candidate_compare lc) ?cs = candidate_of (g, f) # cs"
    using pick_Some_head [OF assms(1)] by metis
  have m: "map_of forecasts g = Some f" using f assms(2) by simp
  have good: "set ?cs \<subseteq> {c. good_candidate c}"
    using assms(3) by (force simp: candidates_iff good_candidate_def candidate_of_def good_forecast_def)
  have "candidate_of (g', f') \<in> set ?cs" using assms(4-6) by (auto simp: candidates_iff)
  note le = js_comparator.sort_head_least [OF candidate_comparator good s this]
  have gd: "good_candidate (candidate_of (g, f))" "good_candidate (candidate_of (g', f'))"
    using f assms(3,4) by (force simp: good_candidate_def candidate_of_def good_forecast_def)+
  then have "currentScore (Some f) \<noteq> NaN" "currentScore (Some f') \<noteq> NaN"
    by (auto simp: good_candidate_def candidate_of_def)
  then show ?thesis
    using le gd unfolding cmp_le_def m
    by (auto simp: candidate_gt candidate_of_def riskOrderOf_less js_not_lt)
qed

end

section \<open>What the two modules promise\<close>

lemma derive_mono:
  assumes "deriveRiskLevel a = Inr la" "deriveRiskLevel b = Inr lb" "js_le a b"
  shows "la \<le> lb"
proof -
  have "score_in_range a \<Longrightarrow> la = level_of a" "score_in_range b \<Longrightarrow> lb = level_of b"
    using assms(1,2) by (simp_all add: deriveRiskLevel_in_range)
  moreover have "score_in_range a" "score_in_range b"
    using assms by (cases a; cases b; simp add: deriveRiskLevel_def score_in_range_def split: if_splits)+
  ultimately show ?thesis using level_of_mono [OF assms(3)] by simp
qed

text \<open>C31. On whole scores the levels are the documented ranges 0-39, 40-69, 70-89 and 90-100, and a
  whole score outside 0 to 100 is an exception; among all numbers a higher score never has a
  lower level. A score that is no number passes every guard and is \<open>CRITICAL\<close>.\<close>

theorem risk_level_ranges:
  "((\<exists>e. deriveRiskLevel (num_of_int n) = Inl (RangeError e)) \<longleftrightarrow> n < 0 \<or> 100 < n) \<and>
   (deriveRiskLevel (num_of_int n) = Inr LOW \<longleftrightarrow> n \<in> {0..39}) \<and>
   (deriveRiskLevel (num_of_int n) = Inr MODERATE \<longleftrightarrow> n \<in> {40..69}) \<and>
   (deriveRiskLevel (num_of_int n) = Inr HIGH \<longleftrightarrow> n \<in> {70..89}) \<and>
   (deriveRiskLevel (num_of_int n) = Inr CRITICAL \<longleftrightarrow> n \<in> {90..100}) \<and>
   (deriveRiskLevel a = Inr la \<and> deriveRiskLevel b = Inr lb \<and> js_le a b \<longrightarrow> la \<le> lb) \<and>
   deriveRiskLevel NaN = Inr CRITICAL"
proof -
  have "deriveRiskLevel a = Inr la \<and> deriveRiskLevel b = Inr lb \<and> js_le a b \<longrightarrow> la \<le> lb"
    using derive_mono by blast
  moreover have "deriveRiskLevel NaN = Inr CRITICAL"
    by (simp add: deriveRiskLevel_def)
  ultimately show ?thesis by (auto simp: deriveRiskLevel_def)
qed

lemma risk_level_ranges_witness:
  "LOW \<le> CRITICAL \<and> deriveRiskLevel (Fin 12) = Inr LOW \<and> deriveRiskLevel (Fin 95) = Inr CRITICAL"
  using risk_level_ranges [of 12 "Fin 12" LOW "Fin 95" CRITICAL] by (simp add: deriveRiskLevel_def)

text \<open>C23. The choice of an alternative gate: none is chosen exactly when every other gate with a
  forecast has at least the origin's level. A chosen gate has a forecast, is not the origin, has a strictly lower
  level, and no other gate below the origin has a lower level, or the same level and a lower
  current score.\<close>

theorem alternative_gate:
  assumes "collation lc" "distinct (map fst forecasts)" "\<forall>f \<in> snd ` set forecasts. good_forecast f"
  shows "case pickAlternativeGate lc origin level forecasts of
      None \<Rightarrow> \<forall>(g, f) \<in> set forecasts. g \<noteq> origin \<longrightarrow> level \<le> currentRiskLevel (Some f)
    | Some g \<Rightarrow> g \<in> fst ` set forecasts \<and> g \<noteq> origin \<and> currentRiskLevel (map_of forecasts g) < level \<and>
        (\<forall>(g', f') \<in> set forecasts. g' \<noteq> origin \<and> currentRiskLevel (Some f') < level \<longrightarrow>
          currentRiskLevel (map_of forecasts g) < currentRiskLevel (Some f') \<or>
          (currentRiskLevel (map_of forecasts g) = currentRiskLevel (Some f') \<and>
            js_le (currentScore (map_of forecasts g)) (currentScore (Some f'))))"
proof (cases "pickAlternativeGate lc origin level forecasts")
  case None
  then show ?thesis using pick_None_iff [of lc origin level forecasts] by simp
next
  case (Some g)
  have "g \<in> fst ` set forecasts"
    using pick_Some_head [OF Some] by (metis fst_conv imageI)
  then show ?thesis
    using pick_lower_risk [OF Some assms(2)] collation.pick_least [OF assms(1) Some assms(2,3)]
    by (simp add: Some split: prod.splits) blast
qed

definition point_of :: "string \<Rightarrow> int \<Rightarrow> RiskLevel \<Rightarrow> CongestionScorePoint" where
  "point_of g s l = \<lparr>point_gateId = g, forecastTime = toISOString 0, offsetMinutes = 0,
     score = num_of_int s, riskLevel = l, point_lowConfidence = False, outdated = False\<rparr>"

definition forecast_of :: "string \<Rightarrow> int \<Rightarrow> RiskLevel \<Rightarrow> ForecastResult" where
  "forecast_of g s l = \<lparr>scores = [point_of g s l], lowConfidence = False\<rparr>"

lemma forecast_of_simps [simp]:
  "currentRiskLevel (Some (forecast_of g s l)) = l" "currentScore (Some (forecast_of g s l)) = num_of_int s"
  by (simp_all add: forecast_of_def point_of_def currentRiskLevel_def currentScore_def)

lemma good_forecast_of [simp]: "0 \<le> s \<Longrightarrow> s \<le> 100 \<Longrightarrow> good_forecast (forecast_of g s l)"
  using is_double_of_int [of s] by (simp add: good_forecast_def)

definition three_gates :: "(GateId, ForecastResult) jsmap" where
  "three_gates = [(''a'', forecast_of ''a'' 92 CRITICAL), (''b'', forecast_of ''b'' 50 MODERATE),
     (''c'', forecast_of ''c'' 45 MODERATE)]"

lemma alternative_gate_witness:
  "\<exists>g. pickAlternativeGate code_unit_compare ''a'' CRITICAL three_gates = Some g \<and> g \<noteq> ''a'' \<and>
    currentRiskLevel (map_of three_gates g) < CRITICAL \<and>
    js_le (currentScore (map_of three_gates g)) (Fin 45)"
proof -
  have "pickAlternativeGate code_unit_compare ''a'' CRITICAL three_gates \<noteq> None"
    by (simp add: pick_None_iff three_gates_def less_eq_RiskLevel_def)
  then obtain g where g: "pickAlternativeGate code_unit_compare ''a'' CRITICAL three_gates = Some g"
    by blast
  have "distinct (map fst three_gates)" "\<forall>f \<in> snd ` set three_gates. good_forecast f"
    by (simp_all add: three_gates_def)
  from alternative_gate [OF code_units.collation_axioms this, of "''a''" CRITICAL] g
  show ?thesis by (auto simp: three_gates_def less_RiskLevel_def split: if_splits)
qed

end
