(* ===== verification/Forecast.thy ===== *)
theory Forecast
  imports RiskLevels
begin

text \<open>
  \<open>src/congestion-forecaster/forecast.ts\<close>: the pure forecast of a gate from its window of
  signal events. Every arithmetic step is one of doubles, in the order of the source. The
  lemmas carry the bounds, the growth along the horizon and the monotonicity in the incoming
  count through the rounding of each step.
\<close>

definition FORECAST_OFFSETS_MINUTES :: "int list" where
  "FORECAST_OFFSETS_MINUTES = [0, 5, 10, 15]"

text \<open>The literals \<open>1.05\<close>, \<open>1.1\<close> and \<open>1.15\<close> are the doubles nearest to these decimals.\<close>

definition OFFSET_GROWTH_FACTOR :: "(int, jsnum) jsmap" where
  "OFFSET_GROWTH_FACTOR = [(0, Fin 1), (5, rnd (105/100)), (10, rnd (11/10)), (15, rnd (115/100))]"

definition RECENT_WINDOW_MS :: int where
  "RECENT_WINDOW_MS = 10 * 60 * 1000"

definition clampScore :: "jsnum \<Rightarrow> jsnum" where
  "clampScore v = js_max (Fin 0) (js_min (Fin 100) v)"

text \<open>A payload of another shape than the source announces has no such field: the \<open>undefined\<close>
  read there makes \<open>Math.max\<close> return \<open>NaN\<close>.\<close>

definition incomingCountFor :: "SignalEvent \<Rightarrow> jsnum" where
  "incomingCountFor e =
     (case source e of
        GATE_COUNTER \<Rightarrow> (case payload e of GateCounterBody p \<Rightarrow> js_max (Fin 0) (gc_count p) | _ \<Rightarrow> NaN)
      | TICKET_SCANNER \<Rightarrow> Fin 1
      | TRANSIT_FEED \<Rightarrow> (case payload e of
            TransitArrivalBody p \<Rightarrow> js_max (Fin 0) (estimatedPassengerCount p) | _ \<Rightarrow> NaN))"

text \<open>An unparsable timestamp gives the age \<open>NaN\<close>, which no comparison accepts.\<close>

definition recent_event :: "int \<Rightarrow> SignalEvent \<Rightarrow> bool" where
  "recent_event now e =
     (if isStale e then False
      else case date_parse (timestamp e) of None \<Rightarrow> False | Some t \<Rightarrow> now - t \<le> RECENT_WINDOW_MS)"

definition nonStaleRecent :: "SignalEvent list \<Rightarrow> int \<Rightarrow> SignalEvent list" where
  "nonStaleRecent window now = filter (recent_event now) window"

definition totalIncomingCount :: "SignalEvent list \<Rightarrow> jsnum" where
  "totalIncomingCount es = foldl (\<lambda>sum e. js_add sum (incomingCountFor e)) (Fin 0) es"

definition baseScore :: "Gate \<Rightarrow> jsnum \<Rightarrow> jsnum" where
  "baseScore gate people =
     clampScore (js_mul (js_div people (js_max (Fin 1) (capacityThreshold gate))) (Fin 100))"

definition growth_factor :: "int \<Rightarrow> jsnum" where
  "growth_factor k = get_or OFFSET_GROWTH_FACTOR k (Fin 1)"

definition offset_score :: "jsnum \<Rightarrow> int \<Rightarrow> jsnum" where
  "offset_score base k = clampScore (js_round (js_mul base (growth_factor k)))"

definition forecast_point :: "Gate \<Rightarrow> jsnum \<Rightarrow> bool \<Rightarrow> int \<Rightarrow> int \<Rightarrow> js_error + CongestionScorePoint" where
  "forecast_point gate base low now k =
     (case deriveRiskLevel (offset_score base k) of Inl e \<Rightarrow> Inl e
      | Inr level \<Rightarrow> Inr \<lparr>point_gateId = gate_id gate,
          forecastTime = toISOString (now + k * 60 * 1000), offsetMinutes = k,
          score = offset_score base k, riskLevel = level, point_lowConfidence = low,
          outdated = False\<rparr>)"

definition computeForecast :: "Gate \<Rightarrow> SignalEvent list \<Rightarrow> int \<Rightarrow> js_error + ForecastResult" where
  "computeForecast gate window now =
     (let recent = nonStaleRecent window now;
          low = (recent = []);
          base = baseScore gate (totalIncomingCount recent)
      in case mapE (forecast_point gate base low now) FORECAST_OFFSETS_MINUTES of
           Inl e \<Rightarrow> Inl e
         | Inr ps \<Rightarrow> Inr \<lparr>scores = ps, lowConfidence = low\<rparr>)"

section \<open>Counts\<close>

text \<open>What ingestion guarantees of an event: the payload has the shape of its source and a count
  that is a JavaScript number other than \<open>NaN\<close>.\<close>

definition well_typed_event :: "SignalEvent \<Rightarrow> bool" where
  "well_typed_event e =
     (case source e of
        GATE_COUNTER \<Rightarrow> (case payload e of GateCounterBody p \<Rightarrow> gc_count p \<noteq> NaN \<and> is_double (gc_count p) | _ \<Rightarrow> False)
      | TICKET_SCANNER \<Rightarrow> (case payload e of TicketScanBody p \<Rightarrow> True | _ \<Rightarrow> False)
      | TRANSIT_FEED \<Rightarrow> (case payload e of
            TransitArrivalBody p \<Rightarrow> estimatedPassengerCount p \<noteq> NaN
              \<and> is_double (estimatedPassengerCount p) | _ \<Rightarrow> False))"

lemma js_max_zero_nonneg: "x \<noteq> NaN \<Longrightarrow> js_le (Fin 0) (js_max (Fin 0) x)"
  by (cases x) (auto simp: js_max_def)

lemma incomingCount_nonneg: "well_typed_event e \<Longrightarrow> js_le (Fin 0) (incomingCountFor e)"
  by (auto simp: well_typed_event_def incomingCountFor_def js_max_zero_nonneg
      split: SignalSource.splits SignalEventPayloadBody.splits)

lemma foldl_count_nonneg:
  "js_le (Fin 0) a \<Longrightarrow> \<forall>e \<in> set es. well_typed_event e \<Longrightarrow>
    js_le (Fin 0) (foldl (\<lambda>sum e. js_add sum (incomingCountFor e)) a es)"
  by (induction es arbitrary: a) (auto simp: js_add_nonneg incomingCount_nonneg)

lemma total_nonneg: "\<forall>e \<in> set es. well_typed_event e \<Longrightarrow> js_le (Fin 0) (totalIncomingCount es)"
  by (simp add: totalIncomingCount_def foldl_count_nonneg)

lemma js_add_increases:
  assumes "js_le (Fin 0) a" "is_double a" "js_le (Fin 0) b"
  shows "js_le a (js_add a b)"
proof -
  have "js_le (js_add a (Fin 0)) (js_add a b)"
    using assms by (intro js_add_mono) (auto dest: js_le_trans)
  moreover have "js_add a (Fin 0) = a" using assms by (cases a) (auto simp: is_double_def)
  ultimately show ?thesis by simp
qed

lemma total_append: "totalIncomingCount (es @ [e]) = js_add (totalIncomingCount es) (incomingCountFor e)"
  by (simp add: totalIncomingCount_def)

section \<open>Scores\<close>

lemma clampScore_range: "v \<noteq> NaN \<Longrightarrow> score_in_range (clampScore v)"
  by (cases v) (auto simp: clampScore_def js_max_def js_min_def score_in_range_def)

lemma clampScore_mono: "js_le a b \<Longrightarrow> js_le (clampScore a) (clampScore b)"
  by (simp add: clampScore_def js_max_mono js_min_mono)

text \<open>A capacity that is neither \<open>NaN\<close> nor infinite; the divisor is then at least one.\<close>

definition proper_capacity :: "Gate \<Rightarrow> bool" where
  "proper_capacity g = (\<exists>q. capacityThreshold g = Fin q)"

lemma capacity_divisor:
  assumes "proper_capacity g"
  shows "\<exists>c. js_max (Fin 1) (capacityThreshold g) = Fin c \<and> 1 \<le> c"
proof -
  obtain q where "capacityThreshold g = Fin q" using assms by (auto simp: proper_capacity_def)
  then show ?thesis by (cases "1 < q") (simp_all add: js_max_def)
qed

lemma baseScore_mono:
  assumes "proper_capacity g" "js_le s t"
  shows "js_le (baseScore g s) (baseScore g t)"
proof -
  obtain c where "js_max (Fin 1) (capacityThreshold g) = Fin c" "1 \<le> c"
    using capacity_divisor [OF assms(1)] by blast
  then show ?thesis
    using assms(2) by (simp add: baseScore_def clampScore_mono js_mul_mono js_div_mono)
qed

lemma baseScore_range:
  assumes "proper_capacity g" "t \<noteq> NaN"
  shows "score_in_range (baseScore g t)"
proof -
  obtain c where "js_max (Fin 1) (capacityThreshold g) = Fin c" "1 \<le> c"
    using capacity_divisor [OF assms(1)] by blast
  moreover have "js_le (js_mul (js_div t (Fin c)) (Fin 100)) (js_mul (js_div t (Fin c)) (Fin 100))"
    if "1 \<le> c" using that assms(2) by (intro js_mul_mono js_div_mono) simp_all
  ultimately show ?thesis by (simp add: baseScore_def clampScore_range)
qed

text \<open>The growth factors are finite doubles, at least one and increasing with the offset.\<close>

lemma growth_factor_values:
  "growth_factor 0 = Fin 1"
  "growth_factor 5 = Fin (4728779608739021 / 2 ^ 52)"
  "growth_factor 10 = Fin (4953959590107546 / 2 ^ 52)"
  "growth_factor 15 = Fin (5179139571476070 / 2 ^ 52)"
  using rnd_evalI [of "105/100" 52 4728779608739021] rnd_evalI [of "11/10" 52 4953959590107546]
    rnd_evalI [of "115/100" 52 5179139571476070]
  by (simp_all add: growth_factor_def OFFSET_GROWTH_FACTOR_def get_or_def)

definition horizon_offset :: "int \<Rightarrow> bool" where
  "horizon_offset k = (k \<in> set FORECAST_OFFSETS_MINUTES)"

lemma horizon_offset_cases: "horizon_offset k \<longleftrightarrow> k = 0 \<or> k = 5 \<or> k = 10 \<or> k = 15"
  by (simp add: horizon_offset_def FORECAST_OFFSETS_MINUTES_def)

definition growth_rat :: "int \<Rightarrow> rat" where
  "growth_rat k = (if k = 0 then 1 else if k = 5 then 4728779608739021 / 2 ^ 52
     else if k = 10 then 4953959590107546 / 2 ^ 52 else 5179139571476070 / 2 ^ 52)"

lemma growth_factor_rat: "horizon_offset k \<Longrightarrow> growth_factor k = Fin (growth_rat k)"
  unfolding horizon_offset_cases by (elim disjE) (simp_all add: growth_factor_values growth_rat_def)

lemma growth_rat_grows:
  "horizon_offset k \<Longrightarrow> horizon_offset k' \<Longrightarrow> k \<le> k' \<Longrightarrow> growth_rat k \<le> growth_rat k'"
  unfolding horizon_offset_cases by (elim disjE) (simp_all add: growth_rat_def)

lemma growth_rat_pos: "0 < growth_rat k"
  by (simp add: growth_rat_def)

lemma offset_score_mono:
  assumes "horizon_offset k" "js_le a b"
  shows "js_le (offset_score a k) (offset_score b k)"
  using assms
  by (simp add: offset_score_def growth_factor_rat growth_rat_pos clampScore_mono js_round_mono js_mul_mono)

lemma offset_score_grows:
  assumes "horizon_offset k" "horizon_offset k'" "k \<le> k'" "score_in_range b"
  shows "js_le (offset_score b k) (offset_score b k')"
proof -
  obtain q where q: "b = Fin q" "0 \<le> q" using assms(4) by (rule score_in_rangeE)
  have "js_le (rnd (q * growth_rat k)) (rnd (q * growth_rat k'))"
    using growth_rat_grows [OF assms(1-3)] q by (intro rnd_mono mult_left_mono)
  then show ?thesis
    using assms(1,2) by (simp add: offset_score_def growth_factor_rat q clampScore_mono js_round_mono)
qed

lemma offset_score_range:
  assumes "horizon_offset k" "score_in_range b"
  shows "score_in_range (offset_score b k)"
proof -
  obtain q where q: "b = Fin q" using assms(2) by (rule score_in_rangeE)
  have "js_round (rnd x) \<noteq> NaN" for x by (cases "rnd x") (use rnd_not_NaN [of x] in auto)
  then have "js_round (js_mul b (growth_factor k)) \<noteq> NaN"
    using assms(1) by (simp add: growth_factor_rat q)
  then show ?thesis by (simp add: offset_score_def clampScore_range)
qed

text \<open>An offset's score is a whole number.\<close>

lemma offset_score_integer:
  assumes "horizon_offset k" "score_in_range b"
  shows "\<exists>n. 0 \<le> n \<and> n \<le> 100 \<and> offset_score b k = num_of_int n"
proof -
  note f = growth_factor_rat [OF assms(1)]
  obtain q where q: "b = Fin q" using assms(2) by (rule score_in_rangeE)
  have "\<exists>n. offset_score b k = num_of_int n"
  proof (cases "rnd (q * growth_rat k)")
    case (Fin r)
    have "clampScore (num_of_int n) = num_of_int (max 0 (min 100 n))" for n
      by (auto simp: clampScore_def js_max_def js_min_def max_def min_def)
    with Fin show ?thesis by (metis f js_mul.simps(1) js_round.simps(1) offset_score_def q)
  next
    case PosInf
    then show ?thesis
      by (intro exI [of _ 100]) (simp add: offset_score_def f q clampScore_def js_max_def js_min_def)
  next
    case NegInf
    then show ?thesis
      by (intro exI [of _ 0]) (simp add: offset_score_def f q clampScore_def js_max_def js_min_def)
  qed simp
  then show ?thesis using offset_score_range [OF assms] by (auto simp: score_in_range_def)
qed

section \<open>The forecast\<close>

definition expected_point :: "Gate \<Rightarrow> jsnum \<Rightarrow> bool \<Rightarrow> int \<Rightarrow> int \<Rightarrow> CongestionScorePoint" where
  "expected_point gate base low now k = \<lparr>point_gateId = gate_id gate,
     forecastTime = toISOString (now + k * 60 * 1000), offsetMinutes = k,
     score = offset_score base k, riskLevel = level_of (offset_score base k),
     point_lowConfidence = low, outdated = False\<rparr>"

lemma forecast_point_eq:
  "horizon_offset k \<Longrightarrow> score_in_range base \<Longrightarrow>
    forecast_point gate base low now k = Inr (expected_point gate base low now k)"
  by (simp add: forecast_point_def deriveRiskLevel_in_range offset_score_range expected_point_def)

lemma well_typed_recent:
  "\<forall>e \<in> set window. well_typed_event e \<Longrightarrow> \<forall>e \<in> set (nonStaleRecent window now). well_typed_event e"
  by (simp add: nonStaleRecent_def)

lemma base_in_range:
  assumes "proper_capacity gate" "\<forall>e \<in> set window. well_typed_event e"
  shows "score_in_range (baseScore gate (totalIncomingCount window))"
proof -
  have "totalIncomingCount window \<noteq> NaN"
    using total_nonneg [OF assms(2)] by auto
  with assms(1) show ?thesis by (rule baseScore_range)
qed

lemma computeForecast_eq:
  assumes "proper_capacity gate" "\<forall>e \<in> set window. well_typed_event e"
  shows "computeForecast gate window now = Inr \<lparr>scores = map
      (expected_point gate (baseScore gate (totalIncomingCount (nonStaleRecent window now)))
        (nonStaleRecent window now = []) now) FORECAST_OFFSETS_MINUTES,
      lowConfidence = (nonStaleRecent window now = [])\<rparr>"
proof -
  let ?w = "nonStaleRecent window now"
  let ?base = "baseScore gate (totalIncomingCount ?w)"
  have "score_in_range ?base"
    using base_in_range [OF assms(1) well_typed_recent [OF assms(2)]] .
  then have "mapE (forecast_point gate ?base (?w = []) now) FORECAST_OFFSETS_MINUTES
    = Inr (map (expected_point gate ?base (?w = []) now) FORECAST_OFFSETS_MINUTES)"
    by (intro mapE_Inr forecast_point_eq) (simp_all add: horizon_offset_def)
  then show ?thesis by (simp add: computeForecast_def Let_def)
qed

lemma recent_event_age:
  "recent_event now e \<longleftrightarrow> \<not> isStale e \<and> (\<exists>t. date_parse (timestamp e) = Some t \<and> now - t \<le> 600000)"
  by (auto simp: recent_event_def RECENT_WINDOW_MS_def split: option.splits)

text \<open>C17. For every gate with a finite capacity and every window of well-typed events the
  forecast is computed without an exception and has one point for each of the offsets 0, 5, 10
  and 15 minutes. Each point names the gate and the time it predicts, its score is a whole
  number from 0 to 100 and its level is the one of its score; scores and levels never fall
  along the horizon.\<close>

theorem forecast_bounds:
  assumes "proper_capacity gate" "\<forall>e \<in> set window. well_typed_event e"
  shows "\<exists>r. computeForecast gate window now = Inr r \<and> map offsetMinutes (scores r) = [0, 5, 10, 15] \<and>
    (\<forall>p \<in> set (scores r). point_gateId p = gate_id gate \<and>
      forecastTime p = toISOString (now + offsetMinutes p * 60000) \<and>
      (\<exists>n. 0 \<le> n \<and> n \<le> 100 \<and> score p = num_of_int n) \<and> deriveRiskLevel (score p) = Inr (riskLevel p)) \<and>
    sorted_wrt (\<lambda>p q. js_le (score p) (score q) \<and> riskLevel p \<le> riskLevel q) (scores r)"
proof -
  let ?b = "baseScore gate (totalIncomingCount (nonStaleRecent window now))"
  have b: "score_in_range ?b"
    using base_in_range [OF assms(1) well_typed_recent [OF assms(2)]] .
  have h: "horizon_offset 0" "horizon_offset 5" "horizon_offset 10" "horizon_offset 15"
    by (simp_all add: horizon_offset_cases)
  note grows = offset_score_grows [OF _ _ _ b] and range = offset_score_range [OF _ b]
  show ?thesis
    unfolding computeForecast_eq [OF assms]
    using h by (simp add: FORECAST_OFFSETS_MINUTES_def expected_point_def deriveRiskLevel_in_range
        grows range offset_score_integer [OF _ b] level_of_mono)
qed

text \<open>Monotonicity: if the usable events of one window carry at most the incoming count of
  those of another, every score and every level of the first forecast is at most the one at
  the same offset of the second.\<close>

theorem forecast_monotone:
  assumes "proper_capacity gate" "\<forall>e \<in> set w1. well_typed_event e" "\<forall>e \<in> set w2. well_typed_event e"
    and "js_le (totalIncomingCount (nonStaleRecent w1 now)) (totalIncomingCount (nonStaleRecent w2 now))"
  shows "\<exists>r1 r2. computeForecast gate w1 now = Inr r1 \<and> computeForecast gate w2 now = Inr r2 \<and>
    list_all2 (\<lambda>p q. offsetMinutes p = offsetMinutes q \<and> js_le (score p) (score q) \<and> riskLevel p \<le> riskLevel q)
      (scores r1) (scores r2)"
proof -
  let ?b = "\<lambda>w. baseScore gate (totalIncomingCount (nonStaleRecent w now))"
  have b: "js_le (?b w1) (?b w2)" using assms(1,4) by (rule baseScore_mono)
  have r: "score_in_range (?b w2)"
    using base_in_range [OF assms(1) well_typed_recent [OF assms(3)]] .
  have "js_le (offset_score (?b w1) k) (offset_score (?b w2) k) \<and>
    level_of (offset_score (?b w1) k) \<le> level_of (offset_score (?b w2) k)" if "horizon_offset k" for k
    using offset_score_mono [OF that b] level_of_mono [OF _ offset_score_range [OF that r]] by blast
  then show ?thesis
    unfolding computeForecast_eq [OF assms(1,2)] computeForecast_eq [OF assms(1,3)]
    by (simp add: FORECAST_OFFSETS_MINUTES_def expected_point_def horizon_offset_cases)
qed

lemma incomingCount_double: "well_typed_event e \<Longrightarrow> is_double (incomingCountFor e)"
  using is_double_of_int [of 0] is_double_of_int [of 1]
  by (auto simp: well_typed_event_def incomingCountFor_def js_max_def
      split: SignalSource.splits SignalEventPayloadBody.splits)

lemma foldl_count_double: "is_double a \<Longrightarrow> \<forall>e \<in> set es. well_typed_event e \<Longrightarrow>
  is_double (foldl (\<lambda>sum e. js_add sum (incomingCountFor e)) a es)"
  by (induction es arbitrary: a) (auto simp: incomingCount_double)

lemma total_double: "\<forall>e \<in> set es. well_typed_event e \<Longrightarrow> is_double (totalIncomingCount es)"
  using is_double_of_int [of 0] by (simp add: totalIncomingCount_def foldl_count_double)

lemma total_append_mono:
  assumes "\<forall>e \<in> set (es @ [e]). well_typed_event e"
  shows "js_le (totalIncomingCount es) (totalIncomingCount (es @ [e]))"
  using assms by (simp add: total_append js_add_increases total_nonneg total_double incomingCount_nonneg)

text \<open>C18. Recording one more event never lowers a forecast: appending any well-typed event to the
  window, usable or not, leaves every score and every level at least as high.\<close>

theorem forecast_append_event:
  assumes "proper_capacity gate" "\<forall>e \<in> set (window @ [e]). well_typed_event e"
  shows "\<exists>r1 r2. computeForecast gate window now = Inr r1 \<and>
    computeForecast gate (window @ [e]) now = Inr r2 \<and>
    list_all2 (\<lambda>p q. offsetMinutes p = offsetMinutes q \<and> js_le (score p) (score q) \<and> riskLevel p \<le> riskLevel q)
      (scores r1) (scores r2)"
proof -
  let ?w = "nonStaleRecent window now"
  have w: "\<forall>e \<in> set window. well_typed_event e" "well_typed_event e" using assms(2) by simp_all
  have "js_le (totalIncomingCount ?w) (totalIncomingCount (?w @ [e]))"
    using w well_typed_recent [OF w(1)] by (intro total_append_mono) simp
  moreover have "js_le (totalIncomingCount ?w) (totalIncomingCount ?w)"
    using total_nonneg [OF well_typed_recent [OF w(1)], of now] js_le_NaN by auto
  ultimately have "js_le (totalIncomingCount ?w) (totalIncomingCount (nonStaleRecent (window @ [e]) now))"
    by (cases "recent_event now e") (simp_all add: nonStaleRecent_def)
  then show ?thesis
    unfolding computeForecast_eq [OF assms(1) w(1)] computeForecast_eq [OF assms]
    using baseScore_mono [OF assms(1)] base_in_range [OF assms(1) well_typed_recent [OF assms(2)], of now]
    by (simp add: FORECAST_OFFSETS_MINUTES_def expected_point_def horizon_offset_cases
        offset_score_mono offset_score_range level_of_mono)
qed

text \<open>Without usable events (an empty window, or only stale, old or undatable events) the
  forecast is the score 0 with level \<open>LOW\<close> at every offset, flagged low-confidence; with at
  least one usable event it is not flagged.\<close>

theorem forecast_without_usable_events:
  assumes "proper_capacity gate" "\<forall>e \<in> set window. well_typed_event e"
  shows "\<exists>r. computeForecast gate window now = Inr r \<and>
    (lowConfidence r \<longleftrightarrow> (\<forall>e \<in> set window. isStale e \<or>
       (\<forall>t. date_parse (timestamp e) = Some t \<longrightarrow> 600000 < now - t))) \<and>
    (\<forall>p \<in> set (scores r). point_lowConfidence p = lowConfidence r) \<and>
    (lowConfidence r \<longrightarrow> (\<forall>p \<in> set (scores r). score p = Fin 0 \<and> riskLevel p = LOW))"
proof -
  have e: "nonStaleRecent window now = [] \<longleftrightarrow> (\<forall>e \<in> set window. isStale e \<or>
       (\<forall>t. date_parse (timestamp e) = Some t \<longrightarrow> 600000 < now - t))"
    by (auto simp: nonStaleRecent_def filter_empty_conv recent_event_age not_le)
  obtain c where c: "js_max (Fin 1) (capacityThreshold gate) = Fin c" "1 \<le> c"
    using capacity_divisor [OF assms(1)] by blast
  then have "baseScore gate (totalIncomingCount []) = Fin 0"
    by (simp add: baseScore_def totalIncomingCount_def clampScore_def js_max_def js_min_def)
  moreover have "offset_score (Fin 0) k = Fin 0" if "horizon_offset k" for k
    using that by (simp add: offset_score_def growth_factor_rat clampScore_def js_max_def js_min_def)
  ultimately show ?thesis
    unfolding computeForecast_eq [OF assms] e [symmetric]
    by (auto simp: expected_point_def horizon_offset_def level_of_def)
qed

section \<open>A concrete forecast\<close>

text \<open>400 people counted at a gate with capacity 500 a second ago: the scores over the horizon are
  80, 84, 88 and 92.\<close>

definition demo_gate :: Gate where
  "demo_gate = \<lparr>gate_id = ''gate-a'', gate_name = ''Gate A'', capacityThreshold = Fin 500,
     assignedRouteIds = [''route-1'']\<rparr>"

definition demo_event :: SignalEvent where
  "demo_event = \<lparr>signalId = ''s1'', source = GATE_COUNTER, gateId = Some ''gate-a'', routeId = None,
     timestamp = toISOString 1000, receivedAt = toISOString 1500,
     payload = GateCounterBody \<lparr>gc_count = Fin 400, intervalSeconds = Fin 30\<rparr>,
     isStale = False, lateArrivalFlag = False\<rparr>"

lemma demo_hyps: "proper_capacity demo_gate" "well_typed_event demo_event"
  "date_parse (timestamp demo_event) = Some 1000"
  using is_double_of_int [of 400] date_parse_toISOString [of 1000]
  by (simp_all add: proper_capacity_def demo_gate_def well_typed_event_def demo_event_def valid_time_def)

lemma demo_scores: "map (offset_score (Fin 80)) [0, 5, 10, 15] = [Fin 80, Fin 84, Fin 88, Fin 92]"
proof -
  have "rnd (23643898043695105 / 281474976710656) = Fin 84"
    "rnd (12384898975268865 / 140737488355328) = Fin 88"
    "rnd (12947848928690175 / 140737488355328) = Fin 92"
    using rnd_eval [of "23643898043695105 / 281474976710656" 46 5910974510923776]
      rnd_eval [of "12384898975268865 / 140737488355328" 46 6192449487634432]
      rnd_eval [of "12947848928690175 / 140737488355328" 46 6473924464345088]
    by (simp_all add: round_half_even_def Let_def)
  moreover have "rnd 80 = Fin 80" using rnd_of_int [of 80] by simp
  ultimately show ?thesis
    by (simp add: offset_score_def growth_factor_values clampScore_def js_max_def js_min_def)
qed

lemma demo_base: "baseScore demo_gate (totalIncomingCount [demo_event]) = Fin 80"
proof -
  have "rnd (4 / 5) = Fin (7205759403792794 / 2 ^ 53)"
    using rnd_evalI [of "4 / 5" 53 7205759403792794] by simp
  moreover have "rnd (7205759403792794 / 2 ^ 53 * 100) = Fin (5629499534213120 / 2 ^ 46)"
    using rnd_evalI [of "7205759403792794 / 2 ^ 53 * 100" 46 5629499534213120] by simp
  moreover have "rnd 400 = Fin 400" using rnd_of_int [of 400] by simp
  ultimately show ?thesis
    by (simp add: baseScore_def totalIncomingCount_def incomingCountFor_def demo_event_def demo_gate_def
        js_max_def js_min_def clampScore_def)
qed

lemma demo_recent: "nonStaleRecent [demo_event] 2000 = [demo_event]"
proof -
  have "\<not> isStale demo_event" by (simp add: demo_event_def)
  then show ?thesis by (simp add: nonStaleRecent_def recent_event_age demo_hyps(3))
qed

lemma demo_forecast:
  "\<exists>r. computeForecast demo_gate [demo_event] 2000 = Inr r \<and> \<not> lowConfidence r \<and>
    map score (scores r) = [Fin 80, Fin 84, Fin 88, Fin 92] \<and>
    map riskLevel (scores r) = [HIGH, HIGH, HIGH, CRITICAL]"
  using demo_scores
  by (simp add: computeForecast_eq demo_hyps demo_recent demo_base FORECAST_OFFSETS_MINUTES_def
      expected_point_def level_of_def)

theorem forecast_bounds_witness:
  "\<exists>r. computeForecast demo_gate [demo_event] 2000 = Inr r \<and> map score (scores r) = [Fin 80, Fin 84, Fin 88, Fin 92]
    \<and> map offsetMinutes (scores r) = [0, 5, 10, 15]"
proof -
  have "\<forall>e \<in> set [demo_event]. well_typed_event e" by (simp add: demo_hyps)
  note b = forecast_bounds [OF demo_hyps(1) this, of 2000]
  obtain r where r: "computeForecast demo_gate [demo_event] 2000 = Inr r"
    "map score (scores r) = [Fin 80, Fin 84, Fin 88, Fin 92]"
    using demo_forecast by (elim exE conjE) (rule that)
  obtain r' where r': "computeForecast demo_gate [demo_event] 2000 = Inr r'"
    "map offsetMinutes (scores r') = [0, 5, 10, 15]"
    using b by (elim exE conjE) (rule that)
  from r(1) r'(1) have eq: "r' = r" by (simp only: sum.inject)
  show ?thesis by (rule exI [of _ r]) (intro conjI r r' [unfolded eq])
qed

lemma forecast_monotone_witness:
  "\<exists>r1 r2. computeForecast demo_gate [] 2000 = Inr r1 \<and> computeForecast demo_gate [demo_event] 2000 = Inr r2 \<and>
    list_all2 (\<lambda>p q. offsetMinutes p = offsetMinutes q \<and> js_le (score p) (score q) \<and> riskLevel p \<le> riskLevel q)
      (scores r1) (scores r2)"
proof (rule forecast_monotone)
  show "js_le (totalIncomingCount (nonStaleRecent [] 2000)) (totalIncomingCount (nonStaleRecent [demo_event] 2000))"
    using total_append_mono [of "[]" demo_event] by (simp add: demo_hyps demo_recent nonStaleRecent_def [of "[]"])
qed (simp_all add: demo_hyps)

lemma forecast_append_event_witness:
  "\<exists>r1 r2. computeForecast demo_gate [demo_event] 2000 = Inr r1 \<and>
    computeForecast demo_gate ([demo_event] @ [demo_event]) 2000 = Inr r2 \<and>
    list_all2 (\<lambda>p q. offsetMinutes p = offsetMinutes q \<and> js_le (score p) (score q) \<and> riskLevel p \<le> riskLevel q)
      (scores r1) (scores r2)"
  by (rule forecast_append_event) (simp_all add: demo_hyps)

text \<open>Eleven minutes after its report the event no longer counts.\<close>

lemma forecast_without_usable_events_witness:
  "\<exists>r. computeForecast demo_gate [demo_event] 661000 = Inr r \<and> lowConfidence r
    \<and> (\<forall>p \<in> set (scores r). score p = Fin 0 \<and> riskLevel p = LOW)"
  using forecast_without_usable_events [OF demo_hyps(1), of "[demo_event]" 661000]
  by (simp add: demo_hyps) blast

end
