(* ===== verification/Parser.thy ===== *)
theory Parser
  imports Schema Forecast
begin

text \<open>
  \<open>src/signal-ingestion/parser.ts\<close>: parsing an untrusted payload into a signal event and back.
  \<open>parseSignalEvent\<close> takes the validation library's \<open>safeParse\<close> as its first argument. The
  properties give the outcome on every payload and the two round trips.
\<close>

record ValidationError =
  ve_source :: "SignalSource option"
  ve_reason :: string
  ve_offendingField :: "string option"
  ve_rawPayload :: json

text \<open>\<open>"source" in payload\<close> fails on an array; \<open>None\<close> stands for \<open>UNKNOWN\<close>.\<close>

definition extractSource :: "json \<Rightarrow> SignalSource option" where
  "extractSource p =
     (case p of JObj fs \<Rightarrow>
        (let candidate = field ''source'' fs
         in if candidate = JStr ''GATE_COUNTER'' then Some GATE_COUNTER
            else if candidate = JStr ''TICKET_SCANNER'' then Some TICKET_SCANNER
            else if candidate = JStr ''TRANSIT_FEED'' then Some TRANSIT_FEED else None)
      | _ \<Rightarrow> None)"

fun step_string :: "path_step \<Rightarrow> string" where
  "step_string (Key k) = k"
| "step_string (Index n) = nat_to_string n"

definition path_string :: "zod_issue \<Rightarrow> string" where
  "path_string issue = join_with ''.'' (map step_string (issue_path issue))"

definition formatOffendingField :: "zod_issue \<Rightarrow> string option" where
  "formatOffendingField issue = (if issue_path issue = [] then None else Some (path_string issue))"

text \<open>Reading the typed fields of accepted data. On data of another shape, which the parser never
  reads, the readers return a default.\<close>

fun as_string :: "json \<Rightarrow> string" where
  "as_string (JStr s) = s"
| "as_string _ = []"

fun as_opt_string :: "json \<Rightarrow> string option" where
  "as_opt_string (JStr s) = Some s"
| "as_opt_string _ = None"

fun as_number :: "json \<Rightarrow> jsnum" where
  "as_number (JNum x) = x"
| "as_number _ = NaN"

fun as_bool :: "json \<Rightarrow> bool" where
  "as_bool (JBool b) = b"
| "as_bool _ = False"

fun as_opt_strings :: "json \<Rightarrow> string list option" where
  "as_opt_strings (JArr xs) = Some (map as_string xs)"
| "as_opt_strings _ = None"

definition as_source :: "json \<Rightarrow> SignalSource" where
  "as_source j = (if j = JStr ''GATE_COUNTER'' then GATE_COUNTER
     else if j = JStr ''TICKET_SCANNER'' then TICKET_SCANNER else TRANSIT_FEED)"

fun as_body :: "SignalSource \<Rightarrow> json \<Rightarrow> SignalEventPayloadBody" where
  "as_body GATE_COUNTER j = GateCounterBody
     \<lparr>gc_count = as_number (prop_of j ''count''), intervalSeconds = as_number (prop_of j ''intervalSeconds'')\<rparr>"
| "as_body TICKET_SCANNER j = TicketScanBody \<lparr>scan_fanId = as_string (prop_of j ''fanId'')\<rparr>"
| "as_body TRANSIT_FEED j = TransitArrivalBody
     \<lparr>estimatedPassengerCount = as_number (prop_of j ''estimatedPassengerCount''),
      destinationGateId = as_opt_string (prop_of j ''destinationGateId''),
      destinationRouteId = as_opt_string (prop_of j ''destinationRouteId''),
      transit_fanIds = as_opt_strings (prop_of j ''fanIds'')\<rparr>"

definition event_of_json :: "json \<Rightarrow> SignalEvent" where
  "event_of_json v = \<lparr>signalId = as_string (prop_of v ''signalId''),
     source = as_source (prop_of v ''source''),
     gateId = as_opt_string (prop_of v ''gateId''),
     routeId = as_opt_string (prop_of v ''routeId''),
     timestamp = as_string (prop_of v ''timestamp''),
     receivedAt = as_string (prop_of v ''receivedAt''),
     payload = as_body (as_source (prop_of v ''source'')) (prop_of v ''payload''),
     isStale = as_bool (prop_of v ''isStale''),
     lateArrivalFlag = as_bool (prop_of v ''lateArrivalFlag'')\<rparr>"

definition parseSignalEvent :: "safe_parse \<Rightarrow> json \<Rightarrow> ValidationError + SignalEvent" where
  "parseSignalEvent safeParse p =
     (case safeParse SignalEventPayloadSchema p of
        Inl issues \<Rightarrow>
          (let firstIssue = head_opt issues
           in Inl \<lparr>ve_source = extractSource p,
                ve_reason = (case firstIssue of
                    Some issue \<Rightarrow> (if path_string issue = [] then ''(root)'' else path_string issue)
                      @ '': '' @ issue_message issue
                  | None \<Rightarrow> ''Signal_Event payload failed schema validation''),
                ve_offendingField = Option.bind firstIssue formatOffendingField,
                ve_rawPayload = p\<rparr>)
      | Inr v \<Rightarrow> Inr (event_of_json v))"

fun opt_json :: "string option \<Rightarrow> json" where
  "opt_json None = JUndef"
| "opt_json (Some s) = JStr s"

fun body_json :: "SignalEventPayloadBody \<Rightarrow> json" where
  "body_json (GateCounterBody p) =
     JObj [(''count'', JNum (gc_count p)), (''intervalSeconds'', JNum (intervalSeconds p))]"
| "body_json (TicketScanBody p) = JObj [(''fanId'', JStr (scan_fanId p))]"
| "body_json (TransitArrivalBody p) =
     JObj [(''estimatedPassengerCount'', JNum (estimatedPassengerCount p)),
       (''destinationGateId'', opt_json (destinationGateId p)),
       (''destinationRouteId'', opt_json (destinationRouteId p)),
       (''fanIds'', case transit_fanIds p of None \<Rightarrow> JUndef | Some ids \<Rightarrow> JArr (map JStr ids))]"

definition serializeSignalEvent :: "SignalEvent \<Rightarrow> json" where
  "serializeSignalEvent e = JObj
     [(''signalId'', JStr (signalId e)), (''source'', JStr (source_string (source e))),
      (''gateId'', opt_json (gateId e)), (''routeId'', opt_json (routeId e)),
      (''timestamp'', JStr (timestamp e)), (''receivedAt'', JStr (receivedAt e)),
      (''payload'', body_json (payload e)), (''isStale'', JBool (isStale e)),
      (''lateArrivalFlag'', JBool (lateArrivalFlag e))]"

section \<open>The events the schema describes\<close>

fun body_ok :: "SignalSource \<Rightarrow> SignalEventPayloadBody \<Rightarrow> bool" where
  "body_ok GATE_COUNTER (GateCounterBody p) =
     (is_double (gc_count p) \<and> js_le (Fin 0) (gc_count p)
      \<and> is_double (intervalSeconds p) \<and> js_lt (Fin 0) (intervalSeconds p))"
| "body_ok TICKET_SCANNER (TicketScanBody p) = (scan_fanId p \<noteq> [])"
| "body_ok TRANSIT_FEED (TransitArrivalBody p) =
     (is_double (estimatedPassengerCount p) \<and> js_le (Fin 0) (estimatedPassengerCount p)
      \<and> destinationGateId p \<noteq> Some [] \<and> destinationRouteId p \<noteq> Some []
      \<and> (\<forall>ids. transit_fanIds p = Some ids \<longrightarrow> [] \<notin> set ids))"
| "body_ok _ _ = False"

definition event_ok :: "(string \<Rightarrow> bool) \<Rightarrow> SignalEvent \<Rightarrow> bool" where
  "event_ok dt e = (signalId e \<noteq> [] \<and> gateId e \<noteq> Some [] \<and> routeId e \<noteq> Some []
     \<and> dt (timestamp e) \<and> dt (receivedAt e) \<and> body_ok (source e) (payload e))"

lemma event_ok_well_typed: "event_ok dt e \<Longrightarrow> well_typed_event e"
  by (cases "source e"; cases "payload e") (auto simp: event_ok_def well_typed_event_def)

lemmas accepts_literal = zod_accepts.simps(4) and accepts_optional = zod_accepts.simps(6)
  and accepts_discriminated = zod_accepts.simps(10)

lemma accepts_string: "zod_accepts dt (ZString cs) j \<longleftrightarrow> (\<exists>s. j = JStr s \<and> (\<forall>c \<in> set cs. string_check dt c s))"
  by (cases j) auto

lemma accepts_number: "zod_accepts dt (ZNumber cs) j \<longleftrightarrow>
    (\<exists>x. j = JNum x \<and> x \<noteq> NaN \<and> is_double x \<and> (\<forall>c \<in> set cs. number_check c x))"
  by (cases j) auto

lemma accepts_boolean: "zod_accepts dt ZBoolean j \<longleftrightarrow> (\<exists>b. j = JBool b)"
  by (cases j) auto

lemma accepts_object: "zod_accepts dt (ZStrictObject shape) j \<longleftrightarrow>
    (\<exists>fs. j = JObj fs \<and> (\<forall>f \<in> set fs. fst f \<in> fst ` set shape)
      \<and> list_all (\<lambda>ks. zod_accepts dt (snd ks) (field (fst ks) fs)) shape)"
  by (cases j) auto

lemma accepts_string_array:
  "zod_accepts dt (ZArray (ZString cs)) j \<longleftrightarrow> (\<exists>ss. j = JArr (map JStr ss) \<and> (\<forall>s \<in> set ss. \<forall>c \<in> set cs. string_check dt c s))"
proof
  assume "zod_accepts dt (ZArray (ZString cs)) j"
  then obtain xs where x: "j = JArr xs" "\<forall>x \<in> set xs. \<exists>s. x = JStr s \<and> (\<forall>c \<in> set cs. string_check dt c s)"
    unfolding accepts_string [symmetric] by (cases j) auto
  then have "map JStr (map as_string xs) = xs"
    by (simp, intro map_idI) auto
  with x show "\<exists>ss. j = JArr (map JStr ss) \<and> (\<forall>s \<in> set ss. \<forall>c \<in> set cs. string_check dt c s)"
    by (intro exI [of _ "map as_string xs"]) force
qed auto

declare zod_accepts.simps [simp del]

text \<open>The event schema of a source, and what it asks of an object field by field.\<close>

fun payload_schema :: "SignalSource \<Rightarrow> zod" where
  "payload_schema GATE_COUNTER = GateCounterPayloadSchema"
| "payload_schema TICKET_SCANNER = TicketScanPayloadSchema"
| "payload_schema TRANSIT_FEED = TransitArrivalPayloadSchema"

declare One_nat_def [simp del]

abbreviation id_schema :: zod where
  "id_schema \<equiv> ZString [MinLength 1]"

definition event_keys :: "string set" where
  "event_keys = {''signalId'', ''gateId'', ''routeId'', ''timestamp'', ''receivedAt'', ''isStale'',
     ''lateArrivalFlag'', ''source'', ''payload''}"

definition event_schema :: "SignalSource \<Rightarrow> zod" where
  "event_schema s = ZStrictObject (baseSignalEventFields @
     [(''source'', ZLiteral (source_string s)), (''payload'', payload_schema s)])"

definition event_fields_ok :: "(string \<Rightarrow> bool) \<Rightarrow> SignalSource \<Rightarrow> (string \<times> json) list \<Rightarrow> bool" where
  "event_fields_ok dt s fs = (fst ` set fs \<subseteq> event_keys \<and>
     field ''source'' fs = JStr (source_string s) \<and>
     zod_accepts dt id_schema (field ''signalId'' fs) \<and>
     zod_accepts dt (ZOptional id_schema) (field ''gateId'' fs) \<and>
     zod_accepts dt (ZOptional id_schema) (field ''routeId'' fs) \<and>
     zod_accepts dt (ZString [Datetime]) (field ''timestamp'' fs) \<and>
     zod_accepts dt (ZString [Datetime]) (field ''receivedAt'' fs) \<and>
     zod_accepts dt ZBoolean (field ''isStale'' fs) \<and>
     zod_accepts dt ZBoolean (field ''lateArrivalFlag'' fs) \<and>
     zod_accepts dt (payload_schema s) (field ''payload'' fs))"

lemma accepts_event_schema:
  "zod_accepts dt (event_schema s) (JObj fs) \<longleftrightarrow> event_fields_ok dt s fs"
  unfolding event_schema_def event_fields_ok_def accepts_object baseSignalEventFields_def event_keys_def
  by (auto simp: accepts_literal)

lemma event_schema_simps:
  "GateCounterEventSchema = event_schema GATE_COUNTER"
  "TicketScannerEventSchema = event_schema TICKET_SCANNER"
  "TransitFeedEventSchema = event_schema TRANSIT_FEED"
  by (simp_all add: event_schema_def GateCounterEventSchema_def TicketScannerEventSchema_def
      TransitFeedEventSchema_def)

lemma literal_of_event: "literal_of ''source'' (event_schema s) = Some (source_string s)"
  by (simp add: event_schema_def baseSignalEventFields_def)

lemma accepts_event:
  "zod_accepts dt SignalEventPayloadSchema j \<longleftrightarrow> (\<exists>s fs. j = JObj fs \<and> event_fields_ok dt s fs)"
proof -
  have src: "event_fields_ok dt s fs \<Longrightarrow> field ''source'' fs = JStr (source_string s)" for s fs
    by (simp add: event_fields_ok_def)
  have all: "(\<exists>s. P s) \<longleftrightarrow> P GATE_COUNTER \<or> P TICKET_SCANNER \<or> P TRANSIT_FEED" for P
    by (metis SignalSource.exhaust)
  show ?thesis
  proof (cases j)
    case (JObj fs)
    then show ?thesis
      unfolding SignalEventPayloadSchema_def event_schema_simps accepts_discriminated
      using src [of _ fs]
      by (simp add: literal_of_event accepts_event_schema all del: source_string.simps) blast
  qed (simp_all add: SignalEventPayloadSchema_def accepts_discriminated)
qed

lemma accepts_id: "zod_accepts dt id_schema (JStr s) \<longleftrightarrow> s \<noteq> []"
  by (cases s) (simp_all add: accepts_string)

lemma one_le_length: "1 \<le> length s \<longleftrightarrow> s \<noteq> []"
  by (cases s) simp_all

lemma accepts_opt_id: "zod_accepts dt (ZOptional id_schema) (opt_json x) \<longleftrightarrow> x \<noteq> Some []"
  by (cases x) (simp_all add: accepts_id accepts_optional)

lemma accepts_id_list: "zod_accepts dt (ZArray id_schema) (JArr (map JStr ids)) \<longleftrightarrow> [] \<notin> set ids"
proof -
  have "1 \<le> length s \<longleftrightarrow> s \<noteq> []" for s :: string
    by (cases s) simp_all
  then show ?thesis
    by (auto simp: accepts_string_array inj_map_eq_map inj_def)
qed

lemma js_lt_imp_not_NaN: "js_lt a b \<Longrightarrow> b \<noteq> NaN"
  by (cases a; cases b) auto

lemma accepts_opt_id': "opt_json x = JUndef \<or> zod_accepts dt id_schema (opt_json x) \<longleftrightarrow> x \<noteq> Some []"
  using accepts_opt_id [of dt x] by (simp add: accepts_optional)

lemma accepts_body: "body_ok s b \<Longrightarrow> zod_accepts dt (payload_schema s) (body_json b)"
  by (cases s; cases b)
    (auto simp: accepts_object GateCounterPayloadSchema_def TicketScanPayloadSchema_def
      TransitArrivalPayloadSchema_def accepts_number js_lt_imp_not_NaN accepts_id accepts_opt_id'
      accepts_id_list accepts_optional split: option.splits simp del: One_nat_def)

lemma accepts_serialized:
  assumes "event_ok dt e"
  shows "zod_accepts dt SignalEventPayloadSchema (serializeSignalEvent e)"
  unfolding accepts_event serializeSignalEvent_def
  by (insert assms, rule_tac x = "source e" in exI, rule exI, rule conjI, rule refl)
    (simp add: event_fields_ok_def event_keys_def event_ok_def accepts_id accepts_opt_id
      accepts_string accepts_boolean accepts_body one_le_length)

section \<open>Reading what was accepted\<close>

lemma accepts_id_read: "zod_accepts dt id_schema j \<longleftrightarrow> (\<exists>s. j = JStr s \<and> s \<noteq> [])"
  by (cases j) (simp_all add: accepts_id, simp_all add: accepts_string)

lemma accepts_opt_id_read:
  "zod_accepts dt (ZOptional id_schema) j \<longleftrightarrow> (\<exists>x. j = opt_json x \<and> x \<noteq> Some [])"
  unfolding accepts_optional accepts_id_read by (metis opt_json.simps not_Some_eq option.inject)

lemma accepts_opt_ids_read:
  "zod_accepts dt (ZOptional (ZArray id_schema)) j \<longleftrightarrow>
    (\<exists>x. j = (case x of None \<Rightarrow> JUndef | Some ids \<Rightarrow> JArr (map JStr ids)) \<and> (\<forall>ids. x = Some ids \<longrightarrow> [] \<notin> set ids))"
proof -
  have "zod_accepts dt (ZArray id_schema) j \<longleftrightarrow> (\<exists>ids. j = JArr (map JStr ids) \<and> [] \<notin> set ids)"
    using accepts_id_list [of dt] accepts_string_array [of dt "[MinLength 1]" j] by metis
  then show ?thesis unfolding accepts_optional
    by (auto intro: exI [of _ "Some _"] exI [of _ None] split: option.splits)
qed

lemma as_opt_string_opt_json [simp]: "as_opt_string (opt_json x) = x"
  by (cases x) simp_all

lemma map_as_string [simp]: "map (as_string \<circ> JStr) ss = ss"
  by (simp add: comp_def)

lemma as_opt_strings_read [simp]:
  "as_opt_strings (case x of None \<Rightarrow> JUndef | Some ids \<Rightarrow> JArr (map JStr ids)) = x"
  by (cases x) simp_all

lemma as_source_string [simp]: "as_source (JStr (source_string s)) = s"
  by (cases s) (simp_all add: as_source_def)

lemma json_equiv_objI:
  assumes "fst ` set fs \<subseteq> K" "fst ` set gs \<subseteq> K" "\<forall>k \<in> K. json_equiv (field k fs) (field k gs)"
  shows "json_equiv (JObj fs) (JObj gs)"
  using assms by (auto simp: image_subset_iff)

text \<open>An accepted body is read as the body of its source, which is written as the same object.\<close>

lemma accepts_body_read:
  assumes "zod_accepts dt (payload_schema s) j"
  shows "body_ok s (as_body s j)" "json_equiv (body_json (as_body s j)) j"
proof -
  show "body_ok s (as_body s j)" using assms
    by (cases s) (auto simp: accepts_object GateCounterPayloadSchema_def TicketScanPayloadSchema_def
        TransitArrivalPayloadSchema_def accepts_number accepts_id_read accepts_opt_id_read
        accepts_opt_ids_read)
  show "json_equiv (body_json (as_body s j)) j"
  proof (cases s)
    case GATE_COUNTER
    with assms show ?thesis
      by (auto simp: accepts_object GateCounterPayloadSchema_def accepts_number
          simp del: json_equiv.simps(1) intro!: json_equiv_objI [where K = "{''count'', ''intervalSeconds''}"])
  next
    case TICKET_SCANNER
    with assms show ?thesis
      by (auto simp: accepts_object TicketScanPayloadSchema_def accepts_id_read
          simp del: json_equiv.simps(1) intro!: json_equiv_objI [where K = "{''fanId''}"])
  next
    case TRANSIT_FEED
    with assms show ?thesis
      by (auto simp: accepts_object TransitArrivalPayloadSchema_def accepts_number
          accepts_opt_id_read accepts_opt_ids_read simp del: json_equiv.simps(1)
          intro!: json_equiv_objI [where K = "{''estimatedPassengerCount'', ''destinationGateId'',
            ''destinationRouteId'', ''fanIds''}"])
  qed
qed

lemma accepts_event_read:
  assumes "zod_accepts dt SignalEventPayloadSchema j"
  shows "event_ok dt (event_of_json j)" "json_equiv (serializeSignalEvent (event_of_json j)) j"
proof -
  obtain s fs where j: "j = JObj fs" and ok: "event_fields_ok dt s fs"
    using assms by (auto simp: accepts_event)
  note ok' = ok [unfolded event_fields_ok_def accepts_id_read accepts_opt_id_read accepts_boolean
      accepts_string]
  note body = accepts_body_read [of dt s "field ''payload'' fs"]
  show "event_ok dt (event_of_json j)"
    using ok' body by (auto simp: j event_of_json_def event_ok_def)
  have "\<forall>k \<in> event_keys. json_equiv (field k [(''signalId'', field ''signalId'' fs), (''source'', field ''source'' fs),
      (''gateId'', field ''gateId'' fs), (''routeId'', field ''routeId'' fs),
      (''timestamp'', field ''timestamp'' fs), (''receivedAt'', field ''receivedAt'' fs),
      (''payload'', body_json (as_body s (field ''payload'' fs))), (''isStale'', field ''isStale'' fs),
      (''lateArrivalFlag'', field ''lateArrivalFlag'' fs)]) (field k fs)"
    using ok' body by (auto simp: event_keys_def)
  then show "json_equiv (serializeSignalEvent (event_of_json j)) j"
    unfolding j serializeSignalEvent_def using ok'
    by (intro json_equiv_objI [where K = event_keys])
      (auto simp: event_of_json_def event_keys_def simp del: json_equiv.simps(1))
qed

text \<open>Reading does not see the order of the keys.\<close>

lemma readers_equiv:
  assumes "json_equiv a b"
  shows "as_string a = as_string b" "as_opt_string a = as_opt_string b" "as_number a = as_number b"
    "as_bool a = as_bool b" "as_opt_strings a = as_opt_strings b" "as_source a = as_source b"
  using assms by (cases a; cases b; simp add: as_source_def)+

lemma as_body_equiv: "json_equiv a b \<Longrightarrow> as_body s a = as_body s b"
  by (cases s) (auto intro!: readers_equiv json_equiv_prop)

lemma event_of_json_equiv: "json_equiv a b \<Longrightarrow> event_of_json a = event_of_json b"
proof -
  assume e: "json_equiv a b"
  note r = readers_equiv [OF json_equiv_prop [OF e]] as_body_equiv [OF json_equiv_prop [OF e]]
  show ?thesis
    unfolding event_of_json_def
    by (simp only: r(1) [of "''signalId''"] r(6) [of "''source''"] r(2) [of "''gateId''"]
        r(2) [of "''routeId''"] r(1) [of "''timestamp''"] r(1) [of "''receivedAt''"]
        r(7) [of _ "''payload''"] r(4) [of "''isStale''"] r(4) [of "''lateArrivalFlag''"])
qed

lemma as_body_json: "body_ok s b \<Longrightarrow> as_body s (body_json b) = b"
  by (cases s; cases b) auto

lemma event_of_serialized: "event_ok dt e \<Longrightarrow> event_of_json (serializeSignalEvent e) = e"
  by (simp add: event_of_json_def serializeSignalEvent_def event_ok_def as_body_json)

declare One_nat_def [simp]

section \<open>What the parser does\<close>

text \<open>C19. On every payload the parser answers: it returns an event exactly when the payload
  conforms to the schema, and the event it returns satisfies the checks of its source; it returns a
  validation error exactly on the other payloads, and the error carries the payload, the source
  that could be read from it, and a reason.\<close>

theorem parse_outcome:
  assumes "zod_contract dt safeParse"
  shows "(case parseSignalEvent safeParse p of
      Inr e \<Rightarrow> zod_accepts dt SignalEventPayloadSchema p \<and> event_ok dt e
    | Inl err \<Rightarrow> \<not> zod_accepts dt SignalEventPayloadSchema p \<and> ve_rawPayload err = p
        \<and> ve_source err = extractSource p \<and> ve_reason err \<noteq> []
        \<and> (ve_offendingField err = None \<longrightarrow> take 8 (ve_reason err) = ''(root): ''))"
proof (cases "zod_accepts dt SignalEventPayloadSchema p")
  case True
  with zod_contract_cases(1) [OF assms] obtain v
    where v: "safeParse SignalEventPayloadSchema p = Inr v" "json_equiv v p"
    by blast
  with accepts_event_read(1) [OF True] True show ?thesis
    by (simp add: parseSignalEvent_def event_of_json_equiv)
next
  case False
  with zod_contract_cases(2) [OF assms] obtain i rest
    where "safeParse SignalEventPayloadSchema p = Inl (i # rest)"
    by blast
  with False show ?thesis
    by (simp add: parseSignalEvent_def formatOffendingField_def path_string_def)
qed

definition demo_bad_payload :: json where
  "demo_bad_payload = JObj [(''source'', JStr ''TICKET_SCANNER''), (''isStale'', JBool False)]"

lemma parse_outcome_witness:
  "\<exists>err. parseSignalEvent (reference_safe_parse (\<lambda>s. True)) demo_bad_payload = Inl err
    \<and> ve_source err = Some TICKET_SCANNER \<and> ve_rawPayload err = demo_bad_payload"
proof -
  have bad: "\<not> zod_accepts (\<lambda>s. True) SignalEventPayloadSchema demo_bad_payload"
    by (auto simp: demo_bad_payload_def accepts_event event_fields_ok_def accepts_string)
  have "extractSource demo_bad_payload = Some TICKET_SCANNER"
    by (simp add: demo_bad_payload_def extractSource_def)
  with bad parse_outcome [OF reference_meets_contract, of "\<lambda>s. True" demo_bad_payload]
  show ?thesis by (simp split: sum.splits)
qed

text \<open>C20. Round trip from the structured event: parsing what \<open>serializeSignalEvent\<close> writes for
  an event of the schema gives the same event.\<close>

theorem parse_serialize:
  assumes "zod_contract dt safeParse" "event_ok dt e"
  shows "parseSignalEvent safeParse (serializeSignalEvent e) = Inr e"
  using zod_contract_cases(1) [OF assms(1) accepts_serialized [OF assms(2)]]
  by (auto simp: parseSignalEvent_def event_of_json_equiv event_of_serialized [OF assms(2)])

lemma demo_doubles: "is_double (Fin 400)" "is_double (Fin 30)"
  using is_double_of_int [of 400] is_double_of_int [of 30] by simp_all

lemma demo_event_ok: "event_ok (\<lambda>s. True) demo_event"
  by (simp add: event_ok_def demo_event_def demo_doubles)

lemma parse_serialize_witness:
  "parseSignalEvent (reference_safe_parse (\<lambda>s. True)) (serializeSignalEvent demo_event) = Inr demo_event"
  by (rule parse_serialize [OF reference_meets_contract demo_event_ok])

text \<open>C21. Round trip from the wire: what \<open>serializeSignalEvent\<close> writes for a parsed payload is
  that payload, up to the order of its keys and keys that are \<open>undefined\<close>.\<close>

theorem serialize_parse:
  assumes "zod_contract dt safeParse" "parseSignalEvent safeParse p = Inr e"
  shows "json_equiv (serializeSignalEvent e) p"
proof (cases "zod_accepts dt SignalEventPayloadSchema p")
  case True
  with zod_contract_cases(1) [OF assms(1)] obtain v
    where v: "safeParse SignalEventPayloadSchema p = Inr v" "json_equiv v p"
    by blast
  with assms(2) have "e = event_of_json p"
    by (simp add: parseSignalEvent_def event_of_json_equiv)
  then show ?thesis using accepts_event_read(2) [OF True] by simp
next
  case False
  with zod_contract_cases(2) [OF assms(1), of p] assms(2) show ?thesis
    by (auto simp: parseSignalEvent_def)
qed

text \<open>The keys of a wire payload in another order.\<close>

definition demo_payload :: json where
  "demo_payload = (case serializeSignalEvent demo_event of JObj fs \<Rightarrow> JObj (rev fs) | j \<Rightarrow> j)"

lemma serialize_parse_witness:
  "\<exists>e. parseSignalEvent (reference_safe_parse (\<lambda>s. True)) demo_payload = Inr e
    \<and> json_equiv (serializeSignalEvent e) demo_payload \<and> serializeSignalEvent e \<noteq> demo_payload"
proof -
  let ?e = "event_of_json demo_payload"
  have e: "?e = demo_event"
    by (simp add: demo_payload_def serializeSignalEvent_def demo_event_def event_of_json_def as_source_def)
  have "zod_accepts (\<lambda>s. True) SignalEventPayloadSchema demo_payload"
    unfolding accepts_event demo_payload_def serializeSignalEvent_def demo_event_def
    by (rule exI [of _ GATE_COUNTER])
      (simp add: event_fields_ok_def event_keys_def accepts_string accepts_boolean accepts_optional
        accepts_object accepts_number GateCounterPayloadSchema_def demo_doubles ex_bool_eq)
  then have "parseSignalEvent (reference_safe_parse (\<lambda>s. True)) demo_payload = Inr demo_event"
    by (simp add: parseSignalEvent_def reference_safe_parse_def e)
  moreover have "serializeSignalEvent demo_event \<noteq> demo_payload"
    by (simp add: demo_payload_def serializeSignalEvent_def)
  ultimately show ?thesis using serialize_parse [OF reference_meets_contract] by blast
qed

end
