(* ===== verification/Timing.thy ===== *)
theory Timing
  imports Models
begin

text \<open>
  \<open>src/signal-ingestion/timing.ts\<close>: staleness and late arrival, two independent comparisons
  against thresholds. A timestamp that is no date has the time \<open>NaN\<close>, and a comparison
  with \<open>NaN\<close> is false.
\<close>

record TimingConfig =
  staleThresholdMs :: int
  lateArrivalThresholdMs :: int

definition DEFAULT_TIMING_CONFIG :: TimingConfig where
  "DEFAULT_TIMING_CONFIG = \<lparr>staleThresholdMs = 60000, lateArrivalThresholdMs = 30000\<rparr>"

record TimingClassification =
  tc_isStale :: bool
  tc_lateArrivalFlag :: bool

text \<open>\<open>a - b >= n\<close> for times that may be \<open>NaN\<close>.\<close>

fun diff_at_least :: "int option \<Rightarrow> int option \<Rightarrow> int \<Rightarrow> bool" where
  "diff_at_least (Some a) (Some b) n = (n \<le> a - b)"
| "diff_at_least _ _ n = False"

definition classifyTiming :: "string \<Rightarrow> string \<Rightarrow> int \<Rightarrow> TimingConfig \<Rightarrow> TimingClassification" where
  "classifyTiming ts ra now config =
     (let timestampMs = date_parse ts; receivedAtMs = date_parse ra; nowMs = Some now
      in \<lparr>tc_isStale = diff_at_least nowMs timestampMs (staleThresholdMs config),
          tc_lateArrivalFlag = diff_at_least receivedAtMs timestampMs (lateArrivalThresholdMs config)\<rparr>)"

lemma classifyTiming_iso:
  assumes "valid_time t" "valid_time r"
  shows "classifyTiming (toISOString t) (toISOString r) now config =
    \<lparr>tc_isStale = (staleThresholdMs config \<le> now - t),
     tc_lateArrivalFlag = (lateArrivalThresholdMs config \<le> r - t)\<rparr>"
  using assms by (simp add: classifyTiming_def date_parse_toISOString)

text \<open>With the default configuration an event reported at time \<open>t\<close> and received at time \<open>r\<close>
  is stale exactly when it is at least 60 seconds old, and late exactly when at least 30 seconds
  passed between report and receipt; neither flag depends on what the other compares.\<close>

theorem timing_thresholds:
  assumes "valid_time t" "valid_time r"
  shows "(tc_isStale (classifyTiming (toISOString t) (toISOString r) now DEFAULT_TIMING_CONFIG) \<longleftrightarrow> 60000 \<le> now - t) \<and>
    (tc_lateArrivalFlag (classifyTiming (toISOString t) (toISOString r) now DEFAULT_TIMING_CONFIG) \<longleftrightarrow> 30000 \<le> r - t)"
  by (simp add: classifyTiming_iso [OF assms] DEFAULT_TIMING_CONFIG_def)

theorem timing_thresholds_witness:
  "tc_isStale (classifyTiming (toISOString 0) (toISOString 30000) 59999 DEFAULT_TIMING_CONFIG) = False \<and>
   tc_lateArrivalFlag (classifyTiming (toISOString 0) (toISOString 30000) 59999 DEFAULT_TIMING_CONFIG) = True \<and>
   tc_isStale (classifyTiming (toISOString 0) (toISOString 30000) 60000 DEFAULT_TIMING_CONFIG) = True"
  using timing_thresholds [of 0 30000 59999] timing_thresholds [of 0 30000 60000]
  by (simp add: valid_time_def)

text \<open>The two flags are independent: under the default configuration each of the four
  combinations of staleness and late arrival is the classification of some event.\<close>

theorem timing_independent:
  "\<exists>ts ra now. classifyTiming ts ra now DEFAULT_TIMING_CONFIG = \<lparr>tc_isStale = a, tc_lateArrivalFlag = b\<rparr>"
proof -
  let ?r = "if b then 30000 else 0" and ?now = "if a then 60000 else 0"
  have "classifyTiming (toISOString 0) (toISOString ?r) ?now DEFAULT_TIMING_CONFIG
    = \<lparr>tc_isStale = a, tc_lateArrivalFlag = b\<rparr>"
    by (subst classifyTiming_iso) (auto simp: valid_time_def DEFAULT_TIMING_CONFIG_def)
  then show ?thesis by blast
qed

end
