(* ===== verification/RedisStore.thy ===== *)
theory RedisStore
  imports Models
begin

text \<open>
  The shared low-latency state: \<open>src/infra/redis-client.ts\<close> and the in-memory client of
  \<open>src/server.ts\<close> that stands in for it. \<open>expiring_store\<close> is the contract the other
  components rely on: a value put with a time to live is read back until it expires, other
  keys are not disturbed, and a read, which may drop an expired entry, does not change what is
  read later. It is interpreted on the in-memory client for each of its three expiring maps.
  The client of the production wrapper is not part of the repository, so the wrapper's methods
  take its \<open>get\<close> and \<open>set\<close> as arguments.
\<close>

section \<open>Keys\<close>

definition join_key :: "string \<Rightarrow> string \<Rightarrow> string" where
  "join_key a b = a @ '':'' @ b"

definition no_colon :: "string \<Rightarrow> bool" where
  "no_colon s = (CHR '':'' \<notin> set s)"

lemma append_Cons_inj: "c \<notin> set a \<Longrightarrow> c \<notin> set a' \<Longrightarrow> a @ c # b = a' @ c # b' \<longleftrightarrow> a = a' \<and> b = b'"
proof (induction a arbitrary: a')
  case Nil
  then show ?case by (cases a') auto
next
  case (Cons x xs)
  then show ?case by (cases a') auto
qed

lemma join_key_inj: "no_colon a \<Longrightarrow> no_colon a' \<Longrightarrow> join_key a b = join_key a' b' \<longleftrightarrow> a = a' \<and> b = b'"
  by (simp add: join_key_def no_colon_def append_Cons_inj)

lemma join_key_inj_last:
  assumes "no_colon b" "no_colon b'"
  shows "join_key a b = join_key a' b' \<longleftrightarrow> a = a' \<and> b = b'"
proof -
  have "join_key a b = join_key a' b' \<longleftrightarrow> join_key (rev b) (rev a) = join_key (rev b') (rev a')"
    using rev_is_rev_conv [of "join_key a b" "join_key a' b'"] by (simp add: join_key_def)
  also have "\<dots> \<longleftrightarrow> rev b = rev b' \<and> rev a = rev a'"
    using assms by (intro join_key_inj) (simp_all add: no_colon_def)
  finally show ?thesis by auto
qed

lemma no_colon_source [simp]: "no_colon (source_string s)"
  by (cases s) (simp_all add: no_colon_def)

section \<open>The contract of an expiring store\<close>

datatype ('k, 'v) store_op = Put 'k 'v int int | Get 'k int

text \<open>\<open>Put k v ttl now\<close> and \<open>Get k now\<close>: what it touches and when.\<close>

fun op_key :: "('k, 'v) store_op \<Rightarrow> 'k" where
  "op_key (Put k v ttl now) = k"
| "op_key (Get k now) = k"

fun op_time :: "('k, 'v) store_op \<Rightarrow> int" where
  "op_time (Put k v ttl now) = now"
| "op_time (Get k now) = now"

fun is_put :: "('k, 'v) store_op \<Rightarrow> bool" where
  "is_put (Put k v ttl now) = True"
| "is_put (Get k now) = False"

fun run_store :: "('k \<Rightarrow> 'v \<Rightarrow> int \<Rightarrow> int \<Rightarrow> 's \<Rightarrow> 's) \<Rightarrow> ('k \<Rightarrow> int \<Rightarrow> 's \<Rightarrow> 'w option \<times> 's)
    \<Rightarrow> ('k, 'v) store_op list \<Rightarrow> 's \<Rightarrow> 's" where
  "run_store put get [] s = s"
| "run_store put get (Put k v ttl now # ops) s = run_store put get ops (put k v ttl now s)"
| "run_store put get (Get k now # ops) s = run_store put get ops (snd (get k now s))"

definition leaves_key :: "('k \<Rightarrow> bool) \<Rightarrow> 'k \<Rightarrow> int \<Rightarrow> ('k, 'v) store_op list \<Rightarrow> bool" where
  "leaves_key ok k t ops = (\<forall>op \<in> set ops. ok (op_key op) \<and> op_time op \<le> t \<and> (is_put op \<longrightarrow> op_key op \<noteq> k))"

locale expiring_store =
  fixes ok :: "'k \<Rightarrow> bool"
    and view :: "'v \<Rightarrow> 'w"
    and put :: "'k \<Rightarrow> 'v \<Rightarrow> int \<Rightarrow> int \<Rightarrow> 's \<Rightarrow> 's"
    and get :: "'k \<Rightarrow> int \<Rightarrow> 's \<Rightarrow> 'w option \<times> 's"
  assumes get_put_same: "ok k \<Longrightarrow>
      fst (get k t (put k v ttl now s)) = (if t < now + ttl then Some (view v) else None)"
    and get_put_other: "ok k \<Longrightarrow> ok k' \<Longrightarrow> k \<noteq> k' \<Longrightarrow> fst (get k t (put k' v ttl now s)) = fst (get k t s)"
    and get_get: "ok k \<Longrightarrow> ok k' \<Longrightarrow> t' \<le> t \<Longrightarrow> fst (get k t (snd (get k' t' s))) = fst (get k t s)"
begin

text \<open>Reads at earlier times and writes to other keys leave what is read at a key.\<close>

lemma run_frame:
  assumes "ok k" "leaves_key ok k t ops"
  shows "fst (get k t (run_store put get ops s)) = fst (get k t s)"
  using assms(2)
proof (induction ops arbitrary: s)
  case Nil
  then show ?case by simp
next
  case (Cons op ops)
  then have "leaves_key ok k t ops" and op: "ok (op_key op)" "op_time op \<le> t" "is_put op \<Longrightarrow> op_key op \<noteq> k"
    by (auto simp: leaves_key_def)
  note IH = Cons.IH [OF this(1)]
  show ?case
    using op assms(1) by (cases op) (auto simp: IH get_put_other get_get)
qed

text \<open>A value is read until it expires, whatever happens to other keys in between.\<close>

lemma run_live:
  assumes "ok k" "leaves_key ok k t ops"
  shows "fst (get k t (run_store put get ops (put k v ttl now s))) =
    (if t < now + ttl then Some (view v) else None)"
  by (simp add: run_frame [OF assms] get_put_same [OF assms(1)])

end

section \<open>The in-memory client\<close>

record ExpiringEntry =
  entry_value :: string
  entry_expiresAt :: int

type_synonym expiring_map = "(string, ExpiringEntry) jsmap"

text \<open>The cached score is kept as JSON text; reading it back gives the point that was stored (its
  score is a finite number), so the model keeps the point.\<close>

record RedisState =
  cooldownStore :: expiring_map
  degradedSourceStore :: expiring_map
  lastKnownScoreStore :: "(GateId, CongestionScorePoint) jsmap"
  rejectionStore :: expiring_map

definition empty_redis :: RedisState where
  "empty_redis = \<lparr>cooldownStore = [], degradedSourceStore = [], lastKnownScoreStore = [], rejectionStore = []\<rparr>"

definition getIfNotExpired :: "string \<Rightarrow> int \<Rightarrow> expiring_map \<Rightarrow> string option \<times> expiring_map" where
  "getIfNotExpired key now store =
     (case map_of store key of
        None \<Rightarrow> (None, store)
      | Some entry \<Rightarrow>
          if entry_expiresAt entry \<le> now then (None, AList.delete key store)
          else (Some (entry_value entry), store))"

definition setExpiring :: "string \<Rightarrow> string \<Rightarrow> int \<Rightarrow> int \<Rightarrow> expiring_map \<Rightarrow> expiring_map" where
  "setExpiring key value ttl now store =
     AList.update key \<lparr>entry_value = value, entry_expiresAt = now + ttl\<rparr> store"

lemma getIfNotExpired_value:
  "fst (getIfNotExpired k t s) = (case map_of s k of None \<Rightarrow> None
     | Some e \<Rightarrow> if entry_expiresAt e \<le> t then None else Some (entry_value e))"
  by (simp add: getIfNotExpired_def split: option.splits)

lemma getIfNotExpired_store:
  "map_of (snd (getIfNotExpired k t s)) k' = (case map_of s k' of None \<Rightarrow> None
     | Some e \<Rightarrow> if k' = k \<and> entry_expiresAt e \<le> t then None else Some e)"
  by (auto simp: getIfNotExpired_def store_simps split: option.splits)

interpretation mock_map: expiring_store "\<lambda>k. True" id setExpiring getIfNotExpired
  by unfold_locales
    (auto simp: getIfNotExpired_value getIfNotExpired_store setExpiring_def store_simps
      split: option.splits)

definition getLastNudgeAt :: "FanId \<Rightarrow> GateId \<Rightarrow> int \<Rightarrow> RedisState \<Rightarrow> int option option \<times> RedisState" where
  "getLastNudgeAt fanId gate now r =
     (let (value, store) = getIfNotExpired (join_key fanId gate) now (cooldownStore r)
      in (if truthy_str value then map_option date_parse value else None, r\<lparr>cooldownStore := store\<rparr>))"

definition setLastNudgeAt :: "FanId \<Rightarrow> GateId \<Rightarrow> int \<Rightarrow> int \<Rightarrow> int \<Rightarrow> RedisState \<Rightarrow> RedisState" where
  "setLastNudgeAt fanId gate generatedAt cooldownPeriodMs now r =
     r\<lparr>cooldownStore := setExpiring (join_key fanId gate) (toISOString generatedAt) cooldownPeriodMs now
         (cooldownStore r)\<rparr>"

definition touchSource :: "string \<Rightarrow> string \<Rightarrow> int \<Rightarrow> int \<Rightarrow> RedisState \<Rightarrow> RedisState" where
  "touchSource sourceType gateOrRouteId timeoutMs now r =
     r\<lparr>degradedSourceStore := setExpiring (join_key sourceType gateOrRouteId) ''1'' timeoutMs now
         (degradedSourceStore r)\<rparr>"

definition isSourceDegraded :: "string \<Rightarrow> string \<Rightarrow> int \<Rightarrow> RedisState \<Rightarrow> bool \<times> RedisState" where
  "isSourceDegraded sourceType gateOrRouteId now r =
     (let (value, store) = getIfNotExpired (join_key sourceType gateOrRouteId) now (degradedSourceStore r)
      in (value = None, r\<lparr>degradedSourceStore := store\<rparr>))"

definition getLastKnownScore :: "GateId \<Rightarrow> RedisState \<Rightarrow> CongestionScorePoint option" where
  "getLastKnownScore gate r = map_of (lastKnownScoreStore r) gate"

definition setLastKnownScore :: "GateId \<Rightarrow> CongestionScorePoint \<Rightarrow> RedisState \<Rightarrow> RedisState" where
  "setLastKnownScore gate point r = r\<lparr>lastKnownScoreStore := AList.update gate point (lastKnownScoreStore r)\<rparr>"

definition recordRejection :: "RouteId \<Rightarrow> GateId \<Rightarrow> int \<Rightarrow> int \<Rightarrow> RedisState \<Rightarrow> RedisState" where
  "recordRejection route alternativeGate suppressionMs now r =
     r\<lparr>rejectionStore := setExpiring (join_key route alternativeGate) ''1'' suppressionMs now (rejectionStore r)\<rparr>"

definition isRejectionSuppressed :: "RouteId \<Rightarrow> GateId \<Rightarrow> int \<Rightarrow> RedisState \<Rightarrow> bool \<times> RedisState" where
  "isRejectionSuppressed route alternativeGate now r =
     (let (value, store) = getIfNotExpired (join_key route alternativeGate) now (rejectionStore r)
      in (value \<noteq> None, r\<lparr>rejectionStore := store\<rparr>))"

section \<open>The in-memory client keeps the contract\<close>

text \<open>The three pairs of operations in the shape of the contract. Cooldowns and rejections are
  keyed by two free strings joined with a colon, so the contract needs one of them, the gate and
  the route, to have none; a source type never has one.\<close>

definition put_cooldown :: "FanId \<times> GateId \<Rightarrow> int \<Rightarrow> int \<Rightarrow> int \<Rightarrow> RedisState \<Rightarrow> RedisState" where
  "put_cooldown k = setLastNudgeAt (fst k) (snd k)"

definition get_cooldown :: "FanId \<times> GateId \<Rightarrow> int \<Rightarrow> RedisState \<Rightarrow> int option option \<times> RedisState" where
  "get_cooldown k = getLastNudgeAt (fst k) (snd k)"

definition put_source :: "SignalSource \<times> string \<Rightarrow> unit \<Rightarrow> int \<Rightarrow> int \<Rightarrow> RedisState \<Rightarrow> RedisState" where
  "put_source k v ttl now r = touchSource (source_string (fst k)) (snd k) ttl now r"

definition get_source :: "SignalSource \<times> string \<Rightarrow> int \<Rightarrow> RedisState \<Rightarrow> unit option \<times> RedisState" where
  "get_source k now r = (let (degraded, r') = isSourceDegraded (source_string (fst k)) (snd k) now r
     in (if degraded then None else Some (), r'))"

definition put_rejection :: "RouteId \<times> GateId \<Rightarrow> unit \<Rightarrow> int \<Rightarrow> int \<Rightarrow> RedisState \<Rightarrow> RedisState" where
  "put_rejection k v ttl now r = recordRejection (fst k) (snd k) ttl now r"

definition get_rejection :: "RouteId \<times> GateId \<Rightarrow> int \<Rightarrow> RedisState \<Rightarrow> unit option \<times> RedisState" where
  "get_rejection k now r = (let (suppressed, r') = isRejectionSuppressed (fst k) (snd k) now r
     in (if suppressed then Some () else None, r'))"

lemmas redis_defs = put_cooldown_def get_cooldown_def put_source_def get_source_def put_rejection_def
  get_rejection_def setLastNudgeAt_def getLastNudgeAt_def touchSource_def isSourceDegraded_def
  recordRejection_def isRejectionSuppressed_def

lemmas map_laws = mock_map.get_put_same [simplified] mock_map.get_put_other [simplified]
  mock_map.get_get [simplified]


interpretation cooldowns: expiring_store "\<lambda>k. no_colon (snd k)" "\<lambda>t. date_parse (toISOString t)"
  put_cooldown get_cooldown
  by unfold_locales
    (auto simp: redis_defs case_prod_beta Let_def map_laws join_key_inj_last toISOString_not_empty prod_eq_iff)

interpretation sources: expiring_store "\<lambda>k. True" id put_source get_source
  by unfold_locales
    (auto simp: redis_defs case_prod_beta Let_def map_laws join_key_inj prod_eq_iff)

interpretation rejections: expiring_store "\<lambda>k. no_colon (fst k)" id put_rejection get_rejection
  by unfold_locales
    (auto simp: redis_defs case_prod_beta Let_def map_laws join_key_inj prod_eq_iff)

end
