(* ===== verification/DegradedSource.thy ===== *)
theory DegradedSource
  imports RedisStore
begin

text \<open>
  \<open>src/signal-ingestion/degraded-source.ts\<close> and \<open>status.ts\<close>: the liveness timer of a source.
  The main lemma holds for any interleaving of touches and checks of all sources: a source is
  degraded exactly when its last touch is at least its timeout ago.
\<close>

definition SOURCE_TIMEOUT_MS :: "SignalSource \<Rightarrow> int" where
  "SOURCE_TIMEOUT_MS s = (case s of GATE_COUNTER \<Rightarrow> 45000 | TICKET_SCANNER \<Rightarrow> 45000 | TRANSIT_FEED \<Rightarrow> 90000)"

definition markActive :: "SignalSource \<Rightarrow> string \<Rightarrow> int \<Rightarrow> RedisState \<Rightarrow> RedisState" where
  "markActive sourceType gateOrRouteId now r =
     (let timeoutMs = SOURCE_TIMEOUT_MS sourceType
      in touchSource (source_string sourceType) gateOrRouteId timeoutMs now r)"

definition isDegraded :: "SignalSource \<Rightarrow> string \<Rightarrow> int \<Rightarrow> RedisState \<Rightarrow> bool \<times> RedisState" where
  "isDegraded sourceType gateOrRouteId now r = isSourceDegraded (source_string sourceType) gateOrRouteId now r"

record SourceStatus =
  sourceType :: SignalSource
  is_degraded :: bool

definition ALL_SOURCE_TYPES :: "SignalSource list" where
  "ALL_SOURCE_TYPES = [GATE_COUNTER, TICKET_SCANNER, TRANSIT_FEED]"

text \<open>The checks of the three sources run in the order of the list, at one reading of the clock.\<close>

fun statuses_of :: "SignalSource list \<Rightarrow> string \<Rightarrow> int \<Rightarrow> RedisState \<Rightarrow> SourceStatus list \<times> RedisState" where
  "statuses_of [] i now r = ([], r)"
| "statuses_of (s # ss) i now r =
     (let (degraded, r1) = isDegraded s i now r; (rest, r2) = statuses_of ss i now r1
      in (\<lparr>sourceType = s, is_degraded = degraded\<rparr> # rest, r2))"

definition getStatus :: "string \<Rightarrow> int \<Rightarrow> RedisState \<Rightarrow> SourceStatus list \<times> RedisState" where
  "getStatus gateOrRouteId now r = statuses_of ALL_SOURCE_TYPES gateOrRouteId now r"

definition allSourcesDegraded :: "string \<Rightarrow> int \<Rightarrow> RedisState \<Rightarrow> bool \<times> RedisState" where
  "allSourcesDegraded gateOrRouteId now r =
     (let (statuses, r') = getStatus gateOrRouteId now r in (list_all is_degraded statuses, r'))"

section \<open>Liveness\<close>

text \<open>\<open>Touch s i now\<close> and \<open>Check s i now\<close>: what clients do with the tracker.\<close>

datatype tracker_op = Touch SignalSource string int | Check SignalSource string int

fun tracker_step :: "tracker_op \<Rightarrow> RedisState \<Rightarrow> RedisState" where
  "tracker_step (Touch s i now) r = markActive s i now r"
| "tracker_step (Check s i now) r = snd (isDegraded s i now r)"

definition run_tracker :: "tracker_op list \<Rightarrow> RedisState \<Rightarrow> RedisState" where
  "run_tracker ops r = fold tracker_step ops r"

fun store_op_of :: "tracker_op \<Rightarrow> (SignalSource \<times> string, unit) store_op" where
  "store_op_of (Touch s i now) = Put (s, i) () (SOURCE_TIMEOUT_MS s) now"
| "store_op_of (Check s i now) = Get (s, i) now"

fun tracker_time :: "tracker_op \<Rightarrow> int" where
  "tracker_time (Touch s i now) = now"
| "tracker_time (Check s i now) = now"

fun touches :: "SignalSource \<Rightarrow> string \<Rightarrow> tracker_op \<Rightarrow> bool" where
  "touches s i (Touch s' i' now) = (s' = s \<and> i' = i)"
| "touches s i (Check s' i' now) = False"

lemma run_tracker_store: "run_tracker ops r = run_store put_source get_source (map store_op_of ops) r"
proof (induction ops arbitrary: r)
  case Nil
  then show ?case by (simp add: run_tracker_def)
next
  case (Cons op ops)
  then show ?case
    by (cases op) (simp_all add: run_tracker_def markActive_def isDegraded_def put_source_def
        get_source_def case_prod_beta)
qed

lemma leaves_source:
  assumes "\<forall>op \<in> set ops. tracker_time op \<le> t \<and> \<not> touches s i op"
  shows "leaves_key (\<lambda>k. True) (s, i) t (map store_op_of ops)"
proof -
  have "op_time (store_op_of op) = tracker_time op" for op by (cases op) simp_all
  moreover have "is_put (store_op_of op) \<and> op_key (store_op_of op) = (s, i) \<longleftrightarrow> touches s i op" for op
    by (cases op) auto
  ultimately show ?thesis using assms by (auto simp: leaves_key_def)
qed

lemma isDegraded_get: "fst (isDegraded s i t r) \<longleftrightarrow> fst (get_source (s, i) t r) = None"
  by (simp add: isDegraded_def get_source_def case_prod_beta)

lemma isDegraded_snd: "snd (isDegraded s i t r) = snd (get_source (s, i) t r)"
  by (simp add: isDegraded_def get_source_def case_prod_beta)

lemma degraded_after_touch:
  assumes "\<forall>op \<in> set ops. tracker_time op \<le> t \<and> \<not> touches s i op"
  shows "fst (isDegraded s i t (run_tracker ops (markActive s i now r))) \<longleftrightarrow> now + SOURCE_TIMEOUT_MS s \<le> t"
proof -
  have "markActive s i now r = put_source (s, i) () (SOURCE_TIMEOUT_MS s) now r"
    by (simp add: markActive_def put_source_def)
  then show ?thesis
    using sources.run_live [OF TrueI leaves_source [OF assms], of "()" "SOURCE_TIMEOUT_MS s" now r]
    by (simp add: isDegraded_get run_tracker_store)
qed

lemma degraded_untouched:
  assumes "\<forall>op \<in> set ops. tracker_time op \<le> t \<and> \<not> touches s i op"
  shows "fst (isDegraded s i t (run_tracker ops empty_redis))"
proof -
  have "fst (get_source (s, i) t empty_redis) = None"
    by (simp add: get_source_def isSourceDegraded_def empty_redis_def getIfNotExpired_def)
  then show ?thesis
    using sources.run_frame [OF TrueI leaves_source [OF assms], of empty_redis]
    by (simp add: isDegraded_get run_tracker_store)
qed

text \<open>The statuses of a gate or route are the checks of its sources.\<close>

lemma isDegraded_twice:
  "fst (isDegraded s i t (snd (isDegraded s' i' t r))) = fst (isDegraded s i t r)"
  by (simp only: isDegraded_get isDegraded_snd sources.get_get [OF TrueI TrueI order_refl])

lemma statuses_of_eq:
  "fst (statuses_of ss i t r) = map (\<lambda>s. \<lparr>sourceType = s, is_degraded = fst (isDegraded s i t r)\<rparr>) ss"
  by (induction ss arbitrary: r) (simp_all add: case_prod_beta isDegraded_twice)

lemma allSourcesDegraded_iff: "fst (allSourcesDegraded i t r) \<longleftrightarrow> (\<forall>s. fst (isDegraded s i t r))"
proof -
  have "(\<forall>s. P s) \<longleftrightarrow> P GATE_COUNTER \<and> P TICKET_SCANNER \<and> P TRANSIT_FEED" for P
    using SignalSource.exhaust by metis
  then show ?thesis
    by (simp add: allSourcesDegraded_def getStatus_def case_prod_beta statuses_of_eq ALL_SOURCE_TYPES_def
        isDegraded_twice)
qed

text \<open>C30. Liveness over any history of touches and checks of all sources: starting from an empty
  store, a source of a gate or route is degraded at time \<open>t\<close> exactly when it was never touched
  or its last touch is at least its timeout (45, 45 and 90 seconds) ago, and it is then
  reported degraded by the status of that gate or route.\<close>

theorem source_liveness:
  assumes "\<forall>op \<in> set ops. tracker_time op \<le> t \<and> \<not> touches s i op"
  shows "(fst (isDegraded s i t (run_tracker (before @ Touch s i now # ops) empty_redis)) \<longleftrightarrow>
      now + SOURCE_TIMEOUT_MS s \<le> t)
    \<and> fst (isDegraded s i t (run_tracker ops empty_redis))
    \<and> (\<lparr>sourceType = s, is_degraded = (now + SOURCE_TIMEOUT_MS s \<le> t)\<rparr>
        \<in> set (fst (getStatus i t (run_tracker (before @ Touch s i now # ops) empty_redis))))"
proof -
  have "run_tracker (before @ Touch s i now # ops) empty_redis =
    run_tracker ops (markActive s i now (run_tracker before empty_redis))"
    by (simp add: run_tracker_def)
  then have d: "fst (isDegraded s i t (run_tracker (before @ Touch s i now # ops) empty_redis)) \<longleftrightarrow>
      now + SOURCE_TIMEOUT_MS s \<le> t"
    using degraded_after_touch [OF assms] by simp
  moreover have "s \<in> set ALL_SOURCE_TYPES" by (cases s) (simp_all add: ALL_SOURCE_TYPES_def)
  ultimately show ?thesis
    using degraded_untouched [OF assms] by (auto simp: getStatus_def statuses_of_eq)
qed

lemma source_liveness_witness:
  "\<not> fst (isDegraded TRANSIT_FEED ''r1'' 89999 (run_tracker
      ([Touch GATE_COUNTER ''g1'' 0] @ Touch TRANSIT_FEED ''r1'' 0 # [Check TRANSIT_FEED ''r1'' 50000]) empty_redis))
   \<and> fst (isDegraded TRANSIT_FEED ''r1'' 90000 (run_tracker
      ([Touch GATE_COUNTER ''g1'' 0] @ Touch TRANSIT_FEED ''r1'' 0 # [Check TRANSIT_FEED ''r1'' 50000]) empty_redis))"
  using source_liveness [of "[Check TRANSIT_FEED ''r1'' 50000]" 89999 TRANSIT_FEED "''r1''" "[Touch GATE_COUNTER ''g1'' 0]" 0]
    source_liveness [of "[Check TRANSIT_FEED ''r1'' 50000]" 90000 TRANSIT_FEED "''r1''" "[Touch GATE_COUNTER ''g1'' 0]" 0]
  by (simp add: SOURCE_TIMEOUT_MS_def)

end
