(* ===== verification/IngestService.thy ===== *)
theory IngestService
  imports Parser Timing DegradedSource
begin

text \<open>
  \<open>src/signal-ingestion/service.ts\<close>: the handler of \<open>POST /v1/signals\<close>. The publisher and the
  liveness tracker are arguments that act on a state \<open>'s\<close>, as they are injected in the source;
  \<open>intake_log\<close> is the publisher and tracker that records what it is given.
\<close>

datatype SignalIngestionResult = Accepted202 string | Rejected400 ValidationError

text \<open>The own enumerable properties an object spread copies; those of an array are its indices.\<close>

fun spread_fields :: "json \<Rightarrow> (string \<times> json) list" where
  "spread_fields (JObj fs) = fs"
| "spread_fields (JArr xs) = map (\<lambda>i. (nat_to_string i, xs ! i)) [0..<length xs]"
| "spread_fields _ = []"

definition is_object :: "json \<Rightarrow> bool" where
  "is_object j = (case j of JObj fs \<Rightarrow> True | JArr xs \<Rightarrow> True | _ \<Rightarrow> False)"

text \<open>\<open>x ?? d\<close> on JSON values.\<close>

definition nullish_or :: "json \<Rightarrow> json \<Rightarrow> json" where
  "nullish_or x d = (if x = JUndef \<or> x = JNull then d else x)"

definition applyIntakeDefaults :: "string \<Rightarrow> json \<Rightarrow> int \<Rightarrow> json" where
  "applyIntakeDefaults uuid rawPayload now =
     (if \<not> is_object rawPayload then rawPayload
      else JObj (AList.merge
        [(''signalId'', nullish_or (prop_of rawPayload ''signalId'') (JStr uuid)),
         (''receivedAt'', nullish_or (prop_of rawPayload ''receivedAt'') (JStr (toISOString now))),
         (''isStale'', nullish_or (prop_of rawPayload ''isStale'') (JBool False)),
         (''lateArrivalFlag'', nullish_or (prop_of rawPayload ''lateArrivalFlag'') (JBool False))]
        (spread_fields rawPayload)))"

text \<open>\<open>now\<close> is the argument of the handler, \<open>clock\<close> the time the tracker reads.\<close>

definition handleSignal ::
  "(SignalEvent \<Rightarrow> 's \<Rightarrow> 's) \<Rightarrow> (ValidationError \<Rightarrow> 's \<Rightarrow> 's) \<Rightarrow> (SignalSource \<Rightarrow> string \<Rightarrow> int \<Rightarrow> 's \<Rightarrow> 's)
    \<Rightarrow> safe_parse \<Rightarrow> TimingConfig \<Rightarrow> string \<Rightarrow> json \<Rightarrow> int \<Rightarrow> int \<Rightarrow> 's \<Rightarrow> SignalIngestionResult \<times> 's" where
  "handleSignal publishSignalEvent publishValidationError mark safeParse config uuid rawPayload now clock s =
     (let withDefaults = applyIntakeDefaults uuid rawPayload now
      in case parseSignalEvent safeParse withDefaults of
        Inl err \<Rightarrow> (Rejected400 err, publishValidationError err s)
      | Inr v \<Rightarrow>
          (let c = classifyTiming (timestamp v) (receivedAt v) now config;
               event = v\<lparr>isStale := tc_isStale c, lateArrivalFlag := tc_lateArrivalFlag c\<rparr>;
               s1 = publishSignalEvent event s;
               targetId = (case gateId event of Some g \<Rightarrow> Some g | None \<Rightarrow> routeId event);
               s2 = (if truthy_str targetId then mark (source event) (the targetId) clock s1 else s1)
           in (Accepted202 (signalId event), s2)))"

section \<open>A recording publisher and tracker\<close>

record intake_log =
  log_events :: "SignalEvent list"
  log_errors :: "ValidationError list"
  log_active :: "(SignalSource \<times> string) list"

definition log_event :: "SignalEvent \<Rightarrow> intake_log \<Rightarrow> intake_log" where
  "log_event e l = l\<lparr>log_events := log_events l @ [e]\<rparr>"

definition log_error :: "ValidationError \<Rightarrow> intake_log \<Rightarrow> intake_log" where
  "log_error e l = l\<lparr>log_errors := log_errors l @ [e]\<rparr>"

definition log_mark :: "SignalSource \<Rightarrow> string \<Rightarrow> int \<Rightarrow> intake_log \<Rightarrow> intake_log" where
  "log_mark src i t l = l\<lparr>log_active := log_active l @ [(src, i)]\<rparr>"

definition empty_log :: intake_log where
  "empty_log = \<lparr>log_events = [], log_errors = [], log_active = []\<rparr>"

abbreviation handle_logged ::
  "safe_parse \<Rightarrow> TimingConfig \<Rightarrow> string \<Rightarrow> json \<Rightarrow> int \<Rightarrow> int \<Rightarrow> SignalIngestionResult \<times> intake_log" where
  "handle_logged sp config uuid raw now clock \<equiv>
     handleSignal log_event log_error log_mark sp config uuid raw now clock empty_log"

section \<open>Defaults\<close>

lemma field_merge: "field k (AList.merge xs ys) = (case map_of ys k of Some v \<Rightarrow> v | None \<Rightarrow> field k xs)"
  by (simp add: field_def merge_conv map_add_def split: option.splits)

lemma defaults_field:
  "prop_of (applyIntakeDefaults uuid (JObj fs) now) k = (case map_of fs k of Some v \<Rightarrow> v | None \<Rightarrow>
     if k = ''signalId'' then JStr uuid else if k = ''receivedAt'' then JStr (toISOString now)
     else if k = ''isStale'' \<or> k = ''lateArrivalFlag'' then JBool False else JUndef)"
proof (cases "map_of fs k")
  case None
  then have "prop_of (JObj fs) k = JUndef" by (simp add: field_def)
  moreover have "nullish_or JUndef d = d" for d by (simp add: nullish_or_def)
  ultimately show ?thesis
    using None unfolding applyIntakeDefaults_def
    by (cases "k = ''signalId''"; cases "k = ''receivedAt''"; cases "k = ''isStale''"; cases "k = ''lateArrivalFlag''")
      (simp_all add: is_object_def field_merge field_def [of _ fs])
next
  case (Some v)
  then show ?thesis by (simp add: applyIntakeDefaults_def is_object_def field_merge)
qed

lemma keys_merge: "fst ` set (AList.merge xs ys) = fst ` set xs \<union> fst ` set ys"
  by (simp add: dom_merge)

text \<open>What a client has to send.\<close>

definition business_fields_ok :: "(string \<Rightarrow> bool) \<Rightarrow> SignalSource \<Rightarrow> (string \<times> json) list \<Rightarrow> bool" where
  "business_fields_ok dt s fs = (fst ` set fs \<subseteq> {''source'', ''gateId'', ''routeId'', ''timestamp'', ''payload''} \<and>
     field ''source'' fs = JStr (source_string s) \<and>
     zod_accepts dt (ZOptional (ZString [MinLength 1])) (field ''gateId'' fs) \<and>
     zod_accepts dt (ZOptional (ZString [MinLength 1])) (field ''routeId'' fs) \<and>
     zod_accepts dt (ZString [Datetime]) (field ''timestamp'' fs) \<and>
     zod_accepts dt (payload_schema s) (field ''payload'' fs))"

lemma defaults_conform:
  assumes "business_fields_ok dt s fs" "uuid \<noteq> []" "dt (toISOString now)"
  shows "zod_accepts dt SignalEventPayloadSchema (applyIntakeDefaults uuid (JObj fs) now)"
proof -
  obtain gs where gs: "applyIntakeDefaults uuid (JObj fs) now = JObj gs"
    "fst ` set gs = {''signalId'', ''receivedAt'', ''isStale'', ''lateArrivalFlag''} \<union> fst ` set fs"
    by (simp add: applyIntakeDefaults_def is_object_def keys_merge)
  have absent: "map_of fs k = None" if "k \<in> {''signalId'', ''receivedAt'', ''isStale'', ''lateArrivalFlag''}" for k
    using assms(1) that by (auto simp: business_fields_ok_def map_of_eq_None_iff)
  have f: "field k gs = (case map_of fs k of Some v \<Rightarrow> v | None \<Rightarrow>
     if k = ''signalId'' then JStr uuid else if k = ''receivedAt'' then JStr (toISOString now)
     else if k = ''isStale'' \<or> k = ''lateArrivalFlag'' then JBool False else JUndef)" for k
    using defaults_field [of uuid fs now k] gs(1) by simp
  have same: "field k gs = field k fs" if "k \<in> {''source'', ''gateId'', ''routeId'', ''timestamp'', ''payload''}" for k
    using that unfolding f by (auto simp: field_def split: option.splits)
  have fresh: "field ''signalId'' gs = JStr uuid" "field ''receivedAt'' gs = JStr (toISOString now)"
    "field ''isStale'' gs = JBool False" "field ''lateArrivalFlag'' gs = JBool False"
    by (simp_all add: f absent)
  have keys: "fst ` set gs \<subseteq> event_keys"
    using assms(1) unfolding gs(2) by (auto simp: business_fields_ok_def event_keys_def)
  have "event_fields_ok dt s gs"
    using assms unfolding event_fields_ok_def business_fields_ok_def
    by (simp add: keys fresh same accepts_boolean accepts_string Suc_le_eq ex_bool_eq)
  then show ?thesis unfolding gs(1) accepts_event by blast
qed

section \<open>What the handler does\<close>

text \<open>Every signal has exactly one outcome. If the payload with the intake defaults conforms to
  the schema, the answer is 202 with the signal id, one event is published and no error; it is the
  payload except for its two timing flags, which are always those computed from its timestamps
  (whatever the client sent), and the source is marked active for the gate, or for the route
  when there is no gate. Otherwise the answer is 400, one validation error is published, no event, and no
  source is marked.\<close>

theorem handle_signal_outcome:
  assumes "zod_contract dt safeParse"
  shows "case handle_logged safeParse config uuid raw now clock of
      (Accepted202 i, l) \<Rightarrow>
        zod_accepts dt SignalEventPayloadSchema (applyIntakeDefaults uuid raw now) \<and>
        (\<exists>e a b. l = \<lparr>log_events = [e], log_errors = [],
            log_active = (case gateId e of Some g \<Rightarrow> [(source e, g)]
              | None \<Rightarrow> (case routeId e of Some r \<Rightarrow> [(source e, r)] | None \<Rightarrow> []))\<rparr>
          \<and> i = signalId e \<and> event_ok dt e
          \<and> \<lparr>tc_isStale = isStale e, tc_lateArrivalFlag = lateArrivalFlag e\<rparr>
              = classifyTiming (timestamp e) (receivedAt e) now config
          \<and> json_equiv (serializeSignalEvent (e\<lparr>isStale := a, lateArrivalFlag := b\<rparr>))
              (applyIntakeDefaults uuid raw now))
    | (Rejected400 err, l) \<Rightarrow>
        \<not> zod_accepts dt SignalEventPayloadSchema (applyIntakeDefaults uuid raw now) \<and>
        l = \<lparr>log_events = [], log_errors = [err], log_active = []\<rparr>"
proof (cases "zod_accepts dt SignalEventPayloadSchema (applyIntakeDefaults uuid raw now)")
  case True
  let ?v = "event_of_json (applyIntakeDefaults uuid raw now)"
  let ?c = "classifyTiming (timestamp ?v) (receivedAt ?v) now config"
  let ?e = "?v\<lparr>isStale := tc_isStale ?c, lateArrivalFlag := tc_lateArrivalFlag ?c\<rparr>"
  note read = accepts_event_read [OF True]
  have p: "parseSignalEvent safeParse (applyIntakeDefaults uuid raw now) = Inr ?v"
    using zod_contract_cases(1) [OF assms True] by (auto simp: parseSignalEvent_def event_of_json_equiv)
  have ok: "event_ok dt ?e" using read(1) by (simp add: event_ok_def)
  have g: "gateId ?v \<noteq> Some []" "routeId ?v \<noteq> Some []" using read(1) by (auto simp: event_ok_def)
  have l: "handle_logged safeParse config uuid raw now clock = (Accepted202 (signalId ?v),
    \<lparr>log_events = [?e], log_errors = [], log_active = (case gateId ?v of Some g \<Rightarrow> [(source ?v, g)]
              | None \<Rightarrow> (case routeId ?v of Some r \<Rightarrow> [(source ?v, r)] | None \<Rightarrow> []))\<rparr>)"
    using g by (auto simp: handleSignal_def p Let_def log_event_def log_mark_def empty_log_def split: option.splits)
  show ?thesis
    unfolding l prod.case SignalIngestionResult.case
  proof (intro conjI True)
    show "\<exists>e a b. \<lparr>log_events = [?e], log_errors = [], log_active = (case gateId ?v of Some g \<Rightarrow> [(source ?v, g)]
              | None \<Rightarrow> (case routeId ?v of Some r \<Rightarrow> [(source ?v, r)] | None \<Rightarrow> []))\<rparr> =
          \<lparr>log_events = [e], log_errors = [], log_active = (case gateId e of Some g \<Rightarrow> [(source e, g)]
              | None \<Rightarrow> (case routeId e of Some r \<Rightarrow> [(source e, r)] | None \<Rightarrow> []))\<rparr>
        \<and> signalId ?v = signalId e \<and> event_ok dt e
        \<and> \<lparr>tc_isStale = isStale e, tc_lateArrivalFlag = lateArrivalFlag e\<rparr>
            = classifyTiming (timestamp e) (receivedAt e) now config
        \<and> json_equiv (serializeSignalEvent (e\<lparr>isStale := a, lateArrivalFlag := b\<rparr>))
            (applyIntakeDefaults uuid raw now)"
      using ok read(2)
      by (rule_tac exI [of _ ?e], rule_tac exI [of _ "isStale ?v"], rule_tac exI [of _ "lateArrivalFlag ?v"],
          cases "gateId ?v"; cases "routeId ?v") simp_all
  qed
next
  case False
  then obtain err where "parseSignalEvent safeParse (applyIntakeDefaults uuid raw now) = Inl err"
    using zod_contract_cases(2) [OF assms False] by (auto simp: parseSignalEvent_def)
  with False show ?thesis
    by (simp add: handleSignal_def Let_def log_error_def empty_log_def)
qed

definition demo_fields :: "(string \<times> json) list" where
  "demo_fields = [(''source'', JStr ''TICKET_SCANNER''), (''gateId'', JStr ''gate-a''),
     (''timestamp'', JStr (toISOString 0)), (''payload'', JObj [(''fanId'', JStr ''f1'')])]"

lemma demo_fields_ok: "business_fields_ok (\<lambda>s. True) TICKET_SCANNER demo_fields"
  by (simp add: business_fields_ok_def demo_fields_def accepts_optional accepts_string accepts_object
      TicketScanPayloadSchema_def)

text \<open>A client cannot pass off an old event as fresh.\<close>

lemma handle_signal_outcome_witness:
  "\<exists>e. log_events (snd (handle_logged (reference_safe_parse (\<lambda>s. True)) DEFAULT_TIMING_CONFIG ''id''
      (JObj demo_fields) 60000 60000)) = [e] \<and> signalId e = ''id'' \<and>
    \<lparr>tc_isStale = isStale e, tc_lateArrivalFlag = lateArrivalFlag e\<rparr>
      = classifyTiming (timestamp e) (receivedAt e) 60000 DEFAULT_TIMING_CONFIG"
proof -
  let ?h = "handle_logged (reference_safe_parse (\<lambda>s. True)) DEFAULT_TIMING_CONFIG ''id'' (JObj demo_fields) 60000 60000"
  have acc: "zod_accepts (\<lambda>s. True) SignalEventPayloadSchema (applyIntakeDefaults ''id'' (JObj demo_fields) 60000)"
    using demo_fields_ok by (rule defaults_conform) simp_all
  have id: "signalId (event_of_json (applyIntakeDefaults ''id'' (JObj demo_fields) 60000)) = ''id''"
    using defaults_field [of "''id''" demo_fields 60000 "''signalId''"]
    by (simp add: event_of_json_def demo_fields_def)
  obtain r l where h: "?h = (r, l)" by (cases ?h)
  note o = handle_signal_outcome [OF reference_meets_contract, where dt = "\<lambda>s. True" and
      config = DEFAULT_TIMING_CONFIG and uuid = "''id''" and raw = "JObj demo_fields" and now = 60000
      and clock = 60000, unfolded h prod.case]
  have "r = Accepted202 ''id''"
    using h acc id by (simp add: handleSignal_def parseSignalEvent_def reference_safe_parse_def Let_def split: if_splits)
  with o show ?thesis unfolding h by auto
qed

text \<open>An intake field sent as \<open>null\<close> is not replaced: the spread of the input overrides the default.\<close>

lemma null_signalId_rejected:
  assumes "map_of fs ''signalId'' = Some JNull"
  shows "\<not> zod_accepts dt SignalEventPayloadSchema (applyIntakeDefaults uuid (JObj fs) now)"
proof
  assume "zod_accepts dt SignalEventPayloadSchema (applyIntakeDefaults uuid (JObj fs) now)"
  then obtain gs where "applyIntakeDefaults uuid (JObj fs) now = JObj gs"
    "zod_accepts dt (ZString [MinLength 1]) (field ''signalId'' gs)"
    by (auto simp: accepts_event event_fields_ok_def)
  with defaults_field [of uuid fs now "''signalId''"] assms show False
    by (simp add: accepts_string)
qed

text \<open>A client need only send the source, the time, the payload and optionally a gate and a
  route: if these conform, the signal is accepted under the fresh id. A signal id sent as \<open>null\<close>
  is not replaced by a fresh one but rejected.\<close>

theorem intake_defaults:
  assumes "zod_contract dt safeParse" "business_fields_ok dt s fs" "uuid \<noteq> []" "dt (toISOString now)"
  shows "fst (handle_logged safeParse config uuid (JObj fs) now clock) = Accepted202 uuid \<and>
    (\<exists>err. fst (handle_logged safeParse config uuid (JObj ((''signalId'', JNull) # fs)) now clock) = Rejected400 err)"
proof (intro conjI)
  let ?d = "applyIntakeDefaults uuid (JObj fs) now"
  have acc: "zod_accepts dt SignalEventPayloadSchema ?d" using defaults_conform [OF assms(2-4)] .
  then obtain v where v: "safeParse SignalEventPayloadSchema ?d = Inr v" "json_equiv v ?d"
    using zod_contract_cases(1) [OF assms(1)] by blast
  have "map_of fs ''signalId'' = None"
    using assms(2) by (auto simp: business_fields_ok_def map_of_eq_None_iff)
  then have "signalId (event_of_json ?d) = uuid"
    using defaults_field [of uuid fs now "''signalId''"] by (simp add: event_of_json_def)
  with v show "fst (handle_logged safeParse config uuid (JObj fs) now clock) = Accepted202 uuid"
    by (simp add: handleSignal_def parseSignalEvent_def event_of_json_equiv Let_def)
  show "\<exists>err. fst (handle_logged safeParse config uuid (JObj ((''signalId'', JNull) # fs)) now clock) = Rejected400 err"
    using zod_contract_cases(2) [OF assms(1) null_signalId_rejected, of "(''signalId'', JNull) # fs" uuid now]
    by (auto simp: handleSignal_def parseSignalEvent_def Let_def)
qed

lemma intake_defaults_witness:
  "fst (handle_logged (reference_safe_parse (\<lambda>s. True)) DEFAULT_TIMING_CONFIG ''id'' (JObj demo_fields) 5 5) = Accepted202 ''id''"
  using intake_defaults [OF reference_meets_contract demo_fields_ok, where uuid = "''id''" and now = 5
      and config = DEFAULT_TIMING_CONFIG and clock = 5] by simp

end
