(* ===== verification/IntakeQueue.thy ===== *)
theory IntakeQueue
  imports Models
begin

text \<open>
  \<open>src/signal-ingestion/priority-queue.ts\<close>: the bounded intake queue, four buckets by the risk level
  of the event's gate. The abstract queue is one list in the order of service; \<open>level_buffer\<close>
  is the contract that the operations act on it as the abstract ones do, interpreted on the
  class, and what is proved inside it holds for every sequence of operations.
\<close>

record QueuedSignalEvent =
  queued_event :: SignalEvent
  gateRiskLevel :: RiskLevel
  enqueuedAt :: int

text \<open>The constructor creates the four buckets, so \<open>buffers.get(level)!\<close> always finds one.\<close>

record PriorityIntakeQueue =
  buffers :: "(RiskLevel, QueuedSignalEvent list) jsmap"
  queue_size :: int
  queue_capacity :: int

definition new_queue :: "int \<Rightarrow> PriorityIntakeQueue" where
  "new_queue capacity = \<lparr>buffers = [(CRITICAL, []), (HIGH, []), (MODERATE, []), (LOW, [])],
     queue_size = 0, queue_capacity = capacity\<rparr>"

definition RISK_PRIORITY :: "RiskLevel \<Rightarrow> int" where
  "RISK_PRIORITY r = (case r of CRITICAL \<Rightarrow> 3 | HIGH \<Rightarrow> 2 | MODERATE \<Rightarrow> 1 | LOW \<Rightarrow> 0)"

definition bucket :: "RiskLevel \<Rightarrow> PriorityIntakeQueue \<Rightarrow> QueuedSignalEvent list" where
  "bucket r q = get_or (buffers q) r []"

definition currentSize :: "PriorityIntakeQueue \<Rightarrow> int" where
  "currentSize q = queue_size q"

definition isFull :: "PriorityIntakeQueue \<Rightarrow> bool" where
  "isFull q = (queue_capacity q \<le> queue_size q)"

text \<open>The bodies of the two loops that take the oldest event of the first non-empty bucket.\<close>

definition shift_bucket :: "RiskLevel \<Rightarrow> PriorityIntakeQueue \<Rightarrow> QueuedSignalEvent option \<times> PriorityIntakeQueue" where
  "shift_bucket r q = (head_opt (bucket r q),
     q\<lparr>queue_size := queue_size q - 1, buffers := AList.update r (tl (bucket r q)) (buffers q)\<rparr>)"

fun dequeue_from :: "RiskLevel list \<Rightarrow> PriorityIntakeQueue \<Rightarrow> QueuedSignalEvent option \<times> PriorityIntakeQueue" where
  "dequeue_from [] q = (None, q)"
| "dequeue_from (r # rs) q = (if bucket r q \<noteq> [] then shift_bucket r q else dequeue_from rs q)"

definition dequeue :: "PriorityIntakeQueue \<Rightarrow> QueuedSignalEvent option \<times> PriorityIntakeQueue" where
  "dequeue q = dequeue_from [CRITICAL, HIGH, MODERATE, LOW] q"

fun shed_from :: "RiskLevel list \<Rightarrow> int \<Rightarrow> PriorityIntakeQueue \<Rightarrow> QueuedSignalEvent option \<times> PriorityIntakeQueue" where
  "shed_from [] incomingPriority q = (None, q)"
| "shed_from (r # rs) incomingPriority q =
     (if incomingPriority \<le> RISK_PRIORITY r then (None, q)
      else if bucket r q \<noteq> [] then shift_bucket r q else shed_from rs incomingPriority q)"

definition shedLowestPriority :: "RiskLevel \<Rightarrow> PriorityIntakeQueue \<Rightarrow> QueuedSignalEvent option \<times> PriorityIntakeQueue" where
  "shedLowestPriority incomingRiskLevel q =
     shed_from [LOW, MODERATE, HIGH, CRITICAL] (RISK_PRIORITY incomingRiskLevel) q"

definition push_bucket :: "QueuedSignalEvent \<Rightarrow> PriorityIntakeQueue \<Rightarrow> PriorityIntakeQueue" where
  "push_bucket item q = q\<lparr>buffers := AList.update (gateRiskLevel item) (bucket (gateRiskLevel item) q @ [item]) (buffers q),
     queue_size := queue_size q + 1\<rparr>"

definition enqueue :: "QueuedSignalEvent \<Rightarrow> PriorityIntakeQueue \<Rightarrow> QueuedSignalEvent option \<times> PriorityIntakeQueue" where
  "enqueue item q =
     (if isFull q then
        (case shedLowestPriority (gateRiskLevel item) q of
           (None, q') \<Rightarrow> (Some item, q')
         | (Some shed, q') \<Rightarrow> (None, push_bucket item q'))
      else (None, push_bucket item q))"

section \<open>The queue as a list\<close>

definition contents :: "PriorityIntakeQueue \<Rightarrow> QueuedSignalEvent list" where
  "contents q = bucket CRITICAL q @ bucket HIGH q @ bucket MODERATE q @ bucket LOW q"

definition queue_inv :: "PriorityIntakeQueue \<Rightarrow> bool" where
  "queue_inv q = (queue_size q = int (length (contents q)) \<and> queue_size q \<le> max 0 (queue_capacity q) \<and>
     (\<forall>r. \<forall>x \<in> set (bucket r q). gateRiskLevel x = r))"

lemma bucket_push [store_simps]: "bucket r (push_bucket x q) =
    (if r = gateRiskLevel x then bucket r q @ [x] else bucket r q)"
  by (simp add: bucket_def push_bucket_def store_simps)

lemma bucket_shift [store_simps]: "bucket r (snd (shift_bucket r' q)) =
    (if r = r' then tl (bucket r q) else bucket r q)"
  by (simp add: bucket_def shift_bucket_def store_simps)

lemma size_push_shift [store_simps]:
  "queue_size (push_bucket x q) = queue_size q + 1" "queue_capacity (push_bucket x q) = queue_capacity q"
  "queue_size (snd (shift_bucket r q)) = queue_size q - 1"
  "queue_capacity (snd (shift_bucket r q)) = queue_capacity q"
  "fst (shift_bucket r q) = head_opt (bucket r q)"
  by (simp_all add: push_bucket_def shift_bucket_def)

text \<open>A queue that gives up its element \<open>x\<close>.\<close>

lemma shift_contents:
  assumes "bucket r q = x # xs"
  shows "\<exists>q'. shift_bucket r q = (Some x, q') \<and> mset (contents q) = add_mset x (mset (contents q'))"
  using assms by (cases r) (simp_all add: contents_def store_simps shift_bucket_def bucket_def get_or_update)

lemma dequeue_cases:
  "dequeue q = (if bucket CRITICAL q \<noteq> [] then shift_bucket CRITICAL q
     else if bucket HIGH q \<noteq> [] then shift_bucket HIGH q
     else if bucket MODERATE q \<noteq> [] then shift_bucket MODERATE q
     else if bucket LOW q \<noteq> [] then shift_bucket LOW q else (None, q))"
  by (simp add: dequeue_def)

lemma dequeue_contents:
  "case dequeue q of (None, q') \<Rightarrow> contents q = [] \<and> q' = q
     | (Some x, q') \<Rightarrow> contents q = x # contents q'"
  unfolding dequeue_cases
  by (cases "bucket CRITICAL q"; cases "bucket HIGH q"; cases "bucket MODERATE q"; cases "bucket LOW q")
    (simp_all add: contents_def shift_bucket_def bucket_def get_or_update)

lemma dequeue_shrinks: "(Some x, q') = dequeue q \<Longrightarrow> length (contents q') < length (contents q)"
  using dequeue_contents [of q] by (auto split: prod.splits option.splits)

text \<open>Draining ends because every step removes an element.\<close>

function drainInPriorityOrder :: "PriorityIntakeQueue \<Rightarrow> QueuedSignalEvent list \<times> PriorityIntakeQueue" where
  "drainInPriorityOrder q =
     (case dequeue q of
        (None, q') \<Rightarrow> ([], q')
      | (Some x, q') \<Rightarrow> (let (result, q'') = drainInPriorityOrder q' in (x # result, q'')))"
  by pat_completeness auto
termination
  by (relation "measure (\<lambda>q. length (contents q))") (auto dest: dequeue_shrinks)

declare drainInPriorityOrder.simps [simp del]

section \<open>The abstract queue\<close>

text \<open>A list in the order of service: an event is inserted after all events of its level or
  higher, and a full queue gives up the oldest event of its lowest level, if that is lower
  than the incoming one.\<close>

definition spec_insert :: "('a \<Rightarrow> RiskLevel) \<Rightarrow> 'a \<Rightarrow> 'a list \<Rightarrow> 'a list" where
  "spec_insert lvl x xs = takeWhile (\<lambda>y. lvl x \<le> lvl y) xs @ x # dropWhile (\<lambda>y. lvl x \<le> lvl y) xs"

definition spec_shed :: "('a \<Rightarrow> RiskLevel) \<Rightarrow> 'a list \<Rightarrow> 'a list" where
  "spec_shed lvl xs = takeWhile (\<lambda>y. lvl (last xs) < lvl y) xs @ tl (dropWhile (\<lambda>y. lvl (last xs) < lvl y) xs)"

definition spec_enqueue :: "('a \<Rightarrow> RiskLevel) \<Rightarrow> int \<Rightarrow> 'a \<Rightarrow> 'a list \<Rightarrow> 'a option \<times> 'a list" where
  "spec_enqueue lvl cap x xs =
     (if int (length xs) < cap then (None, spec_insert lvl x xs)
      else if xs = [] \<or> lvl x \<le> lvl (last xs) then (Some x, xs)
      else (None, spec_insert lvl x (spec_shed lvl xs)))"

fun spec_dequeue :: "'a list \<Rightarrow> 'a option \<times> 'a list" where
  "spec_dequeue [] = (None, [])"
| "spec_dequeue (x # xs) = (Some x, xs)"

lemma takeWhile_append_all: "(\<forall>x \<in> set xs. P x) \<Longrightarrow> takeWhile P (xs @ ys) = xs @ takeWhile P ys"
  by (induction xs) simp_all

lemma dropWhile_append_all: "(\<forall>x \<in> set xs. P x) \<Longrightarrow> dropWhile P (xs @ ys) = dropWhile P ys"
  by (induction xs) simp_all

lemma takeWhile_none: "(\<forall>x \<in> set xs. \<not> P x) \<Longrightarrow> takeWhile P xs = []"
  by (cases xs) simp_all

lemma dropWhile_none: "(\<forall>x \<in> set xs. \<not> P x) \<Longrightarrow> dropWhile P xs = xs"
  by (cases xs) simp_all

lemmas while_append = takeWhile_append_all dropWhile_append_all takeWhile_none dropWhile_none

text \<open>Two parts of a list split by a bound on the level.\<close>

lemma spec_insert_split:
  assumes "\<forall>y \<in> set xs. lvl x \<le> lvl y" "\<forall>y \<in> set ys. lvl y < lvl x"
  shows "spec_insert lvl x (xs @ ys) = xs @ x # ys"
  using assms by (simp add: spec_insert_def while_append not_le)

lemma spec_shed_split:
  assumes "\<forall>y \<in> set xs. r < lvl y" "\<forall>y \<in> set (v # ys). lvl y = r"
  shows "spec_shed lvl (xs @ v # ys) = xs @ ys"
proof -
  have "lvl (last (xs @ v # ys)) = r" using assms(2) last_in_set [of "v # ys"] by simp
  then show ?thesis using assms by (simp add: spec_shed_def while_append)
qed

section \<open>The class implements the abstract queue\<close>

lemma inv_levels:
  assumes "queue_inv q"
  shows "\<forall>x \<in> set (bucket r q). gateRiskLevel x = r"
  using assms by (simp add: queue_inv_def)

lemma push_refines:
  assumes "queue_inv q"
  shows "contents (push_bucket x q) = spec_insert gateRiskLevel x (contents q)"
proof -
  note l = inv_levels [OF assms, of CRITICAL] inv_levels [OF assms, of HIGH]
    inv_levels [OF assms, of MODERATE] inv_levels [OF assms, of LOW]
  show ?thesis
  proof (cases "gateRiskLevel x")
    case CRITICAL
    with l have "spec_insert gateRiskLevel x (bucket CRITICAL q @ (bucket HIGH q @ bucket MODERATE q @ bucket LOW q))
      = bucket CRITICAL q @ x # (bucket HIGH q @ bucket MODERATE q @ bucket LOW q)"
      by (intro spec_insert_split) (auto simp: less_RiskLevel_def)
    with CRITICAL show ?thesis by (simp add: contents_def store_simps)
  next
    case HIGH
    with l have "spec_insert gateRiskLevel x ((bucket CRITICAL q @ bucket HIGH q) @ (bucket MODERATE q @ bucket LOW q))
      = (bucket CRITICAL q @ bucket HIGH q) @ x # (bucket MODERATE q @ bucket LOW q)"
      by (intro spec_insert_split) (auto simp: less_RiskLevel_def)
    with HIGH show ?thesis by (simp add: contents_def store_simps)
  next
    case MODERATE
    with l have "spec_insert gateRiskLevel x ((bucket CRITICAL q @ bucket HIGH q @ bucket MODERATE q) @ bucket LOW q)
      = (bucket CRITICAL q @ bucket HIGH q @ bucket MODERATE q) @ x # bucket LOW q"
      by (intro spec_insert_split) (auto simp: less_RiskLevel_def less_eq_RiskLevel_def)
    with MODERATE show ?thesis by (simp add: contents_def store_simps)
  next
    case LOW
    with l have "spec_insert gateRiskLevel x ((bucket CRITICAL q @ bucket HIGH q @ bucket MODERATE q @ bucket LOW q) @ [])
      = (bucket CRITICAL q @ bucket HIGH q @ bucket MODERATE q @ bucket LOW q) @ x # []"
      by (intro spec_insert_split) auto
    with LOW show ?thesis by (simp add: contents_def store_simps)
  qed
qed

lemma contents_levels: "queue_inv q \<Longrightarrow> x \<in> set (contents q) \<Longrightarrow> x \<in> set (bucket (gateRiskLevel x) q)"
  by (auto simp: contents_def queue_inv_def)

text \<open>The bucket that is shed from is the lowest non-empty one.\<close>

lemma shift_lowest_refines:
  assumes "queue_inv q" "bucket r q \<noteq> []" "\<forall>s < r. bucket s q = []"
  shows "contents (snd (shift_bucket r q)) = spec_shed gateRiskLevel (contents q)"
    "gateRiskLevel (last (contents q)) = r"
proof -
  note l = inv_levels [OF assms(1)]
  have c: "bucket s q = []" if "s < r" for s using assms(3) that by blast
  obtain v vs where v: "bucket r q = v # vs" using assms(2) by (cases "bucket r q") auto
  have "\<exists>hs. contents q = hs @ v # vs \<and> contents (snd (shift_bucket r q)) = hs @ vs \<and> (\<forall>y \<in> set hs. r < gateRiskLevel y)"
  proof (cases r)
    case CRITICAL
    then show ?thesis using v c [of HIGH] c [of MODERATE] c [of LOW]
      by (intro exI [of _ "[]"]) (simp add: contents_def store_simps less_RiskLevel_def)
  next
    case HIGH
    then show ?thesis using v c [of MODERATE] c [of LOW] l [of CRITICAL]
      by (intro exI [of _ "bucket CRITICAL q"]) (simp add: contents_def store_simps less_RiskLevel_def)
  next
    case MODERATE
    then show ?thesis using v c [of LOW] l [of CRITICAL] l [of HIGH]
      by (intro exI [of _ "bucket CRITICAL q @ bucket HIGH q"]) (auto simp: contents_def store_simps less_RiskLevel_def)
  next
    case LOW
    then show ?thesis using v l [of CRITICAL] l [of HIGH] l [of MODERATE]
      by (intro exI [of _ "bucket CRITICAL q @ bucket HIGH q @ bucket MODERATE q"])
        (auto simp: contents_def store_simps less_RiskLevel_def)
  qed
  then obtain hs where hs: "contents q = hs @ v # vs" "contents (snd (shift_bucket r q)) = hs @ vs"
    "\<forall>y \<in> set hs. r < gateRiskLevel y" by blast
  have "\<forall>y \<in> set (v # vs). gateRiskLevel y = r" using l [of r] v by simp
  note s = spec_shed_split [OF hs(3) this]
  show "contents (snd (shift_bucket r q)) = spec_shed gateRiskLevel (contents q)"
    by (simp add: hs s)
  show "gateRiskLevel (last (contents q)) = r"
    using l [of r] last_in_set [of "v # vs"] by (simp add: hs v)
qed

lemma RISK_PRIORITY_le: "RISK_PRIORITY a \<le> RISK_PRIORITY b \<longleftrightarrow> a \<le> b"
  by (cases a; cases b) (simp_all add: RISK_PRIORITY_def less_eq_RiskLevel_def)

lemma all_RiskLevel: "(\<forall>r. P r) \<longleftrightarrow> P CRITICAL \<and> P HIGH \<and> P MODERATE \<and> P LOW"
  by (metis RiskLevel.exhaust)

lemma lowest_bucket:
  assumes "contents q \<noteq> []"
  obtains r where "bucket r q \<noteq> []" "\<forall>s < r. bucket s q = []"
proof -
  from assms consider "bucket LOW q \<noteq> []" | "bucket LOW q = []" "bucket MODERATE q \<noteq> []"
    | "bucket LOW q = []" "bucket MODERATE q = []" "bucket HIGH q \<noteq> []"
    | "bucket LOW q = []" "bucket MODERATE q = []" "bucket HIGH q = []" "bucket CRITICAL q \<noteq> []"
    by (auto simp: contents_def)
  then show thesis
    using that [of LOW] that [of MODERATE] that [of HIGH] that [of CRITICAL]
    by cases (simp_all add: all_RiskLevel less_RiskLevel_def)
qed

lemma shed_eq:
  assumes "bucket r q \<noteq> []" "\<forall>s < r. bucket s q = []"
  shows "shedLowestPriority i q = (if i \<le> r then (None, q) else shift_bucket r q)"
proof -
  have c: "bucket s q = []" if "s < r" for s using assms(2) that by blast
  show ?thesis
    using assms(1) c [of LOW] c [of MODERATE] c [of HIGH]
    by (cases r; cases i) (simp_all add: shedLowestPriority_def RISK_PRIORITY_le less_eq_RiskLevel_def less_RiskLevel_def)
qed

lemma shed_empty: "contents q = [] \<Longrightarrow> shedLowestPriority i q = (None, q)"
  by (simp add: shedLowestPriority_def contents_def)

lemma length_push: "length (contents (push_bucket x q)) = Suc (length (contents q))"
  by (cases "gateRiskLevel x") (simp_all add: contents_def store_simps)

lemma length_shift: "bucket r q \<noteq> [] \<Longrightarrow> Suc (length (contents (snd (shift_bucket r q)))) = length (contents q)"
  by (cases r) (auto simp: contents_def store_simps neq_Nil_conv)

lemma push_inv: "queue_inv q \<Longrightarrow> queue_size q < queue_capacity q \<Longrightarrow> queue_inv (push_bucket x q)"
  by (auto simp: queue_inv_def store_simps length_push)

lemma shift_inv:
  assumes "queue_inv q" "bucket r q \<noteq> []"
  shows "queue_inv (snd (shift_bucket r q))"
proof -
  have "gateRiskLevel x = s" if "x \<in> set (bucket s (snd (shift_bucket r q)))" for s x
    using that assms list.set_sel(2) [OF assms(2), of x] by (auto simp: queue_inv_def store_simps split: if_splits)
  then show ?thesis
    using assms length_shift [OF assms(2)] by (simp add: queue_inv_def store_simps)
qed

lemma new_queue_capacity [simp]: "queue_capacity (new_queue capacity) = capacity"
  by (simp add: new_queue_def)

lemma new_queue_inv: "queue_inv (new_queue capacity)" "contents (new_queue capacity) = []"
  by (simp_all add: queue_inv_def new_queue_def contents_def bucket_def get_or_def split: if_splits)

lemma enqueue_refines:
  assumes "queue_inv q"
  shows "queue_inv (snd (enqueue x q)) \<and> queue_capacity (snd (enqueue x q)) = queue_capacity q \<and>
    (fst (enqueue x q), contents (snd (enqueue x q))) =
      spec_enqueue gateRiskLevel (queue_capacity q) x (contents q)"
proof (cases "isFull q")
  case False
  then have "queue_size q < queue_capacity q" by (simp add: isFull_def)
  with False assms show ?thesis
    by (simp add: enqueue_def push_inv push_refines store_simps spec_enqueue_def queue_inv_def [of q])
next
  case True
  then have full: "\<not> int (length (contents q)) < queue_capacity q"
    using assms by (simp add: isFull_def queue_inv_def)
  show ?thesis
  proof (cases "contents q = []")
    case True
    with full \<open>isFull q\<close> assms show ?thesis by (simp add: enqueue_def shed_empty spec_enqueue_def)
  next
    case False
    then obtain r where r: "bucket r q \<noteq> []" "\<forall>s < r. bucket s q = []" by (rule lowest_bucket)
    note low = shift_lowest_refines [OF assms r] and shed = shed_eq [OF r]
    show ?thesis
    proof (cases "gateRiskLevel x \<le> r")
      case True
      with full \<open>isFull q\<close> assms show ?thesis by (simp add: enqueue_def shed spec_enqueue_def low)
    next
      case False
      obtain v q' where q: "shift_bucket r q = (Some v, q')"
        using r(1) by (cases "bucket r q") (simp_all add: shift_bucket_def)
      have inv: "queue_inv q'" using shift_inv [OF assms r(1)] q by simp
      have cap: "queue_capacity q' = queue_capacity q" using q by (metis size_push_shift(4) snd_conv)
      have len: "Suc (length (contents q')) = length (contents q)"
        using length_shift [OF r(1)] q by simp
      then have size: "queue_size q' < queue_capacity q'"
        using assms inv unfolding cap by (auto simp: queue_inv_def max_def split: if_splits)
      have c: "contents q' = spec_shed gateRiskLevel (contents q)" "gateRiskLevel (last (contents q)) = r"
        using low q by simp_all
      have "enqueue x q = (None, push_bucket x q')"
        using False \<open>isFull q\<close> by (simp add: enqueue_def shed q)
      then show ?thesis
        using False full \<open>contents q \<noteq> []\<close> push_inv [OF inv size] push_refines [OF inv]
        by (simp add: spec_enqueue_def c store_simps cap)
    qed
  qed
qed

lemma dequeue_refines:
  assumes "queue_inv q"
  shows "queue_inv (snd (dequeue q)) \<and> queue_capacity (snd (dequeue q)) = queue_capacity q \<and>
    (fst (dequeue q), contents (snd (dequeue q))) = spec_dequeue (contents q)"
proof -
  have "queue_inv (snd (dequeue q)) \<and> queue_capacity (snd (dequeue q)) = queue_capacity q"
    using assms by (simp add: dequeue_cases shift_inv store_simps)
  moreover have "(fst (dequeue q), contents (snd (dequeue q))) = spec_dequeue (contents q)"
    using dequeue_contents [of q] by (auto split: prod.splits option.splits)
  ultimately show ?thesis by blast
qed

section \<open>The contract of a bounded priority buffer\<close>

datatype 'a queue_op = Enqueue 'a | Dequeue

fun run_queue :: "('a \<Rightarrow> 'q \<Rightarrow> 'a option \<times> 'q) \<Rightarrow> ('q \<Rightarrow> 'a option \<times> 'q) \<Rightarrow> 'a queue_op list \<Rightarrow> 'q
    \<Rightarrow> 'a option list \<times> 'q" where
  "run_queue enq deq [] q = ([], q)"
| "run_queue enq deq (Enqueue x # ops) q =
     (let (r, q') = enq x q; (rs, q'') = run_queue enq deq ops q' in (r # rs, q''))"
| "run_queue enq deq (Dequeue # ops) q =
     (let (r, q') = deq q; (rs, q'') = run_queue enq deq ops q' in (r # rs, q''))"

definition descending :: "('a \<Rightarrow> RiskLevel) \<Rightarrow> 'a list \<Rightarrow> bool" where
  "descending lvl xs = sorted_wrt (\<lambda>x y. lvl y \<le> lvl x) xs"

lemma descending_split:
  assumes "descending lvl xs"
  shows "\<forall>y \<in> set (dropWhile (\<lambda>y. l \<le> lvl y) xs). lvl y < l"
  using assms by (induction xs) (auto simp: descending_def)

lemma sorted_wrt_insert: "sorted_wrt R (us @ vs) \<Longrightarrow> \<forall>u \<in> set us. R u x \<Longrightarrow> \<forall>v \<in> set vs. R x v \<Longrightarrow>
    sorted_wrt R (us @ x # vs)"
  by (auto simp: sorted_wrt_append)

lemma find_after: "lvl v = l \<Longrightarrow> \<forall>u \<in> set us. l < lvl u \<Longrightarrow> find (\<lambda>y. lvl y = l) (us @ v # vs) = Some v"
  for l :: RiskLevel
  by (induction us) auto

lemma spec_insert_props:
  assumes "descending lvl xs"
  shows "descending lvl (spec_insert lvl x xs)" "mset (spec_insert lvl x xs) = add_mset x (mset xs)"
proof -
  let ?P = "\<lambda>y. lvl x \<le> lvl y"
  have s: "sorted_wrt (\<lambda>x y. lvl y \<le> lvl x) (takeWhile ?P xs @ dropWhile ?P xs)"
    using assms by (simp add: descending_def)
  have hi: "\<forall>y \<in> set (takeWhile ?P xs). lvl x \<le> lvl y" by (auto dest: set_takeWhileD)
  have lo: "\<forall>y \<in> set (dropWhile ?P xs). lvl y \<le> lvl x"
    using descending_split [OF assms, of "lvl x"] by (auto intro: less_imp_le)
  show "descending lvl (spec_insert lvl x xs)"
    unfolding descending_def spec_insert_def using hi lo by (intro sorted_wrt_insert s) auto
  have "mset (takeWhile ?P xs) + mset (dropWhile ?P xs) = mset xs"
    by (metis mset_append takeWhile_dropWhile_id)
  then show "mset (spec_insert lvl x xs) = add_mset x (mset xs)"
    by (simp add: spec_insert_def)
qed

text \<open>What is shed: the oldest of the lowest level.\<close>

lemma spec_shed_props:
  assumes "descending lvl xs" "xs \<noteq> []"
  shows "\<exists>v. mset xs = add_mset v (mset (spec_shed lvl xs)) \<and> lvl v = lvl (last xs)
    \<and> descending lvl (spec_shed lvl xs) \<and> (\<forall>y \<in> set xs. lvl v \<le> lvl y)
    \<and> find (\<lambda>y. lvl y = lvl (last xs)) xs = Some v"
proof -
  define l where "l = lvl (last xs)"
  define us where "us = takeWhile (\<lambda>y. l < lvl y) xs"
  have least: "l \<le> lvl y" if "y \<in> set xs" for y
    unfolding l_def using assms that by (induction xs) (auto simp: descending_def split: if_splits)
  obtain v vs where v: "dropWhile (\<lambda>y. l < lvl y) xs = v # vs"
    using last_in_set [OF assms(2)]
    by (cases "dropWhile (\<lambda>y. l < lvl y) xs") (auto simp: dropWhile_eq_Nil_conv l_def)
  then have nv: "\<not> l < lvl v" using hd_dropWhile [of "\<lambda>y. l < lvl y" xs] by auto
  have sp: "xs = us @ v # vs"
    using takeWhile_dropWhile_id [of "\<lambda>y. l < lvl y" xs] by (simp add: v us_def)
  then have lv: "lvl v = l" using nv least [of v] by simp
  have sh: "spec_shed lvl xs = us @ vs" by (simp add: spec_shed_def v us_def flip: l_def)
  have hi: "\<forall>u \<in> set us. l < lvl u" by (auto simp: us_def dest: set_takeWhileD)
  have "descending lvl (us @ v # vs)" using assms(1) sp by simp
  then have "descending lvl (us @ vs)" by (auto simp: descending_def sorted_wrt_append)
  moreover have "mset xs = add_mset v (mset (us @ vs))" by (simp add: sp)
  moreover have "find (\<lambda>y. lvl y = l) xs = Some v" using find_after [OF lv hi] by (simp add: sp)
  ultimately show ?thesis unfolding sh l_def [symmetric] using lv least by auto
qed

locale level_buffer =
  fixes lvl :: "'a \<Rightarrow> RiskLevel"
    and inv :: "'q \<Rightarrow> bool"
    and abs :: "'q \<Rightarrow> 'a list"
    and cap :: "'q \<Rightarrow> int"
    and enq :: "'a \<Rightarrow> 'q \<Rightarrow> 'a option \<times> 'q"
    and deq :: "'q \<Rightarrow> 'a option \<times> 'q"
  assumes enq_spec: "inv q \<Longrightarrow> inv (snd (enq x q)) \<and> cap (snd (enq x q)) = cap q \<and>
      (fst (enq x q), abs (snd (enq x q))) = spec_enqueue lvl (cap q) x (abs q)"
    and deq_spec: "inv q \<Longrightarrow> inv (snd (deq q)) \<and> cap (snd (deq q)) = cap q \<and>
      (fst (deq q), abs (snd (deq q))) = spec_dequeue (abs q)"
begin

text \<open>Every run of operations answers as the abstract queue does.\<close>

lemma run_refines:
  assumes "inv q"
  shows "inv (snd (run_queue enq deq ops q)) \<and> cap (snd (run_queue enq deq ops q)) = cap q \<and>
    (fst (run_queue enq deq ops q), abs (snd (run_queue enq deq ops q))) =
      run_queue (spec_enqueue lvl (cap q)) spec_dequeue ops (abs q)"
  using assms
proof (induction ops arbitrary: q)
  case Nil
  then show ?case by simp
next
  case (Cons op ops)
  show ?case
  proof (cases op)
    case (Enqueue x)
    obtain r q' where e: "enq x q = (r, q')" by (cases "enq x q")
    with enq_spec [OF Cons.prems, of x] have "inv q'" "cap q' = cap q"
      "spec_enqueue lvl (cap q) x (abs q) = (r, abs q')" by simp_all
    with Cons.IH [of q'] e Enqueue show ?thesis by (simp add: case_prod_beta prod_eq_iff)
  next
    case Dequeue
    obtain r q' where d: "deq q = (r, q')" by (cases "deq q")
    with deq_spec [OF Cons.prems] have "inv q'" "cap q' = cap q" "spec_dequeue (abs q) = (r, abs q')"
      by simp_all
    with Cons.IH [of q'] d Dequeue show ?thesis by (simp add: case_prod_beta prod_eq_iff)
  qed
qed

end

interpretation intake: level_buffer gateRiskLevel queue_inv contents queue_capacity enqueue dequeue
  by unfold_locales (use enqueue_refines dequeue_refines in blast)+

section \<open>What the intake queue does\<close>

text \<open>The queue after a sequence of operations on a new one.\<close>

abbreviation after_ops :: "int \<Rightarrow> QueuedSignalEvent queue_op list \<Rightarrow> PriorityIntakeQueue" where
  "after_ops capacity ops \<equiv> snd (run_queue enqueue dequeue ops (new_queue capacity))"

lemma after_ops_inv: "queue_inv (after_ops capacity ops)" "queue_capacity (after_ops capacity ops) = capacity"
  using intake.run_refines [OF new_queue_inv(1) [of capacity], of ops] by (simp_all add: new_queue_def)

lemma contents_descending: "queue_inv q \<Longrightarrow> descending gateRiskLevel (contents q)"
proof -
  assume "queue_inv q"
  note l = inv_levels [OF this]
  have "sorted_wrt (\<lambda>x y. gateRiskLevel y \<le> gateRiskLevel x) xs" if "\<forall>x \<in> set xs. gateRiskLevel x = r" for xs r
    using that by (induction xs) auto
  then show ?thesis
    using l [of CRITICAL] l [of HIGH] l [of MODERATE] l [of LOW]
    unfolding descending_def contents_def sorted_wrt_append
    by (auto simp: less_eq_RiskLevel_def)
qed

text \<open>C24. Refinement: for every capacity and every sequence of operations on a new queue, the class
  answers as the abstract queue does and ends with its contents, in the order of service. The size
  it keeps is the number of events it holds and never exceeds the capacity.\<close>

theorem queue_refinement:
  "(fst (run_queue enqueue dequeue ops (new_queue capacity)), contents (after_ops capacity ops)) =
      run_queue (spec_enqueue gateRiskLevel capacity) spec_dequeue ops [] \<and>
    currentSize (after_ops capacity ops) = int (length (contents (after_ops capacity ops))) \<and>
    currentSize (after_ops capacity ops) \<le> max 0 capacity \<and>
    descending gateRiskLevel (contents (after_ops capacity ops))"
proof (intro conjI)
  show "(fst (run_queue enqueue dequeue ops (new_queue capacity)), contents (after_ops capacity ops)) =
      run_queue (spec_enqueue gateRiskLevel capacity) spec_dequeue ops []"
    using intake.run_refines [OF new_queue_inv(1) [of capacity], of ops]
    by (simp add: new_queue_inv(2))
  show "currentSize (after_ops capacity ops) = int (length (contents (after_ops capacity ops)))"
    "currentSize (after_ops capacity ops) \<le> max 0 capacity"
    using after_ops_inv [of ops capacity] by (simp_all add: queue_inv_def currentSize_def)
  show "descending gateRiskLevel (contents (after_ops capacity ops))"
    by (rule contents_descending [OF after_ops_inv(1)])
qed

lemma drain_contents: "fst (drainInPriorityOrder q) = contents q \<and> contents (snd (drainInPriorityOrder q)) = []"
proof (induction q rule: drainInPriorityOrder.induct)
  case (1 q)
  obtain r q' where d: "dequeue q = (r, q')" by (cases "dequeue q")
  show ?case
  proof (cases r)
    case None
    with d dequeue_contents [of q] show ?thesis by (simp add: drainInPriorityOrder.simps [of q])
  next
    case (Some x)
    with d dequeue_contents [of q] 1 [OF d [symmetric] Some] show ?thesis
      by (simp add: drainInPriorityOrder.simps [of q] case_prod_beta)
  qed
qed

lemma spec_insert_filter:
  assumes "descending lvl xs"
  shows "filter (\<lambda>y. lvl y = r) (spec_insert lvl x xs) = filter (\<lambda>y. lvl y = r) xs @ (if lvl x = r then [x] else [])"
proof -
  let ?P = "\<lambda>y. lvl x \<le> lvl y"
  have lo: "filter (\<lambda>y. lvl y = r) (dropWhile ?P xs) = []" if "lvl x = r"
    using descending_split [OF assms, of "lvl x"] that by (auto simp: filter_empty_conv)
  have "filter (\<lambda>y. lvl y = r) (takeWhile ?P xs) @ filter (\<lambda>y. lvl y = r) (dropWhile ?P xs) = filter (\<lambda>y. lvl y = r) xs"
    by (metis filter_append takeWhile_dropWhile_id)
  then show ?thesis using lo by (auto simp: spec_insert_def)
qed

lemma spec_run_enqueues:
  assumes "descending lvl xs" "int (length xs + length items) \<le> cap"
  shows "\<exists>ys. snd (run_queue (spec_enqueue lvl cap) spec_dequeue (map Enqueue items) xs) = ys \<and>
    descending lvl ys \<and> mset ys = mset xs + mset items \<and>
    (\<forall>r. filter (\<lambda>y. lvl y = r) ys = filter (\<lambda>y. lvl y = r) xs @ filter (\<lambda>y. lvl y = r) items)"
  using assms
proof (induction items arbitrary: xs)
  case Nil
  then show ?case by simp
next
  case (Cons x items)
  let ?xs = "spec_insert lvl x xs"
  note p = spec_insert_props [OF Cons.prems(1), of x]
  then have len: "length ?xs = Suc (length xs)" by (metis size_add_mset size_mset)
  have "spec_enqueue lvl cap x xs = (None, ?xs)" using Cons.prems(2) by (simp add: spec_enqueue_def)
  then show ?case
    using Cons.IH [OF p(1)] Cons.prems(2) len p(2) spec_insert_filter [OF Cons.prems(1), of _ x]
    by (simp add: case_prod_beta)
qed

text \<open>Draining: while the queue has room for all events, they come out exactly once, those of
  higher level first and those of one level in the order of their arrival, and the queue is empty
  afterwards.\<close>

theorem drain_order:
  assumes "int (length items) \<le> capacity"
  shows "mset (fst (drainInPriorityOrder (after_ops capacity (map Enqueue items)))) = mset items \<and>
    sorted_wrt (\<lambda>x y. gateRiskLevel y \<le> gateRiskLevel x) (fst (drainInPriorityOrder (after_ops capacity (map Enqueue items)))) \<and>
    (\<forall>r. filter (\<lambda>x. gateRiskLevel x = r) (fst (drainInPriorityOrder (after_ops capacity (map Enqueue items)))) =
       filter (\<lambda>x. gateRiskLevel x = r) items) \<and>
    contents (snd (drainInPriorityOrder (after_ops capacity (map Enqueue items)))) = []"
proof -
  have "contents (after_ops capacity (map Enqueue items)) =
    snd (run_queue (spec_enqueue gateRiskLevel capacity) spec_dequeue (map Enqueue items) [])"
    using intake.run_refines [OF new_queue_inv(1) [of capacity], of "map Enqueue items"]
    by (simp add: new_queue_inv(2) prod_eq_iff)
  then show ?thesis
    using spec_run_enqueues [of gateRiskLevel "[]" items capacity] assms
    by (simp add: drain_contents descending_def)
qed

definition queued_as :: "string \<Rightarrow> RiskLevel \<Rightarrow> QueuedSignalEvent" where
  "queued_as i r = \<lparr>queued_event = \<lparr>signalId = i, source = TICKET_SCANNER, gateId = Some ''g'', routeId = None,
     timestamp = toISOString 0, receivedAt = toISOString 0, payload = TicketScanBody \<lparr>scan_fanId = ''f''\<rparr>,
     isStale = False, lateArrivalFlag = False\<rparr>, gateRiskLevel = r, enqueuedAt = 0\<rparr>"

lemma gateRiskLevel_queued_as: "gateRiskLevel (queued_as i r) = r"
  by (simp add: queued_as_def)

lemma drain_order_witness:
  "filter (\<lambda>x. gateRiskLevel x = LOW) (fst (drainInPriorityOrder (after_ops 3
      (map Enqueue [queued_as ''1'' LOW, queued_as ''2'' CRITICAL, queued_as ''3'' LOW]))))
    = [queued_as ''1'' LOW, queued_as ''3'' LOW]"
  using drain_order [of "[queued_as ''1'' LOW, queued_as ''2'' CRITICAL, queued_as ''3'' LOW]" 3]
  by (simp add: queued_as_def)

text \<open>C26. Overload: in every state the queue can reach, a full queue answers an incoming event in one
  of two ways. Either nothing it holds has a lower level, then the incoming event is dropped and
  returned and nothing else changes. Or one event leaves, the oldest of the lowest level it
  holds, which is lower than the incoming one's, and the incoming event is taken; that event is
  not returned. A queue with room loses nothing.\<close>

theorem overload_sheds_lowest:
  assumes "q = after_ops capacity ops"
  shows "if isFull q then
      (enqueue x q = (Some x, q) \<and> (\<forall>y \<in> set (contents q). gateRiskLevel x \<le> gateRiskLevel y)) \<or>
      (\<exists>v q'. enqueue x q = (None, q') \<and> gateRiskLevel v < gateRiskLevel x \<and>
        (\<forall>y \<in> set (contents q). gateRiskLevel v \<le> gateRiskLevel y) \<and>
        find (\<lambda>y. gateRiskLevel y = gateRiskLevel v) (contents q) = Some v \<and>
        mset (contents q') + {#v#} = mset (contents q) + {#x#})
    else \<exists>q'. enqueue x q = (None, q') \<and> mset (contents q') = mset (contents q) + {#x#}"
proof -
  have inv: "queue_inv q" using assms after_ops_inv by simp
  note d = contents_descending [OF inv]
  have e: "(fst (enqueue x q), contents (snd (enqueue x q))) =
      spec_enqueue gateRiskLevel (queue_capacity q) x (contents q)"
    using enqueue_refines [OF inv, of x] by simp
  have full: "isFull q \<longleftrightarrow> \<not> int (length (contents q)) < queue_capacity q"
    using inv by (simp add: isFull_def queue_inv_def not_less)
  show ?thesis
  proof (cases "isFull q")
    case False
    with e full spec_insert_props(2) [OF d, of x] show ?thesis
      by (intro if_not_P [THEN iffD2] exI [of _ "snd (enqueue x q)"]) (simp_all add: spec_enqueue_def prod_eq_iff)
  next
    case True
    show ?thesis
    proof (cases "contents q = [] \<or> gateRiskLevel x \<le> gateRiskLevel (last (contents q))")
      case True
      then have "shedLowestPriority (gateRiskLevel x) q = (None, q)"
        using shed_empty lowest_bucket [of q] shed_eq shift_lowest_refines(2) [OF inv] by metis
      then have "enqueue x q = (Some x, q)" using \<open>isFull q\<close> by (simp add: enqueue_def)
      moreover have "\<forall>y \<in> set (contents q). gateRiskLevel x \<le> gateRiskLevel y"
        using True spec_shed_props [OF d] by (cases "contents q = []") (auto intro: order_trans)
      ultimately show ?thesis using \<open>isFull q\<close> by simp
    next
      case False
      then obtain v where v: "mset (contents q) = add_mset v (mset (spec_shed gateRiskLevel (contents q)))"
        "gateRiskLevel v = gateRiskLevel (last (contents q))"
        "descending gateRiskLevel (spec_shed gateRiskLevel (contents q))"
        "\<forall>y \<in> set (contents q). gateRiskLevel v \<le> gateRiskLevel y"
        "find (\<lambda>y. gateRiskLevel y = gateRiskLevel (last (contents q))) (contents q) = Some v"
        using spec_shed_props [OF d] by blast
      have "fst (enqueue x q) = None"
        "contents (snd (enqueue x q)) = spec_insert gateRiskLevel x (spec_shed gateRiskLevel (contents q))"
        using e True full False by (simp_all add: spec_enqueue_def)
      moreover from this(2) have "mset (contents (snd (enqueue x q))) + {#v#} = mset (contents q) + {#x#}"
        using spec_insert_props(2) [OF v(3), of x] v(1) by simp
      ultimately have "\<exists>v q'. enqueue x q = (None, q') \<and> gateRiskLevel v < gateRiskLevel x \<and>
        (\<forall>y \<in> set (contents q). gateRiskLevel v \<le> gateRiskLevel y) \<and>
        find (\<lambda>y. gateRiskLevel y = gateRiskLevel v) (contents q) = Some v \<and>
        mset (contents q') + {#v#} = mset (contents q) + {#x#}"
        using False v(2,4,5)
        by (intro exI [of _ v] exI [of _ "snd (enqueue x q)"]) (simp add: prod_eq_iff not_le)
      with True show ?thesis by simp
    qed
  qed
qed

lemma overload_sheds_lowest_witness:
  "\<exists>q'. enqueue (queued_as ''3'' HIGH) (after_ops 2 [Enqueue (queued_as ''1'' LOW), Enqueue (queued_as ''2'' LOW)]) = (None, q')
    \<and> mset (contents q') = {#queued_as ''2'' LOW, queued_as ''3'' HIGH#}"
proof -
  let ?q = "after_ops 2 [Enqueue (queued_as ''1'' LOW), Enqueue (queued_as ''2'' LOW)]"
  have c: "contents ?q = [queued_as ''1'' LOW, queued_as ''2'' LOW]" "isFull ?q"
    by (simp_all add: new_queue_def enqueue_def isFull_def push_bucket_def queued_as_def contents_def bucket_def get_or_def)
  show ?thesis
    using overload_sheds_lowest [OF refl, where x = "queued_as ''3'' HIGH" and capacity = 2
        and ops = "[Enqueue (queued_as ''1'' LOW), Enqueue (queued_as ''2'' LOW)]"]
    unfolding c(1) if_P [OF c(2)]
    by (auto simp: gateRiskLevel_queued_as less_eq_RiskLevel_def simp del: run_queue.simps split: if_splits)
qed

end
