(* ===== verification/ForecastService.thy ===== *)
theory ForecastService
  imports Forecast RedisStore
begin

text \<open>
  The service around the forecasting function: \<open>src/congestion-forecaster/fallback.ts\<close>,
  \<open>scheduler.ts\<close> and \<open>api.ts\<close>. Which side wins the race against the computation deadline is
  an argument; the window provider and the publisher of the scheduler are arguments too.
\<close>

section \<open>The deadline fallback\<close>

datatype race_outcome = Computed | TimedOut

definition mark_outdated :: "CongestionScorePoint \<Rightarrow> CongestionScorePoint" where
  "mark_outdated p = p\<lparr>outdated := True\<rparr>"

definition computeForecastWithFallback ::
  "race_outcome \<Rightarrow> Gate \<Rightarrow> SignalEvent list \<Rightarrow> int \<Rightarrow> RedisState \<Rightarrow> (js_error + ForecastResult) \<times> RedisState" where
  "computeForecastWithFallback race gate window now redis =
     (case race of
        TimedOut \<Rightarrow>
          (case getLastKnownScore (gate_id gate) redis of
             Some lastKnown \<Rightarrow>
               (let outdatedPoint = mark_outdated lastKnown
                in (Inr \<lparr>scores = [outdatedPoint], lowConfidence = point_lowConfidence outdatedPoint\<rparr>, redis))
           | None \<Rightarrow>
               (case computeForecast gate [] now of
                  Inl e \<Rightarrow> (Inl e, redis)
                | Inr defaultResult \<Rightarrow>
                    (Inr \<lparr>scores = map mark_outdated (scores defaultResult), lowConfidence = True\<rparr>, redis)))
      | Computed \<Rightarrow>
          (case computeForecast gate window now of
             Inl e \<Rightarrow> (Inl e, redis)
           | Inr result \<Rightarrow>
               (case head_opt (scores result) of
                  Some currentPoint \<Rightarrow> (Inr result, setLastKnownScore (gate_id gate) currentPoint redis)
                | None \<Rightarrow> (Inr result, redis))))"

lemma lastKnown_set [store_simps]:
  "getLastKnownScore g (setLastKnownScore g' p r) = (if g = g' then Some p else getLastKnownScore g r)"
  by (simp add: getLastKnownScore_def setLastKnownScore_def store_simps)

text \<open>The deadline fallback: a recompute in time returns the forecast and remembers its current
  point for the gate and for no other gate; a recompute of that gate that later misses the
  deadline returns exactly that point, flagged outdated, whatever its window. Without a remembered
  point it returns the forecast of an empty window with score 0 and level \<open>LOW\<close> everywhere,
  flagged outdated and low-confidence. A missed deadline changes no remembered point.\<close>

theorem fallback_last_known:
  assumes "proper_capacity gate" "\<forall>e \<in> set window. well_typed_event e"
    and "computeForecastWithFallback Computed gate window now redis = (res, redis')"
  shows "\<exists>r p ps. computeForecast gate window now = Inr r \<and> res = Inr r \<and> scores r = p # ps \<and>
    computeForecastWithFallback TimedOut gate w' now' redis' =
      (Inr \<lparr>scores = [p\<lparr>outdated := True\<rparr>], lowConfidence = point_lowConfidence p\<rparr>, redis') \<and>
    (\<forall>g. g \<noteq> gate_id gate \<longrightarrow> getLastKnownScore g redis' = getLastKnownScore g redis) \<and>
    (getLastKnownScore (gate_id gate) redis = None \<longrightarrow>
      (\<exists>d. computeForecastWithFallback TimedOut gate window now redis = (Inr d, redis) \<and> lowConfidence d \<and>
        map offsetMinutes (scores d) = [0, 5, 10, 15] \<and>
        (\<forall>q \<in> set (scores d). score q = Fin 0 \<and> riskLevel q = LOW \<and> outdated q)))"
proof -
  obtain r p ps where r: "computeForecast gate window now = Inr r" "scores r = p # ps"
    using computeForecast_eq [OF assms(1,2), of now] by (simp add: FORECAST_OFFSETS_MINUTES_def)
  then have s: "res = Inr r" "redis' = setLastKnownScore (gate_id gate) p redis"
    using assms(3) by (simp_all add: computeForecastWithFallback_def)
  have empty: "\<forall>e \<in> set []. well_typed_event e" by simp
  have zero: "baseScore gate (totalIncomingCount []) = Fin 0"
    using capacity_divisor [OF assms(1)]
    by (auto simp: baseScore_def totalIncomingCount_def clampScore_def js_max_def js_min_def)
  have off: "offset_score (Fin 0) k = Fin 0" if "horizon_offset k" for k
    using that by (simp add: offset_score_def growth_factor_rat clampScore_def js_max_def js_min_def)
  have "\<exists>d. computeForecastWithFallback TimedOut gate window now redis = (Inr d, redis) \<and> lowConfidence d \<and>
        map offsetMinutes (scores d) = [0, 5, 10, 15] \<and>
        (\<forall>q \<in> set (scores d). score q = Fin 0 \<and> riskLevel q = LOW \<and> outdated q)"
    if "getLastKnownScore (gate_id gate) redis = None"
    using that unfolding computeForecastWithFallback_def computeForecast_eq [OF assms(1) empty]
    by (simp add: nonStaleRecent_def zero FORECAST_OFFSETS_MINUTES_def expected_point_def mark_outdated_def
        off horizon_offset_cases level_of_def)
  then show ?thesis
    using r s by (simp add: computeForecastWithFallback_def store_simps mark_outdated_def)
qed

lemma fallback_last_known_witness:
  "\<exists>r p ps. computeForecast demo_gate [demo_event] 2000 = Inr r \<and> scores r = p # ps \<and>
    computeForecastWithFallback TimedOut demo_gate [] 99000 (snd (computeForecastWithFallback Computed demo_gate [demo_event] 2000 empty_redis)) =
      (Inr \<lparr>scores = [p\<lparr>outdated := True\<rparr>], lowConfidence = point_lowConfidence p\<rparr>,
        snd (computeForecastWithFallback Computed demo_gate [demo_event] 2000 empty_redis))"
proof -
  have "\<forall>e \<in> set [demo_event]. well_typed_event e" by (simp add: demo_hyps)
  from fallback_last_known [OF demo_hyps(1) this surjective_pairing, of 2000 empty_redis "[]" 99000]
  show ?thesis by blast
qed

section \<open>The scheduler\<close>

text \<open>The timers of the runtime are part of the state: \<open>setInterval\<close> starts a timer under a fresh
  handle, \<open>clearInterval\<close> stops it.\<close>

definition SCHEDULED_TICK_INTERVAL_MS :: int where
  "SCHEDULED_TICK_INTERVAL_MS = 30000"

definition EVENT_TRIGGERED_RECOMPUTE_BUDGET_MS :: int where
  "EVENT_TRIGGERED_RECOMPUTE_BUDGET_MS = 5000"

record interval_timer =
  timer_gate :: Gate
  timer_ms :: int

record ForecastScheduler =
  intervalHandles :: "(GateId, nat) jsmap"
  running_timers :: "(nat, interval_timer) jsmap"
  next_handle :: nat

definition new_scheduler :: ForecastScheduler where
  "new_scheduler = \<lparr>intervalHandles = [], running_timers = [], next_handle = 0\<rparr>"

definition setInterval :: "interval_timer \<Rightarrow> ForecastScheduler \<Rightarrow> nat \<times> ForecastScheduler" where
  "setInterval t s = (next_handle s,
     s\<lparr>running_timers := AList.update (next_handle s) t (running_timers s), next_handle := Suc (next_handle s)\<rparr>)"

definition clearInterval :: "nat \<Rightarrow> ForecastScheduler \<Rightarrow> ForecastScheduler" where
  "clearInterval h s = s\<lparr>running_timers := AList.delete h (running_timers s)\<rparr>"

definition stopScheduledTicks :: "GateId \<Rightarrow> ForecastScheduler \<Rightarrow> ForecastScheduler" where
  "stopScheduledTicks g s =
     (case map_of (intervalHandles s) g of
        Some existing \<Rightarrow> (let s1 = clearInterval existing s
          in s1\<lparr>intervalHandles := AList.delete g (intervalHandles s1)\<rparr>)
      | None \<Rightarrow> s)"

definition startScheduledTicks :: "Gate \<Rightarrow> int \<Rightarrow> ForecastScheduler \<Rightarrow> ForecastScheduler" where
  "startScheduledTicks gate tickIntervalMs s =
     (let s1 = stopScheduledTicks (gate_id gate) s;
          (handle, s2) = setInterval \<lparr>timer_gate = gate, timer_ms = tickIntervalMs\<rparr> s1
      in s2\<lparr>intervalHandles := AList.update (gate_id gate) handle (intervalHandles s2)\<rparr>)"

text \<open>One recompute: read the window, compute, publish. An exception ends it before publishing. The
  publisher acts on the whole state, the redis client included.\<close>

definition recompute ::
  "(GateId \<Rightarrow> 's \<Rightarrow> SignalEvent list) \<Rightarrow> (Gate \<Rightarrow> ForecastResult \<Rightarrow> RedisState \<times> 's \<Rightarrow> RedisState \<times> 's)
    \<Rightarrow> race_outcome \<Rightarrow> Gate \<Rightarrow> int \<Rightarrow> RedisState \<times> 's \<Rightarrow> js_error option \<times> RedisState \<times> 's" where
  "recompute getWindowForGate publishForecast race gate now st =
     (let window = getWindowForGate (gate_id gate) (snd st)
      in case computeForecastWithFallback race gate window now (fst st) of
           (Inl e, redis') \<Rightarrow> (Some e, redis', snd st)
         | (Inr result, redis') \<Rightarrow> (None, publishForecast gate result (redis', snd st)))"

definition onSignalEventForGate ::
  "(GateId \<Rightarrow> 's \<Rightarrow> SignalEvent list) \<Rightarrow> (Gate \<Rightarrow> ForecastResult \<Rightarrow> RedisState \<times> 's \<Rightarrow> RedisState \<times> 's)
    \<Rightarrow> race_outcome \<Rightarrow> Gate \<Rightarrow> int \<Rightarrow> RedisState \<times> 's \<Rightarrow> js_error option \<times> RedisState \<times> 's" where
  "onSignalEventForGate getWindowForGate publishForecast race gate now st =
     recompute getWindowForGate publishForecast race gate now st"

datatype scheduler_op = Start Gate int | Stop GateId

inductive scheduler_reachable :: "ForecastScheduler \<Rightarrow> bool" where
  init: "scheduler_reachable new_scheduler"
| start: "scheduler_reachable s \<Longrightarrow> scheduler_reachable (startScheduledTicks gate ms s)"
| stop: "scheduler_reachable s \<Longrightarrow> scheduler_reachable (stopScheduledTicks g s)"

text \<open>The handles are exactly the running timers, one for each gate that has one.\<close>

definition scheduler_inv :: "ForecastScheduler \<Rightarrow> bool" where
  "scheduler_inv s = ((\<forall>g h. map_of (intervalHandles s) g = Some h \<longrightarrow>
        (\<exists>t. map_of (running_timers s) h = Some t \<and> gate_id (timer_gate t) = g)) \<and>
     (\<forall>h t. map_of (running_timers s) h = Some t \<longrightarrow>
        h < next_handle s \<and> map_of (intervalHandles s) (gate_id (timer_gate t)) = Some h))"

lemma stop_inv: "scheduler_inv s \<Longrightarrow> scheduler_inv (stopScheduledTicks g s)"
  by (auto simp: scheduler_inv_def stopScheduledTicks_def clearInterval_def Let_def store_simps
      split: option.splits) (metis option.inject)+

lemma stop_removes: "map_of (intervalHandles (stopScheduledTicks g s)) g = None"
  by (auto simp: stopScheduledTicks_def clearInterval_def Let_def store_simps split: option.splits)

lemma set_inv:
  assumes "scheduler_inv s" "map_of (intervalHandles s) (gate_id gate) = None"
  shows "scheduler_inv (s\<lparr>running_timers := AList.update (next_handle s) \<lparr>timer_gate = gate, timer_ms = ms\<rparr> (running_timers s),
    next_handle := Suc (next_handle s), intervalHandles := AList.update (gate_id gate) (next_handle s) (intervalHandles s)\<rparr>)"
  using assms by (auto simp: scheduler_inv_def store_simps less_Suc_eq split: if_splits) fastforce+

lemma start_inv: "scheduler_inv s \<Longrightarrow> scheduler_inv (startScheduledTicks gate ms s)"
  using set_inv [OF stop_inv stop_removes] by (simp add: startScheduledTicks_def setInterval_def Let_def)

lemma reachable_inv: "scheduler_reachable s \<Longrightarrow> scheduler_inv s"
proof (induction rule: scheduler_reachable.induct)
  case init
  then show ?case by (simp add: scheduler_inv_def new_scheduler_def)
qed (simp_all add: stop_inv start_inv)

text \<open>In every state the scheduler can reach by starting and stopping ticks of any gates, a gate
  has at most one running timer, the one under its handle; starting ticks leaves exactly one, with
  the new gate record and interval, and stopping leaves none.\<close>

theorem one_timer_per_gate:
  assumes "scheduler_reachable s"
  shows "(\<forall>h h' t t'. map_of (running_timers s) h = Some t \<and> map_of (running_timers s) h' = Some t' \<and>
      gate_id (timer_gate t) = gate_id (timer_gate t') \<longrightarrow> h = h' \<and> t = t') \<and>
    (\<forall>h t. map_of (running_timers (startScheduledTicks gate ms s)) h = Some t \<and>
      gate_id (timer_gate t) = gate_id gate \<longrightarrow> t = \<lparr>timer_gate = gate, timer_ms = ms\<rparr>) \<and>
    (\<exists>h. map_of (running_timers (startScheduledTicks gate ms s)) h = Some \<lparr>timer_gate = gate, timer_ms = ms\<rparr>) \<and>
    (\<forall>h t. map_of (running_timers (stopScheduledTicks g s)) h = Some t \<longrightarrow> gate_id (timer_gate t) \<noteq> g)"
proof -
  note i = reachable_inv [OF assms]
  have uniq: "h = h'" if "scheduler_inv s'" "map_of (running_timers s') h = Some t" "map_of (running_timers s') h' = Some t'"
    "gate_id (timer_gate t) = gate_id (timer_gate t')" for s' h h' t t'
    using that by (metis option.inject scheduler_inv_def)
  have new: "map_of (running_timers (startScheduledTicks gate ms s)) (next_handle (stopScheduledTicks (gate_id gate) s)) =
    Some \<lparr>timer_gate = gate, timer_ms = ms\<rparr>"
    by (simp add: startScheduledTicks_def setInterval_def Let_def store_simps)
  have "t = \<lparr>timer_gate = gate, timer_ms = ms\<rparr>"
    if "map_of (running_timers (startScheduledTicks gate ms s)) h = Some t" "gate_id (timer_gate t) = gate_id gate" for h t
    using uniq [OF start_inv [OF i] that(1) new] that new by simp
  moreover have "gate_id (timer_gate t) \<noteq> g" if "map_of (running_timers (stopScheduledTicks g s)) h = Some t" for h t
    using stop_inv [OF i, of g] stop_removes [of g s] that unfolding scheduler_inv_def by (metis option.distinct(1))
  ultimately show ?thesis using uniq [OF i] new by (metis option.inject)
qed

lemma one_timer_per_gate_witness:
  "(\<exists>h. map_of (running_timers (startScheduledTicks demo_gate 30000 (startScheduledTicks demo_gate 10000 new_scheduler))) h
      = Some \<lparr>timer_gate = demo_gate, timer_ms = 30000\<rparr>) \<and>
   \<not> (\<exists>h. map_of (running_timers (startScheduledTicks demo_gate 30000 (startScheduledTicks demo_gate 10000 new_scheduler))) h
      = Some \<lparr>timer_gate = demo_gate, timer_ms = 10000\<rparr>)"
  using one_timer_per_gate [OF scheduler_reachable.start [OF scheduler_reachable.init], of demo_gate 10000 demo_gate 30000]
  by fastforce

section \<open>The forecast API\<close>

record GateForecastResponse =
  resp_gateId :: GateId
  resp_scores :: "CongestionScorePoint list"
  resp_riskLevel :: RiskLevel
  resp_lowConfidence :: bool
  resp_outdated :: bool

definition getForecast :: "(GateId \<Rightarrow> CongestionScorePoint list option) \<Rightarrow> GateId \<Rightarrow> GateForecastResponse option" where
  "getForecast getLatestForecast gate =
     (case getLatestForecast gate of
        None \<Rightarrow> None
      | Some pts \<Rightarrow>
          (case head_opt pts of
             None \<Rightarrow> None
           | Some current \<Rightarrow> Some \<lparr>resp_gateId = gate, resp_scores = pts, resp_riskLevel = riskLevel current,
               resp_lowConfidence = list_ex point_lowConfidence pts, resp_outdated = list_ex outdated pts\<rparr>))"

end
