(* ===== verification/RedisClient.thy ===== *)
theory RedisClient
  imports RedisStore
begin

text \<open>
  \<open>src/infra/redis-client.ts\<close>: the production wrapper, which keeps the four kinds of entries in
  one key space and tells them apart by a prefix. The client library is not part of the repository: its \<open>GET\<close>,
  \<open>SET\<close> and \<open>SET ... PX\<close> are arguments, and so are \<open>JSON.stringify\<close> and \<open>JSON.parse\<close> of a
  cached score. The locale \<open>redis_client\<close> says what is relied on of the client, and its
  lemmas how long the wrapper then remembers what was written.
\<close>

section \<open>Keys\<close>

definition COOLDOWN_KEY_PREFIX :: string where
  "COOLDOWN_KEY_PREFIX = ''cooldown''"

definition DEGRADED_SOURCE_KEY_PREFIX :: string where
  "DEGRADED_SOURCE_KEY_PREFIX = ''degraded-source''"

definition LAST_KNOWN_SCORE_KEY_PREFIX :: string where
  "LAST_KNOWN_SCORE_KEY_PREFIX = ''last-known-score''"

definition cooldownKey :: "FanId \<Rightarrow> GateId \<Rightarrow> string" where
  "cooldownKey fan gate = join_key COOLDOWN_KEY_PREFIX (join_key gate fan)"

definition degradedSourceKey :: "string \<Rightarrow> string \<Rightarrow> string" where
  "degradedSourceKey sourceType gateOrRouteId =
     join_key DEGRADED_SOURCE_KEY_PREFIX (join_key sourceType gateOrRouteId)"

definition lastKnownScoreKey :: "GateId \<Rightarrow> string" where
  "lastKnownScoreKey gate = join_key LAST_KNOWN_SCORE_KEY_PREFIX gate"

definition rejectionKey :: "RouteId \<Rightarrow> GateId \<Rightarrow> string" where
  "rejectionKey route alternativeGate = join_key ''redirection-rejection'' (join_key route alternativeGate)"

section \<open>The methods\<close>

type_synonym 's client_get = "string \<Rightarrow> int \<Rightarrow> 's \<Rightarrow> string option \<times> 's"
type_synonym 's client_set_px = "string \<Rightarrow> string \<Rightarrow> int \<Rightarrow> int \<Rightarrow> 's \<Rightarrow> 's"
type_synonym 's client_set = "string \<Rightarrow> string \<Rightarrow> 's \<Rightarrow> 's"

definition rc_getLastNudgeAt :: "'s client_get \<Rightarrow> FanId \<Rightarrow> GateId \<Rightarrow> int \<Rightarrow> 's \<Rightarrow> int option option \<times> 's" where
  "rc_getLastNudgeAt get fan gate now s =
     (let (value, s') = get (cooldownKey fan gate) now s
      in (if truthy_str value then map_option date_parse value else None, s'))"

definition rc_setLastNudgeAt :: "'s client_set_px \<Rightarrow> FanId \<Rightarrow> GateId \<Rightarrow> int \<Rightarrow> int \<Rightarrow> int \<Rightarrow> 's \<Rightarrow> 's" where
  "rc_setLastNudgeAt set_px fan gate generatedAt cooldownPeriodMs now s =
     set_px (cooldownKey fan gate) (toISOString generatedAt) cooldownPeriodMs now s"

definition rc_touchSource :: "'s client_set_px \<Rightarrow> string \<Rightarrow> string \<Rightarrow> int \<Rightarrow> int \<Rightarrow> 's \<Rightarrow> 's" where
  "rc_touchSource set_px sourceType gateOrRouteId timeoutMs now s =
     set_px (degradedSourceKey sourceType gateOrRouteId) ''1'' timeoutMs now s"

definition rc_isSourceDegraded :: "'s client_get \<Rightarrow> string \<Rightarrow> string \<Rightarrow> int \<Rightarrow> 's \<Rightarrow> bool \<times> 's" where
  "rc_isSourceDegraded get sourceType gateOrRouteId now s =
     (let (value, s') = get (degradedSourceKey sourceType gateOrRouteId) now s in (value = None, s'))"

definition rc_getLastKnownScore ::
  "(string \<Rightarrow> CongestionScorePoint) \<Rightarrow> 's client_get \<Rightarrow> GateId \<Rightarrow> int \<Rightarrow> 's \<Rightarrow> CongestionScorePoint option \<times> 's" where
  "rc_getLastKnownScore parse get gate now s =
     (let (value, s') = get (lastKnownScoreKey gate) now s
      in (if truthy_str value then map_option parse value else None, s'))"

definition rc_setLastKnownScore ::
  "(CongestionScorePoint \<Rightarrow> string) \<Rightarrow> 's client_set \<Rightarrow> GateId \<Rightarrow> CongestionScorePoint \<Rightarrow> 's \<Rightarrow> 's" where
  "rc_setLastKnownScore stringify set_plain gate point s = set_plain (lastKnownScoreKey gate) (stringify point) s"

definition rc_recordRejection :: "'s client_set_px \<Rightarrow> RouteId \<Rightarrow> GateId \<Rightarrow> int \<Rightarrow> int \<Rightarrow> 's \<Rightarrow> 's" where
  "rc_recordRejection set_px route alternativeGate suppressionMs now s =
     set_px (rejectionKey route alternativeGate) ''1'' suppressionMs now s"

definition rc_isRejectionSuppressed :: "'s client_get \<Rightarrow> RouteId \<Rightarrow> GateId \<Rightarrow> int \<Rightarrow> 's \<Rightarrow> bool \<times> 's" where
  "rc_isRejectionSuppressed get route alternativeGate now s =
     (let (value, s') = get (rejectionKey route alternativeGate) now s in (value \<noteq> None, s'))"

section \<open>One key space for all kinds of entries\<close>

datatype redis_key = CooldownKey FanId GateId | SourceKey SignalSource string | ScoreKey GateId
  | RejectionKey RouteId GateId

fun key_text :: "redis_key \<Rightarrow> string" where
  "key_text (CooldownKey f g) = cooldownKey f g"
| "key_text (SourceKey s i) = degradedSourceKey (source_string s) i"
| "key_text (ScoreKey g) = lastKnownScoreKey g"
| "key_text (RejectionKey r g) = rejectionKey r g"

fun key_ok :: "redis_key \<Rightarrow> bool" where
  "key_ok (CooldownKey f g) = no_colon g"
| "key_ok (SourceKey s i) = True"
| "key_ok (ScoreKey g) = True"
| "key_ok (RejectionKey r g) = no_colon r"

lemmas key_defs = cooldownKey_def degradedSourceKey_def lastKnownScoreKey_def rejectionKey_def
  COOLDOWN_KEY_PREFIX_def DEGRADED_SOURCE_KEY_PREFIX_def LAST_KNOWN_SCORE_KEY_PREFIX_def

lemma prefix_no_colon [simp]: "no_colon ''cooldown''" "no_colon ''degraded-source''"
  "no_colon ''last-known-score''" "no_colon ''redirection-rejection''"
  by (simp_all add: no_colon_def)

lemma key_text_inj: "key_ok k \<Longrightarrow> key_ok k' \<Longrightarrow> key_text k = key_text k' \<longleftrightarrow> k = k'"
  by (cases k; cases k') (auto simp: key_defs join_key_inj)

text \<open>What the client library documents of \<open>GET\<close> and of \<open>SET key value PX ms\<close>, whose time must be positive, while
  no command fails and no key is evicted: a value is read until its time is over, and no more when that is longer ago than the
  precision of Redis, a millisecond; in between, at the moment of the expiry included, it may be there or not. Keys are
  independent, and reading changes nothing that is read later.\<close>

locale redis_client =
  fixes set_px :: "'s client_set_px" and get :: "'s client_get"
  assumes set_live: "0 < ttl \<Longrightarrow> now \<le> t \<Longrightarrow> t < now + ttl \<Longrightarrow> fst (get k t (set_px k v ttl now s)) = Some v"
    and set_gone: "0 < ttl \<Longrightarrow> now + ttl + 1 < t \<Longrightarrow> fst (get k t (set_px k v ttl now s)) = None"
    and set_edge: "0 < ttl \<Longrightarrow> now \<le> t \<Longrightarrow> fst (get k t (set_px k v ttl now s)) \<in> {None, Some v}"
    and set_other: "0 < ttl \<Longrightarrow> k \<noteq> k' \<Longrightarrow> fst (get k t (set_px k' v ttl now s)) = fst (get k t s)"
    and get_later: "t' \<le> t \<Longrightarrow> fst (get k t (snd (get k' t' s))) = fst (get k t s)"

text \<open>A client that drops its entries exactly at their expiry, as the in-memory maps do, is a special case.\<close>

locale exact_client = expiring_store "\<lambda>k :: string. True" "\<lambda>v :: string. v" set_px get
  for set_px :: "'s client_set_px" and get :: "'s client_get"

sublocale exact_client \<subseteq> redis_client set_px get
  by unfold_locales (auto simp: get_put_same get_put_other get_get)

interpretation mock_client: exact_client setExpiring getIfNotExpired
  using mock_map.expiring_store_axioms by (simp add: exact_client_def id_def)

text \<open>The keys of the four kinds of entries never coincide, and within a kind they tell all
  entries apart, provided that the id written before the last colon (the gate of a cooldown, the
  route of a rejection) has no colon itself.\<close>

theorem redis_keys_distinct:
  assumes "key_ok k" "key_ok k'"
  shows "key_text k = key_text k' \<longleftrightarrow> k = k'"
  using assms by (rule key_text_inj)

lemma redis_keys_distinct_witness:
  "key_text (CooldownKey ''fan:1'' ''gate-a'') \<noteq> key_text (RejectionKey ''gate-a'' ''fan:1'')"
  using redis_keys_distinct [of "CooldownKey ''fan:1'' ''gate-a''" "RejectionKey ''gate-a'' ''fan:1''"]
  by (simp add: no_colon_def)

text \<open>Without the proviso two pairs share a cooldown.\<close>

lemma cooldown_keys_collide: "cooldownKey ''c'' ''a:b'' = cooldownKey ''b:c'' ''a''"
  by (simp add: key_defs join_key_def)

text \<open>A nudge, a sign of life and a rejection written through the wrapper are there until their period is over and gone
  a millisecond after it at the latest.\<close>

context redis_client
begin

lemma wrapper_cooldown:
  assumes "0 < ttl" "now \<le> t"
  shows "t < now + ttl \<Longrightarrow> fst (rc_getLastNudgeAt get f g t (rc_setLastNudgeAt set_px f g gen ttl now s)) = Some (date_parse (toISOString gen))"
    "now + ttl + 1 < t \<Longrightarrow> fst (rc_getLastNudgeAt get f g t (rc_setLastNudgeAt set_px f g gen ttl now s)) = None"
  using assms by (simp_all add: rc_getLastNudgeAt_def rc_setLastNudgeAt_def case_prod_beta Let_def toISOString_not_empty set_live set_gone)

lemma wrapper_source:
  assumes "0 < ttl" "now \<le> t"
  shows "t < now + ttl \<Longrightarrow> \<not> fst (rc_isSourceDegraded get src i t (rc_touchSource set_px src i ttl now s))"
    "now + ttl + 1 < t \<Longrightarrow> fst (rc_isSourceDegraded get src i t (rc_touchSource set_px src i ttl now s))"
  using assms by (simp_all add: rc_isSourceDegraded_def rc_touchSource_def case_prod_beta Let_def set_live set_gone)

lemma wrapper_rejection:
  assumes "0 < ttl" "now \<le> t"
  shows "t < now + ttl \<Longrightarrow> fst (rc_isRejectionSuppressed get r g t (rc_recordRejection set_px r g ttl now s))"
    "now + ttl + 1 < t \<Longrightarrow> \<not> fst (rc_isRejectionSuppressed get r g t (rc_recordRejection set_px r g ttl now s))"
  using assms by (simp_all add: rc_isRejectionSuppressed_def rc_recordRejection_def case_prod_beta Let_def set_live set_gone)

end

end
