(* ===== verification/Stores.thy ===== *)
theory Stores
  imports Schema JsSort
begin

text \<open>
  The in-memory stores of \<open>src/server.ts\<close> behind the interfaces of the services. \<open>keyed_store\<close> is
  the contract of a store that is read and replaced by key; it is interpreted on each store that
  is one.
\<close>

locale keyed_store =
  fixes get :: "'k \<Rightarrow> 's \<Rightarrow> 'v"
    and put :: "'k \<Rightarrow> 'v \<Rightarrow> 's \<Rightarrow> 's"
  assumes get_put_same: "get k (put k v s) = v"
    and get_put_other: "k \<noteq> k' \<Longrightarrow> get k (put k' v s) = get k s"
begin

text \<open>Replacing a value by a function of itself touches one key.\<close>

lemma get_modify: "get k (put k' (f (get k' s)) s) = (if k = k' then f (get k s) else get k s)"
  by (simp add: get_put_same get_put_other)

text \<open>Writing several keys: the last write to a key counts, other keys keep their value.\<close>

lemma get_fold_other: "k \<notin> fst ` set kvs \<Longrightarrow> get k (fold (\<lambda>(k, v). put k v) kvs s) = get k s"
  by (induction kvs arbitrary: s) (auto simp: get_put_other)

end

section \<open>Forecasts, actions and scores by gate\<close>

type_synonym ForecastStoreState = "(GateId, CongestionScorePoint list) jsmap"

definition getLatestForecast :: "GateId \<Rightarrow> ForecastStoreState \<Rightarrow> CongestionScorePoint list option" where
  "getLatestForecast g m = map_of m g"

definition setForecast :: "GateId \<Rightarrow> CongestionScorePoint list \<Rightarrow> ForecastStoreState \<Rightarrow> ForecastStoreState" where
  "setForecast g pts m = AList.update g pts m"

lemma getLatestForecast_set [store_simps]:
  "getLatestForecast g (setForecast g' pts m) = (if g = g' then Some pts else getLatestForecast g m)"
  by (simp add: getLatestForecast_def setForecast_def store_simps)

type_synonym ActiveActionsState = "(GateId, RecommendedAction list) jsmap"

definition getActiveActions :: "GateId \<Rightarrow> ActiveActionsState \<Rightarrow> RecommendedAction list" where
  "getActiveActions g m = get_or m g []"

definition setActiveActions :: "GateId \<Rightarrow> RecommendedAction list \<Rightarrow> ActiveActionsState \<Rightarrow> ActiveActionsState" where
  "setActiveActions g actions m = AList.update g actions m"

interpretation active_actions: keyed_store getActiveActions setActiveActions
  by unfold_locales (simp_all add: getActiveActions_def setActiveActions_def store_simps)

text \<open>The dashboard's copy of the active actions is a store of its own.\<close>

definition sourceActions :: "GateId \<Rightarrow> ActiveActionsState \<Rightarrow> RecommendedAction list" where
  "sourceActions g m = get_or m g []"

definition setSourceActions :: "GateId \<Rightarrow> RecommendedAction list \<Rightarrow> ActiveActionsState \<Rightarrow> ActiveActionsState" where
  "setSourceActions g actions m = AList.update g actions m"

interpretation source_actions: keyed_store sourceActions setSourceActions
  by unfold_locales (simp_all add: sourceActions_def setSourceActions_def store_simps)

type_synonym GateScoreState = "(GateId, CongestionScorePoint) jsmap"

definition getCurrentScore :: "GateId \<Rightarrow> GateScoreState \<Rightarrow> CongestionScorePoint option" where
  "getCurrentScore g m = map_of m g"

definition setScore :: "GateId \<Rightarrow> CongestionScorePoint \<Rightarrow> GateScoreState \<Rightarrow> GateScoreState" where
  "setScore g p m = AList.update g p m"

lemma getCurrentScore_set [store_simps]:
  "getCurrentScore g (setScore g' p m) = (if g = g' then Some p else getCurrentScore g m)"
  by (simp add: getCurrentScore_def setScore_def store_simps)

section \<open>Redirections by route\<close>

type_synonym RedirectionState = "(RouteId, ShuttleRedirectionRecommendation list) jsmap"

definition getActiveRecommendations :: "RouteId \<Rightarrow> RedirectionState \<Rightarrow> ShuttleRedirectionRecommendation list" where
  "getActiveRecommendations r m = get_or m r []"

definition upsert_recommendation ::
  "ShuttleRedirectionRecommendation \<Rightarrow> ShuttleRedirectionRecommendation list \<Rightarrow> ShuttleRedirectionRecommendation list" where
  "upsert_recommendation rec existing =
     (case find_index (\<lambda>r. recommendationId r = recommendationId rec) existing of
        Some i \<Rightarrow> existing[i := rec] | None \<Rightarrow> existing @ [rec])"

definition updateRecommendation :: "ShuttleRedirectionRecommendation \<Rightarrow> RedirectionState \<Rightarrow> RedirectionState" where
  "updateRecommendation rec m =
     (let route = redir_routeId rec; existing = getActiveRecommendations route m
      in AList.update route (upsert_recommendation rec existing) m)"

definition put_recommendations ::
  "RouteId \<Rightarrow> ShuttleRedirectionRecommendation list \<Rightarrow> RedirectionState \<Rightarrow> RedirectionState" where
  "put_recommendations r recs m = AList.update r recs m"

interpretation redirections: keyed_store getActiveRecommendations put_recommendations
  by unfold_locales (simp_all add: getActiveRecommendations_def put_recommendations_def store_simps)

lemma updateRecommendation_get [store_simps]:
  "getActiveRecommendations r (updateRecommendation rec m) =
    (if r = redir_routeId rec then upsert_recommendation rec (getActiveRecommendations r m)
     else getActiveRecommendations r m)"
  using redirections.get_modify [of r "redir_routeId rec" "upsert_recommendation rec" m]
  by (simp add: updateRecommendation_def put_recommendations_def Let_def)

text \<open>An upsert keeps the ids, and their order, and adds the new one at the end if it is new.\<close>

lemma upsert_ids:
  "map recommendationId (upsert_recommendation rec xs) =
    (if recommendationId rec \<in> recommendationId ` set xs then map recommendationId xs
     else map recommendationId xs @ [recommendationId rec])"
proof (cases "find_index (\<lambda>r. recommendationId r = recommendationId rec) xs")
  case None
  then have "recommendationId rec \<notin> recommendationId ` set xs" by (auto simp: find_index_None)
  with None show ?thesis by (simp add: upsert_recommendation_def)
next
  case (Some i)
  note f = find_index_Some [OF Some]
  then have "recommendationId rec \<in> recommendationId ` set xs" by (metis imageI nth_mem)
  with Some f show ?thesis
    by (simp add: upsert_recommendation_def map_update) (metis length_map list_update_id nth_map)
qed

section \<open>Nudges\<close>

type_synonym NudgeAuditQueryState = "FanNudge list"

record NudgeFilter =
  nf_gateId :: "GateId option"
  nf_fanId :: "FanId option"

definition queryNudges :: "NudgeFilter \<Rightarrow> NudgeAuditQueryState \<Rightarrow> FanNudge list" where
  "queryNudges f nudges =
     (let r1 = (if truthy_str (nf_gateId f) then filter (\<lambda>n. Some (nudge_originGateId n) = nf_gateId f) nudges else nudges)
      in if truthy_str (nf_fanId f) then filter (\<lambda>n. Some (nudge_fanId n) = nf_fanId f) r1 else r1)"

definition addNudge :: "FanNudge \<Rightarrow> NudgeAuditQueryState \<Rightarrow> NudgeAuditQueryState" where
  "addNudge n nudges = nudges @ [n]"

type_synonym QueuedNudgeState = "(string, FanNudge) jsmap"

definition enqueueNudge :: "FanNudge \<Rightarrow> QueuedNudgeState \<Rightarrow> QueuedNudgeState" where
  "enqueueNudge n m = AList.update (nudgeId n) n m"

definition getQueuedNudges :: "QueuedNudgeState \<Rightarrow> FanNudge list" where
  "getQueuedNudges m = map snd m"

definition updateNudge :: "FanNudge \<Rightarrow> QueuedNudgeState \<Rightarrow> QueuedNudgeState" where
  "updateNudge n m = AList.update (nudgeId n) n m"

section \<open>Alerts and data quality\<close>

type_synonym AlertState = "(string, Alert) jsmap"

definition getAlert :: "string \<Rightarrow> AlertState \<Rightarrow> Alert option" where
  "getAlert i m = map_of m i"

definition updateAlert :: "Alert \<Rightarrow> AlertState \<Rightarrow> AlertState" where
  "updateAlert a m = AList.update (alertId a) a m"

definition addAlert :: "Alert \<Rightarrow> AlertState \<Rightarrow> AlertState" where
  "addAlert a m = AList.update (alertId a) a m"

lemma getAlert_update [store_simps]:
  "getAlert i (updateAlert a m) = (if i = alertId a then Some a else getAlert i m)"
  "getAlert i (addAlert a m) = (if i = alertId a then Some a else getAlert i m)"
  by (simp_all add: getAlert_def updateAlert_def addAlert_def store_simps)

type_synonym DataQualityState = "GateId list"

definition hasDegradedSource :: "GateId \<Rightarrow> DataQualityState \<Rightarrow> bool" where
  "hasDegradedSource g s = (g \<in> set s)"

definition setDegraded :: "GateId \<Rightarrow> bool \<Rightarrow> DataQualityState \<Rightarrow> DataQualityState" where
  "setDegraded g degraded s =
     (if degraded then (if g \<in> set s then s else s @ [g]) else filter (\<lambda>x. x \<noteq> g) s)"

interpretation data_quality: keyed_store hasDegradedSource setDegraded
  by unfold_locales (auto simp: hasDegradedSource_def setDegraded_def)

section \<open>The audit repository\<close>

record AuditState =
  audit_scores :: "ScoreAuditRecord list"
  audit_actions :: "(string, RecommendedAction) jsmap"
  audit_nudges :: "(string, FanNudge) jsmap"
  audit_signalEvents :: "SignalEvent list"
  audit_validationErrors :: "json ValidationErrorRecord list"
  audit_shuttle :: "ShuttleRedirectionRecommendation list"

definition empty_audit :: AuditState where
  "empty_audit = \<lparr>audit_scores = [], audit_actions = [], audit_nudges = [], audit_signalEvents = [],
     audit_validationErrors = [], audit_shuttle = []\<rparr>"

record AuditQueryRange =
  range_from :: "string option"
  range_to :: "string option"
  range_gateId :: "GateId option"
  range_fanId :: "FanId option"

text \<open>The test a range applies: an absent or empty bound does not restrict.\<close>

definition in_range :: "AuditQueryRange \<Rightarrow> string \<Rightarrow> bool" where
  "in_range rg t =
     ((truthy_str (range_from rg) \<longrightarrow> \<not> str_lt t (the (range_from rg))) \<and>
      (truthy_str (range_to rg) \<longrightarrow> \<not> str_lt (the (range_to rg)) t))"

definition gate_in_range :: "AuditQueryRange \<Rightarrow> GateId \<Rightarrow> bool" where
  "gate_in_range rg g = (truthy_str (range_gateId rg) \<longrightarrow> range_gateId rg = Some g)"

definition queryScores :: "AuditQueryRange \<Rightarrow> AuditState \<Rightarrow> ScoreAuditRecord list" where
  "queryScores rg s = filter (\<lambda>r. gate_in_range rg (sa_gateId r) \<and> in_range rg (sa_timestamp r)) (audit_scores s)"

definition queryActions :: "AuditQueryRange \<Rightarrow> AuditState \<Rightarrow> RecommendedAction list" where
  "queryActions rg s =
     filter (\<lambda>a. gate_in_range rg (action_gateId a) \<and> in_range rg (action_generatedAt a)) (map snd (audit_actions s))"

definition queryNudgeAudit :: "AuditQueryRange \<Rightarrow> AuditState \<Rightarrow> FanNudge list" where
  "queryNudgeAudit rg s =
     filter (\<lambda>n. gate_in_range rg (nudge_originGateId n)
         \<and> (truthy_str (range_fanId rg) \<longrightarrow> range_fanId rg = Some (nudge_fanId n))
         \<and> in_range rg (nudge_generatedAt n)) (map snd (audit_nudges s))"

definition writeSignalEvent :: "SignalEvent \<Rightarrow> AuditState \<Rightarrow> AuditState" where
  "writeSignalEvent e s = s\<lparr>audit_signalEvents := audit_signalEvents s @ [e]\<rparr>"

definition writeScoreAudit :: "ScoreAuditRecord \<Rightarrow> AuditState \<Rightarrow> AuditState" where
  "writeScoreAudit r s = s\<lparr>audit_scores := audit_scores s @ [r]\<rparr>"

definition writeActionAudit :: "RecommendedAction \<Rightarrow> AuditState \<Rightarrow> AuditState" where
  "writeActionAudit r s = s\<lparr>audit_actions := AList.update (actionId r) r (audit_actions s)\<rparr>"

definition writeShuttleRecommendation :: "ShuttleRedirectionRecommendation \<Rightarrow> AuditState \<Rightarrow> AuditState" where
  "writeShuttleRecommendation r s = s\<lparr>audit_shuttle := audit_shuttle s @ [r]\<rparr>"

definition writeNudgeAudit :: "FanNudge \<Rightarrow> AuditState \<Rightarrow> AuditState" where
  "writeNudgeAudit n s = s\<lparr>audit_nudges := AList.update (nudgeId n) n (audit_nudges s)\<rparr>"

definition writeValidationError :: "json ValidationErrorRecord \<Rightarrow> AuditState \<Rightarrow> AuditState" where
  "writeValidationError e s = s\<lparr>audit_validationErrors := audit_validationErrors s @ [e]\<rparr>"

text \<open>\<open>clear()\<close> of the stores that are maps, sets or lists, and of the repository.\<close>

definition clear_store :: "'a list \<Rightarrow> 'a list" where
  "clear_store m = []"

definition clear_audit :: "AuditState \<Rightarrow> AuditState" where
  "clear_audit s = empty_audit"

lemmas audit_writes = writeSignalEvent_def writeScoreAudit_def writeActionAudit_def
  writeShuttleRecommendation_def writeNudgeAudit_def writeValidationError_def

end
