(* ===== verification/Recommend.thy ===== *)
theory Recommend
  imports Stores RiskLevels "HOL-Library.Sublist"
begin

text \<open>
  The recommendation engine: \<open>src/recommendation-engine/recommendations.ts\<close>, \<open>api.ts\<close> and
  \<open>service.ts\<close>. The lemmas show that a gate above \<open>LOW\<close> gets each candidate action exactly
  once, ranked from 1 by falling impact, and that executing an action changes that action alone.
\<close>

section \<open>Generating the list\<close>

definition CANDIDATE_ACTION_TYPES :: "ActionType list" where
  "CANDIDATE_ACTION_TYPES = [OPEN_GATE_LANE, REDIRECT_SHUTTLE_ROUTE, HOLD_TRANSIT_ARRIVAL, FAN_NUDGE_CAMPAIGN]"

definition events_of :: "SignalSource \<Rightarrow> SignalEvent list \<Rightarrow> jsnum" where
  "events_of s window = num_of_int (int (length (filter (\<lambda>e. source e = s) window)))"

definition impactForActionType :: "ActionType \<Rightarrow> jsnum \<Rightarrow> SignalEvent list \<Rightarrow> jsnum" where
  "impactForActionType t cur window =
     (let gateCounterEvents = events_of GATE_COUNTER window;
          ticketScanEvents = events_of TICKET_SCANNER window;
          transitEvents = events_of TRANSIT_FEED window
      in case t of
           OPEN_GATE_LANE \<Rightarrow> js_add (js_add (js_mul cur (Fin 1)) (js_mul gateCounterEvents (Fin 2)))
             (js_mul ticketScanEvents (rnd (5/10)))
         | REDIRECT_SHUTTLE_ROUTE \<Rightarrow> js_add (js_mul cur (rnd (9/10))) (js_mul transitEvents (Fin 3))
         | HOLD_TRANSIT_ARRIVAL \<Rightarrow> js_add (js_mul cur (rnd (7/10))) (js_mul transitEvents (Fin 2))
         | FAN_NUDGE_CAMPAIGN \<Rightarrow> js_add (js_mul cur (rnd (5/10))) (js_mul ticketScanEvents (rnd (3/10))))"

definition buildExplanation :: "ActionType \<Rightarrow> SignalEvent list \<Rightarrow> ForecastResult \<Rightarrow> string" where
  "buildExplanation t window forecast =
     (let contributingIds = map signalId (take 5 window);
          idsPart = (if contributingIds \<noteq> [] then ''contributing signals: '' @ join_with '', '' contributingIds
            else ''no contributing signals in the current window'');
          base = ''Recommended '' @ action_string t @ '' based on '' @ idsPart
            @ '' and current Congestion_Score of '' @ num_to_string (currentScore (Some forecast)) @ ''.''
      in if lowConfidence forecast
         then base @ '' Low_Confidence: forecast based on limited recent signal data.'' else base)"

record ScoredAction =
  scored_type :: ActionType
  impact :: jsnum

definition scored_compare :: "(string \<Rightarrow> string \<Rightarrow> jsnum) \<Rightarrow> ScoredAction \<Rightarrow> ScoredAction \<Rightarrow> jsnum" where
  "scored_compare lc a b =
     (if \<not> js_eq (impact b) (impact a) then js_sub (impact b) (impact a)
      else lc (action_string (scored_type a)) (action_string (scored_type b)))"

definition scored_actions :: "jsnum \<Rightarrow> SignalEvent list \<Rightarrow> ScoredAction list" where
  "scored_actions s window =
     map (\<lambda>t. \<lparr>scored_type = t, impact = impactForActionType t s window\<rparr>) CANDIDATE_ACTION_TYPES"

definition action_of :: "Gate \<Rightarrow> string \<Rightarrow> SignalEvent list \<Rightarrow> ForecastResult \<Rightarrow> nat \<Rightarrow> ScoredAction \<Rightarrow> RecommendedAction" where
  "action_of gate generatedAt window forecast index entry =
     \<lparr>actionId = gate_id gate @ ''-'' @ generatedAt @ ''-'' @ action_string (scored_type entry),
      action_gateId = gate_id gate, actionType = scored_type entry, actionRank = int index + 1,
      action_explanation = buildExplanation (scored_type entry) window forecast,
      targetGateId = None, targetRouteId = None, action_generatedAt = generatedAt,
      executedAt = None, executedByUserId = None\<rparr>"

definition generateRecommendations ::
  "(string \<Rightarrow> string \<Rightarrow> jsnum) \<Rightarrow> int \<Rightarrow> Gate \<Rightarrow> ForecastResult \<Rightarrow> SignalEvent list \<Rightarrow> js_error + RecommendedAction list" where
  "generateRecommendations lc clock gate forecast window =
     (let currentPoint = head_opt (scores forecast);
          cur = coalesce (map_option score currentPoint) (Fin 0)
      in case (case currentPoint of Some p \<Rightarrow> Inr (riskLevel p) | None \<Rightarrow> deriveRiskLevel cur) of
           Inl e \<Rightarrow> Inl e
         | Inr lvl \<Rightarrow>
             if lvl = LOW then Inr []
             else
               (let generatedAt = coalesce (map_option forecastTime currentPoint) (toISOString clock);
                    sorted = js_sort (scored_compare lc) (scored_actions cur window)
                in Inr (map (\<lambda>(index, entry). action_of gate generatedAt window forecast index entry)
                     (enumerate 0 sorted))))"

lemma length_scored_actions [simp]: "length (scored_actions s window) = 4"
  by (simp add: scored_actions_def CANDIDATE_ACTION_TYPES_def)

section \<open>The ranking\<close>

definition good_scored :: "ScoredAction \<Rightarrow> bool" where
  "good_scored a = (impact a \<noteq> NaN \<and> is_double (impact a))"

lemma scored_gt:
  assumes "good_scored a" "good_scored b"
  shows "cmp_gt (scored_compare lc) a b \<longleftrightarrow> js_lt (impact a) (impact b) \<or>
    (impact a = impact b \<and> js_lt (Fin 0) (lc (action_string (scored_type a)) (action_string (scored_type b))))"
  using assms js_sub_sign [of "impact b" "impact a"]
  by (auto simp: cmp_gt_def scored_compare_def js_eq_def good_scored_def js_lt_iff)

context collation
begin

lemma scored_comparator: "js_comparator (scored_compare lc) {a. good_scored a}"
proof
  fix x y :: ScoredAction
  assume "x \<in> {a. good_scored a}" "y \<in> {a. good_scored a}" "cmp_gt (scored_compare lc) x y"
  then show "\<not> cmp_gt (scored_compare lc) y x"
    using lc_antisym by (auto simp: scored_gt js_lt_iff dest: js_le_antisym)
next
  fix x y z :: ScoredAction
  assume g: "x \<in> {a. good_scored a}" "y \<in> {a. good_scored a}" "z \<in> {a. good_scored a}"
    and le: "cmp_le (scored_compare lc) x y" "cmp_le (scored_compare lc) y z"
  have n: "impact x \<noteq> NaN" "impact y \<noteq> NaN" "impact z \<noteq> NaN"
    using g by (auto simp: good_scored_def)
  show "cmp_le (scored_compare lc) x z"
    using le g n unfolding cmp_le_def
    by (auto simp: scored_gt js_not_lt dest: js_le_trans js_le_antisym lc_trans)
qed

lemma ranking_falls:
  assumes "\<forall>a \<in> set xs. good_scored a"
  shows "sorted_wrt (\<lambda>a b. js_le (impact b) (impact a)) (js_sort (scored_compare lc) xs)"
proof -
  have "sorted_wrt (cmp_le (scored_compare lc)) (js_sort (scored_compare lc) xs)"
    using assms by (intro js_comparator.sort_sorted [OF scored_comparator]) auto
  moreover have "\<forall>a \<in> set (js_sort (scored_compare lc) xs). good_scored a" using assms by simp
  ultimately show ?thesis
    by (rule_tac sorted_wrt_mono_rel [of _ "cmp_le (scored_compare lc)"])
      (auto simp: cmp_le_def scored_gt good_scored_def js_not_lt)
qed

end

text \<open>The decimal literals of the source as doubles.\<close>

lemma literals:
  "rnd (1/2) = Fin (1/2)" "rnd (9/10) = Fin (8106479329266893 / 2 ^ 53)"
  "rnd (7/10) = Fin (6305039478318694 / 2 ^ 53)" "rnd (3/10) = Fin (5404319552844595 / 2 ^ 54)"
  using rnd_evalI [of "1/2" 53 4503599627370496] rnd_evalI [of "9/10" 53 8106479329266893]
    rnd_evalI [of "7/10" 53 6305039478318694] rnd_evalI [of "3/10" 54 5404319552844595]
  by simp_all

lemma rnd_nonneg_le: "0 \<le> q \<Longrightarrow> js_le (Fin 0) (rnd q)"
  using rnd_mono [of 0 q] rnd_of_int [of 0] by simp

lemma impact_good:
  assumes "0 \<le> q"
  shows "good_scored \<lparr>scored_type = t, impact = impactForActionType t (Fin q) window\<rparr>"
proof -
  have n: "js_le (Fin 0) (events_of s window)" for s by (simp add: events_of_def)
  have mul: "js_le (Fin 0) (js_mul (Fin q) (Fin c))" "js_le (Fin 0) (js_mul (events_of s window) (Fin c))"
    if "0 \<le> c" for c s
    using that assms by (auto simp: events_of_def intro!: rnd_nonneg_le)
  have "js_le (Fin 0) (impactForActionType t (Fin q) window) \<and> is_double (impactForActionType t (Fin q) window)"
    by (cases t) (simp_all add: impactForActionType_def Let_def literals js_add_nonneg mul del: js_mul.simps)
  then show ?thesis by (auto simp: good_scored_def)
qed

text \<open>C29. Ranked recommendations: at a gate whose current level is \<open>LOW\<close> there are none. Otherwise each
  of the four candidate actions is recommended exactly once, the ranks are 1, 2, 3, 4 in the order
  of the list, the impact never rises along it, the ids differ, and every action names the
  gate and the forecast it answers and is not executed.\<close>

theorem recommendations_ranked:
  assumes "collation lc" "scores forecast = p # ps" "score p = Fin q" "0 \<le> q"
  shows "\<exists>actions. generateRecommendations lc clock gate forecast window = Inr actions \<and>
    (if riskLevel p = LOW then actions = []
     else map actionRank actions = [1, 2, 3, 4] \<and>
       mset (map actionType actions) = mset [OPEN_GATE_LANE, REDIRECT_SHUTTLE_ROUTE, HOLD_TRANSIT_ARRIVAL, FAN_NUDGE_CAMPAIGN] \<and>
       sorted_wrt (\<lambda>a b. js_le (impactForActionType (actionType b) (score p) window)
         (impactForActionType (actionType a) (score p) window)) actions \<and>
       distinct (map actionId actions) \<and>
       (\<forall>a \<in> set actions. action_gateId a = gate_id gate \<and> action_generatedAt a = forecastTime p \<and>
         executedAt a = None \<and> executedByUserId a = None))"
proof (cases "riskLevel p = LOW")
  case True
  with assms(2) show ?thesis by (simp add: generateRecommendations_def)
next
  case False
  let ?sorted = "js_sort (scored_compare lc) (scored_actions (Fin q) window)"
  let ?act = "\<lambda>i e. action_of gate (forecastTime p) window forecast i e"
  define actions where "actions = map (\<lambda>(i, e). ?act i e) (enumerate 0 ?sorted)"
  have gen: "generateRecommendations lc clock gate forecast window = Inr actions"
    using False assms(2,3) by (simp add: generateRecommendations_def actions_def)
  have nth: "length actions = length ?sorted" "\<And>i. i < length ?sorted \<Longrightarrow> actions ! i = ?act i (?sorted ! i)"
    by (simp_all add: actions_def nth_enumerate_eq)
  have len: "length ?sorted = 4" by (simp add: scored_actions_def CANDIDATE_ACTION_TYPES_def)
  have types: "map actionType actions = map scored_type ?sorted"
    by (rule nth_equalityI) (simp_all add: nth action_of_def)
  have "mset (map scored_type ?sorted) = mset (map scored_type (scored_actions (Fin q) window))"
    by (simp only: mset_map mset_js_sort)
  also have "map scored_type (scored_actions (Fin q) window) = CANDIDATE_ACTION_TYPES"
    by (simp add: scored_actions_def CANDIDATE_ACTION_TYPES_def)
  finally have perm: "mset (map actionType actions) = mset CANDIDATE_ACTION_TYPES" by (simp only: types)
  have dist: "distinct (map actionType actions)"
    using mset_eq_imp_distinct_iff [OF perm] by (simp add: CANDIDATE_ACTION_TYPES_def)
  have ranks: "map actionRank actions = [1, 2, 3, 4]"
    by (rule nth_equalityI) (auto simp: nth action_of_def less_Suc_eq numeral_eq_Suc)
  have all: "\<forall>a \<in> set actions. action_gateId a = gate_id gate \<and> action_generatedAt a = forecastTime p \<and>
      executedAt a = None \<and> executedByUserId a = None \<and>
      actionId a = gate_id gate @ ''-'' @ forecastTime p @ ''-'' @ action_string (actionType a)"
    by (auto simp: actions_def action_of_def)
  have ids: "distinct (map actionId actions)"
    using dist all by (auto simp: distinct_map inj_on_def)
  have imp: "\<forall>e \<in> set ?sorted. impact e = impactForActionType (scored_type e) (Fin q) window"
    by (auto simp: scored_actions_def)
  have imp_nth: "impact (?sorted ! i) = impactForActionType (scored_type (?sorted ! i)) (Fin q) window"
    if "i < 4" for i using imp that len by (metis nth_mem)
  have "sorted_wrt (\<lambda>a b. js_le (impact b) (impact a)) ?sorted"
    using impact_good [OF assms(4)] by (intro collation.ranking_falls [OF assms(1)]) (auto simp: scored_actions_def)
  then have "sorted_wrt (\<lambda>a b. js_le (impactForActionType (actionType b) (Fin q) window)
         (impactForActionType (actionType a) (Fin q) window)) actions"
    by (auto simp: sorted_wrt_iff_nth_less nth action_of_def imp_nth)
  with False gen perm ranks ids all assms(3) show ?thesis
    by (intro exI [of _ actions]) (simp add: CANDIDATE_ACTION_TYPES_def)
qed

definition busy_forecast :: ForecastResult where
  "busy_forecast = forecast_of ''gate-a'' 92 CRITICAL"

lemma recommendations_ranked_witness:
  "\<exists>actions. generateRecommendations code_unit_compare 0 \<lparr>gate_id = ''gate-a'', gate_name = ''A'',
      capacityThreshold = Fin 500, assignedRouteIds = []\<rparr> busy_forecast [] = Inr actions
    \<and> map actionRank actions = [1, 2, 3, 4]
    \<and> mset (map actionType actions) = mset [OPEN_GATE_LANE, REDIRECT_SHUTTLE_ROUTE, HOLD_TRANSIT_ARRIVAL, FAN_NUDGE_CAMPAIGN]"
proof -
  have "scores busy_forecast = point_of ''gate-a'' 92 CRITICAL # []" "score (point_of ''gate-a'' 92 CRITICAL) = Fin 92"
    by (simp_all add: busy_forecast_def forecast_of_def point_of_def)
  from recommendations_ranked [OF code_units.collation_axioms this, where clock = 0 and window = "[]" and gate =
      "\<lparr>gate_id = ''gate-a'', gate_name = ''A'', capacityThreshold = Fin 500, assignedRouteIds = []\<rparr>"]
  show ?thesis by (auto simp: point_of_def)
qed

section \<open>The explanation\<close>

lemma sublist_join: "s \<in> set ss \<Longrightarrow> sublist s (join_with sep ss)"
proof (induction sep ss rule: join_with.induct)
  case (3 sep s' t ss)
  show ?case
  proof (cases "s = s'")
    case True
    then show ?thesis by (simp add: sublist_def) (metis append_Nil)
  next
    case False
    with 3 have "sublist s (join_with sep (t # ss))" by simp
    then show ?thesis by (simp add: sublist_append)
  qed
qed simp_all

definition cited_ids :: "SignalEvent list \<Rightarrow> string" where
  "cited_ids window = (if take 5 window = [] then ''no contributing signals in the current window''
     else ''contributing signals: '' @ join_with '', '' (map signalId (take 5 window)))"

lemma explanation_parts: "buildExplanation t window forecast = ''Recommended '' @ action_string t @ '' based on '' @
    cited_ids window @ '' and current Congestion_Score of '' @ num_to_string (currentScore (Some forecast)) @ ''.'' @
    (if lowConfidence forecast then '' Low_Confidence: forecast based on limited recent signal data.'' else [])"
  by (simp add: buildExplanation_def cited_ids_def Let_def)

lemma sublist_pre: "sublist x y \<Longrightarrow> sublist x (a @ y)"
  by (simp add: sublist_append)

text \<open>Every explanation names the action type, the signal ids of the first five events of the window
  and the current score, and ends with the low-confidence notice when the forecast is flagged.\<close>

theorem explanation_cites:
  "sublist (action_string t) (buildExplanation t window forecast) \<and>
   list_all (\<lambda>e. sublist (signalId e) (buildExplanation t window forecast)) (take 5 window) \<and>
   sublist (num_to_string (currentScore (Some forecast))) (buildExplanation t window forecast) \<and>
   (if lowConfidence forecast
    then suffix '' Low_Confidence: forecast based on limited recent signal data.'' (buildExplanation t window forecast)
    else suffix ''.'' (buildExplanation t window forecast))"
proof -
  let ?x = "buildExplanation t window forecast"
  note parts = explanation_parts [of t window forecast]
  have "sublist (action_string t) ?x"
    unfolding parts by (rule sublist_pre, rule sublist_append_rightI)
  moreover have "sublist (signalId e) ?x" if "e \<in> set (take 5 window)" for e
  proof -
    have "take 5 window \<noteq> []" using that by auto
    then have "sublist (join_with '', '' (map signalId (take 5 window))) ?x"
      unfolding parts cited_ids_def if_not_P [OF \<open>take 5 window \<noteq> []\<close>] append_assoc
      by (rule_tac sublist_pre, rule_tac sublist_pre, rule_tac sublist_pre, rule_tac sublist_pre, rule_tac sublist_append_rightI)
    moreover have "sublist (signalId e) (join_with '', '' (map signalId (take 5 window)))"
      using that by (intro sublist_join) simp
    ultimately show ?thesis by (rule sublist_order.order_trans [rotated])
  qed
  moreover have "sublist (num_to_string (currentScore (Some forecast))) ?x"
    unfolding parts
    by (rule sublist_pre, rule sublist_pre, rule sublist_pre, rule sublist_pre, rule sublist_pre, rule sublist_append_rightI)
  moreover have "if lowConfidence forecast
    then suffix '' Low_Confidence: forecast based on limited recent signal data.'' ?x else suffix ''.'' ?x"
    unfolding parts by (simp add: suffix_def)
  ultimately show ?thesis by (simp add: list_all_iff)
qed

section \<open>Executing an action\<close>

definition getActions :: "(GateId \<Rightarrow> 's \<Rightarrow> RecommendedAction list) \<Rightarrow> GateId \<Rightarrow> 's \<Rightarrow> RecommendedAction list" where
  "getActions get gate s = get gate s"

definition executeAction ::
  "(GateId \<Rightarrow> 's \<Rightarrow> RecommendedAction list) \<Rightarrow> (GateId \<Rightarrow> RecommendedAction list \<Rightarrow> 's \<Rightarrow> 's)
    \<Rightarrow> GateId \<Rightarrow> string \<Rightarrow> string \<Rightarrow> int \<Rightarrow> 's \<Rightarrow> RecommendedAction option \<times> 's" where
  "executeAction get put gate aid userId now s =
     (let actions = get gate s
      in case find_index (\<lambda>a. actionId a = aid) actions of
           None \<Rightarrow> (None, s)
         | Some index \<Rightarrow>
             (let updated = (actions ! index)\<lparr>executedAt := Some (toISOString now), executedByUserId := Some userId\<rparr>;
                  newActions = actions[index := updated]
              in (Some updated, put gate newActions s)))"

definition RECOMMENDATION_REGENERATION_BUDGET_MS :: int where
  "RECOMMENDATION_REGENERATION_BUDGET_MS = 5000"

text \<open>One score update: the window is read, the list replaced and published. An exception of the
  generator ends it before the store is written.\<close>

definition onScoreUpdate ::
  "(string \<Rightarrow> string \<Rightarrow> jsnum) \<Rightarrow> (GateId \<Rightarrow> 's \<Rightarrow> SignalEvent list) \<Rightarrow> (GateId \<Rightarrow> RecommendedAction list \<Rightarrow> 's \<Rightarrow> 's)
    \<Rightarrow> (GateId \<Rightarrow> RecommendedAction list \<Rightarrow> 's \<Rightarrow> 's) \<Rightarrow> int \<Rightarrow> Gate \<Rightarrow> ForecastResult \<Rightarrow> 's
    \<Rightarrow> (js_error + RecommendedAction list) \<times> 's" where
  "onScoreUpdate lc getWindowForGate put publishActions clock gate forecast s =
     (let window = getWindowForGate (gate_id gate) s
      in case generateRecommendations lc clock gate forecast window of
           Inl e \<Rightarrow> (Inl e, s)
         | Inr actions \<Rightarrow> (Inr actions, publishActions (gate_id gate) actions (put (gate_id gate) actions s)))"

text \<open>What executing does, over any store with the contract.\<close>

locale actions_store = keyed_store get put
  for get :: "GateId \<Rightarrow> 's \<Rightarrow> RecommendedAction list" and put :: "GateId \<Rightarrow> RecommendedAction list \<Rightarrow> 's \<Rightarrow> 's"
begin

lemma execute_spec:
  "case executeAction get put g i u now s of
      (None, s') \<Rightarrow> s' = s \<and> (\<forall>a \<in> set (get g s). actionId a \<noteq> i)
    | (Some a, s') \<Rightarrow> (\<exists>xs b ys. get g s = xs @ b # ys \<and> actionId b = i \<and> (\<forall>x \<in> set xs. actionId x \<noteq> i) \<and>
        a = b\<lparr>executedAt := Some (toISOString now), executedByUserId := Some u\<rparr> \<and>
        get g s' = xs @ a # ys \<and> (\<forall>g'. g' \<noteq> g \<longrightarrow> get g' s' = get g' s))"
proof (cases "find_index (\<lambda>a. actionId a = i) (get g s)")
  case None
  then have "\<forall>a \<in> set (get g s). actionId a \<noteq> i" by (simp add: find_index_None)
  with None show ?thesis by (simp add: executeAction_def)
next
  case (Some k)
  note f = find_index_Some [OF Some]
  then have "get g s = take k (get g s) @ get g s ! k # drop (Suc k) (get g s)"
    by (simp add: id_take_nth_drop)
  moreover have "\<forall>x \<in> set (take k (get g s)). actionId x \<noteq> i"
    using f by (auto simp: in_set_conv_nth)
  moreover have "(get g s)[k := a] = take k (get g s) @ a # drop (Suc k) (get g s)" for a
    using f by (simp add: upd_conv_take_nth_drop)
  ultimately show ?thesis
    using f Some unfolding executeAction_def Let_def
    by (simp add: get_put_same get_put_other) blast
qed

end

interpretation engine_actions: actions_store getActiveActions setActiveActions
  using active_actions.keyed_store_axioms by (simp add: actions_store_def)

text \<open>Executing an action: without an action of that id at the gate the answer is \<open>null\<close> and nothing
  changes. Otherwise the first such action gets the execution time and the user, the answer is
  that action, and every other action of that gate, the ranks and order included, and every
  action of other gates stay as they were.\<close>

theorem execute_action:
  "case executeAction getActiveActions setActiveActions g i u now s of
      (None, s') \<Rightarrow> s' = s \<and> i \<notin> actionId ` set (getActiveActions g s)
    | (Some a, s') \<Rightarrow> (\<exists>xs b ys. getActiveActions g s = xs @ b # ys \<and> actionId b = i \<and> i \<notin> actionId ` set xs \<and>
        a = b\<lparr>executedAt := Some (toISOString now), executedByUserId := Some u\<rparr> \<and>
        getActiveActions g s' = xs @ a # ys \<and> map actionRank (getActiveActions g s') = map actionRank (getActiveActions g s) \<and>
        (\<forall>g'. getActiveActions g' s' = getActiveActions g' s \<or> g' = g))"
proof (cases "executeAction getActiveActions setActiveActions g i u now s")
  case (Pair r s')
  note spec = engine_actions.execute_spec [where g = g and i = i and u = u and now = now and s = s, unfolded Pair prod.case]
  show ?thesis
  proof (cases r)
    case None
    with spec Pair show ?thesis by auto
  next
    case (Some a)
    with spec obtain xs b ys where x: "getActiveActions g s = xs @ b # ys" "actionId b = i" "\<forall>x \<in> set xs. actionId x \<noteq> i"
      "a = b\<lparr>executedAt := Some (toISOString now), executedByUserId := Some u\<rparr>"
      "getActiveActions g s' = xs @ a # ys" "\<forall>g'. g' \<noteq> g \<longrightarrow> getActiveActions g' s' = getActiveActions g' s"
      by auto
    have "actionRank a = actionRank b" by (simp add: x(4))
    then have "map actionRank (getActiveActions g s') = map actionRank (getActiveActions g s)"
      by (simp add: x(1,5))
    moreover have "i \<notin> actionId ` set xs" using x(3) by auto
    ultimately have "getActiveActions g s = xs @ b # ys \<and> actionId b = i \<and> i \<notin> actionId ` set xs \<and>
        a = b\<lparr>executedAt := Some (toISOString now), executedByUserId := Some u\<rparr> \<and>
        getActiveActions g s' = xs @ a # ys \<and> map actionRank (getActiveActions g s') = map actionRank (getActiveActions g s) \<and>
        (\<forall>g'. getActiveActions g' s' = getActiveActions g' s \<or> g' = g)"
      using x(1,2,5,6) by (intro conjI x(4)) (blast | simp)+
    then show ?thesis unfolding Pair Some prod.case option.case by (intro exI)
  qed
qed

end
