(* ===== verification/Redirect.thy ===== *)
theory Redirect
  imports Stores RiskLevels RedisStore
begin

text \<open>
  The shuttle redirection advisor: \<open>src/shuttle-redirection-advisor/redirections.ts\<close>,
  \<open>suppression.ts\<close> and \<open>api.ts\<close>. The generation is a filter over the routes of the origin gate;
  accepting and rejecting change one recommendation, and a rejection starts the suppression of
  its route and alternative gate.
\<close>

section \<open>Generating redirections\<close>

definition HIGH_OR_CRITICAL :: "RiskLevel list" where
  "HIGH_OR_CRITICAL = [HIGH, CRITICAL]"

definition REJECTION_SUPPRESSION_MS :: int where
  "REJECTION_SUPPRESSION_MS = 5 * 60 * 1000"

record RejectionRecord =
  rej_routeId :: RouteId
  rej_alternativeGateId :: GateId
  rej_rejectedAt :: string

text \<open>An unparsable rejection time makes the difference \<open>NaN\<close> and the comparison false.\<close>

definition rejection_applies :: "RouteId \<Rightarrow> GateId \<Rightarrow> int \<Rightarrow> RejectionRecord \<Rightarrow> bool" where
  "rejection_applies route alt now r =
     (if rej_routeId r \<noteq> route then False
      else if rej_alternativeGateId r \<noteq> alt then False
      else (case date_parse (rej_rejectedAt r) of
              Some rejectedAtMs \<Rightarrow> now - rejectedAtMs < REJECTION_SUPPRESSION_MS
            | None \<Rightarrow> False))"

definition isSuppressed :: "RouteId \<Rightarrow> GateId \<Rightarrow> RejectionRecord list \<Rightarrow> int \<Rightarrow> bool" where
  "isSuppressed route alt recentRejections now = list_ex (rejection_applies route alt now) recentRejections"

definition redirection_for ::
  "Gate \<Rightarrow> RiskLevel \<Rightarrow> jsnum \<Rightarrow> string \<Rightarrow> ShuttleRoute \<Rightarrow> GateId \<Rightarrow> ShuttleRedirectionRecommendation" where
  "redirection_for originGate originRiskLevel originScore generatedAt route alt =
     \<lparr>recommendationId = route_id route @ ''-'' @ gate_id originGate @ ''-'' @ generatedAt,
      redir_routeId = route_id route, redir_originGateId = gate_id originGate,
      redir_alternativeGateId = alt,
      redir_explanation = ''Route '' @ route_id route @ '' redirected from '' @ gate_id originGate
        @ '' (Congestion_Score '' @ num_to_string originScore @ '', Risk_Level '' @ risk_string originRiskLevel
        @ '', driven by Transit_Arrival volume) to lower-risk Gate '' @ alt @ ''.'',
      redir_generatedAt = generatedAt, redir_status = PENDING, acceptedAt = None,
      acceptedByDispatcherId = None, rejectedAt = None, rejectedByDispatcherId = None\<rparr>"

text \<open>The loop over the routes; the pick does not depend on the route.\<close>

fun redirections_loop ::
  "(string \<Rightarrow> string \<Rightarrow> jsnum) \<Rightarrow> Gate \<Rightarrow> RiskLevel \<Rightarrow> jsnum \<Rightarrow> (GateId, ForecastResult) jsmap \<Rightarrow> RejectionRecord list
    \<Rightarrow> int \<Rightarrow> ShuttleRoute list \<Rightarrow> ShuttleRedirectionRecommendation list" where
  "redirections_loop lc g level s forecasts rejections now [] = []"
| "redirections_loop lc g level s forecasts rejections now (route # routes) =
     (let rest = redirections_loop lc g level s forecasts rejections now routes;
          picked = pickAlternativeGate lc (gate_id g) level forecasts
      in if \<not> truthy_str picked then rest
         else if isSuppressed (route_id route) (the picked) rejections now then rest
         else redirection_for g level s (toISOString now) route (the picked) # rest)"

definition generateRedirections ::
  "(string \<Rightarrow> string \<Rightarrow> jsnum) \<Rightarrow> Gate \<Rightarrow> (GateId, ForecastResult) jsmap \<Rightarrow> ShuttleRoute list \<Rightarrow> RejectionRecord list
    \<Rightarrow> int \<Rightarrow> ShuttleRedirectionRecommendation list" where
  "generateRedirections lc originGate forecastsByGate assignedRoutes recentRejections now =
     (let originForecast = map_of forecastsByGate (gate_id originGate);
          originRiskLevel = currentRiskLevel originForecast;
          originScore = currentScore originForecast
      in if originRiskLevel \<notin> set HIGH_OR_CRITICAL then []
         else
           (let routesForOrigin = filter (\<lambda>route. route_id route \<in> set (assignedRouteIds originGate)) assignedRoutes
            in redirections_loop lc originGate originRiskLevel originScore forecastsByGate recentRejections now
                 routesForOrigin))"

section \<open>Suppression\<close>

definition suppression_record :: "RouteId \<Rightarrow> GateId \<Rightarrow> int \<Rightarrow> RedisState \<Rightarrow> RedisState" where
  "suppression_record route alt now r = recordRejection route alt REJECTION_SUPPRESSION_MS now r"

definition suppression_isSuppressed :: "RouteId \<Rightarrow> GateId \<Rightarrow> int \<Rightarrow> RedisState \<Rightarrow> bool \<times> RedisState" where
  "suppression_isSuppressed route alt now r = isRejectionSuppressed route alt now r"

section \<open>The API\<close>

definition getRedirections :: "RouteId \<Rightarrow> RedirectionState \<Rightarrow> ShuttleRedirectionRecommendation list" where
  "getRedirections route store = getActiveRecommendations route store"

definition findRecommendation :: "RouteId \<Rightarrow> string \<Rightarrow> RedirectionState \<Rightarrow> ShuttleRedirectionRecommendation option" where
  "findRecommendation route i store = find (\<lambda>r. recommendationId r = i) (getActiveRecommendations route store)"

definition acceptRedirection ::
  "RouteId \<Rightarrow> string \<Rightarrow> string \<Rightarrow> int \<Rightarrow> RedirectionState \<Rightarrow> ShuttleRedirectionRecommendation option \<times> RedirectionState" where
  "acceptRedirection route i dispatcherId now store =
     (case findRecommendation route i store of
        None \<Rightarrow> (None, store)
      | Some recommendation \<Rightarrow>
          (let updated = recommendation\<lparr>redir_status := ACCEPTED, acceptedAt := Some (toISOString now),
                 acceptedByDispatcherId := Some dispatcherId\<rparr>
           in (Some updated, updateRecommendation updated store)))"

text \<open>\<open>now\<close> is the argument of the method, \<open>clock\<close> the time the suppression store reads.\<close>

definition rejectRedirection ::
  "RouteId \<Rightarrow> string \<Rightarrow> string \<Rightarrow> int \<Rightarrow> int \<Rightarrow> RedirectionState \<times> RedisState
    \<Rightarrow> ShuttleRedirectionRecommendation option \<times> RedirectionState \<times> RedisState" where
  "rejectRedirection route i dispatcherId now clock st =
     (case findRecommendation route i (fst st) of
        None \<Rightarrow> (None, st)
      | Some recommendation \<Rightarrow>
          (let updated = recommendation\<lparr>redir_status := REJECTED, rejectedAt := Some (toISOString now),
                 rejectedByDispatcherId := Some dispatcherId\<rparr>
           in (Some updated, updateRecommendation updated (fst st),
               suppression_record (redir_routeId recommendation) (redir_alternativeGateId recommendation) clock (snd st))))"

section \<open>What is generated\<close>

lemma loop_eq:
  "redirections_loop lc g level s forecasts rejections now routes =
    (case pickAlternativeGate lc (gate_id g) level forecasts of
       None \<Rightarrow> []
     | Some alt \<Rightarrow> if alt = [] then [] else
         map (\<lambda>route. redirection_for g level s (toISOString now) route alt)
           (filter (\<lambda>route. \<not> isSuppressed (route_id route) alt rejections now) routes))"
  by (induction routes) (auto simp: Let_def split: option.splits)

lemma HIGH_OR_CRITICAL_iff: "r \<in> set HIGH_OR_CRITICAL \<longleftrightarrow> high_or_critical r"
  by (simp add: HIGH_OR_CRITICAL_def high_or_critical_def)

text \<open>C27. Safety of redirections: whatever the forecasts, routes and rejections, a redirection is only
  generated when the origin gate's current level is \<open>HIGH\<close> or \<open>CRITICAL\<close>; it is pending, it is for a
  route among those offered that is assigned to the origin gate, it leads to another gate with a
  forecast whose current level is strictly lower, and no rejection of that route and gate is less
  than five minutes old.\<close>

theorem redirections_safe:
  assumes "distinct (map fst forecasts)" "r \<in> set (generateRedirections lc g forecasts routes rejections now)"
  shows "high_or_critical (currentRiskLevel (map_of forecasts (gate_id g))) \<and> redir_status r = PENDING \<and>
    redir_originGateId r = gate_id g \<and> redir_routeId r \<in> set (assignedRouteIds g) \<and> redir_routeId r \<in> route_id ` set routes \<and>
    redir_alternativeGateId r \<noteq> gate_id g \<and> redir_alternativeGateId r \<in> fst ` set forecasts \<and>
    currentRiskLevel (map_of forecasts (redir_alternativeGateId r)) < currentRiskLevel (map_of forecasts (gate_id g)) \<and>
    (\<forall>j \<in> set rejections. rej_routeId j = redir_routeId r \<and> rej_alternativeGateId j = redir_alternativeGateId r \<longrightarrow>
      (\<forall>t. date_parse (rej_rejectedAt j) = Some t \<longrightarrow> 300000 \<le> now - t))"
proof -
  let ?l = "currentRiskLevel (map_of forecasts (gate_id g))"
  have hc: "high_or_critical ?l"
    using assms(2) by (simp add: generateRedirections_def Let_def HIGH_OR_CRITICAL_iff split: if_splits)
  obtain alt where alt: "pickAlternativeGate lc (gate_id g) ?l forecasts = Some alt"
    using assms(2) by (cases "pickAlternativeGate lc (gate_id g) ?l forecasts")
      (simp_all add: generateRedirections_def Let_def loop_eq split: if_splits)
  from assms(2) hc obtain route where route: "route \<in> set routes" "route_id route \<in> set (assignedRouteIds g)"
      "\<not> isSuppressed (route_id route) alt rejections now"
    and r: "r = redirection_for g ?l (currentScore (map_of forecasts (gate_id g))) (toISOString now) route alt"
    by (auto simp: generateRedirections_def Let_def HIGH_OR_CRITICAL_iff loop_eq alt split: if_splits)
  have "\<forall>j \<in> set rejections. rej_routeId j = route_id route \<and> rej_alternativeGateId j = alt \<longrightarrow>
      (\<forall>t. date_parse (rej_rejectedAt j) = Some t \<longrightarrow> 300000 \<le> now - t)"
    using route(3) by (auto simp: isSuppressed_def rejection_applies_def REJECTION_SUPPRESSION_MS_def list_ex_iff)
  moreover have "alt \<in> fst ` set forecasts"
    using pick_Some_head [OF alt] by (metis fst_conv imageI)
  ultimately show ?thesis
    using hc route pick_lower_risk [OF alt assms(1)] by (auto simp: r redirection_for_def)
qed

text \<open>Completeness of redirections: at a gate at \<open>HIGH\<close> or \<open>CRITICAL\<close> with an alternative of lower level,
  every offered route assigned to the gate gets exactly one redirection, in the order of the
  routes, except the routes whose rejection for that alternative is less than five minutes old.\<close>

theorem redirections_complete:
  assumes "high_or_critical (currentRiskLevel (map_of forecasts (gate_id g)))"
    and "pickAlternativeGate lc (gate_id g) (currentRiskLevel (map_of forecasts (gate_id g))) forecasts = Some alt" "alt \<noteq> []"
  shows "map redir_routeId (generateRedirections lc g forecasts routes rejections now) =
      filter (\<lambda>i. i \<in> set (assignedRouteIds g) \<and>
        \<not> (\<exists>j \<in> set rejections. rej_routeId j = i \<and> rej_alternativeGateId j = alt \<and>
            (\<exists>t. date_parse (rej_rejectedAt j) = Some t \<and> now - t < 300000))) (map route_id routes) \<and>
    (\<forall>r \<in> set (generateRedirections lc g forecasts routes rejections now). redir_alternativeGateId r = alt)"
proof -
  let ?f = "\<lambda>i. i \<in> set (assignedRouteIds g) \<and> \<not> isSuppressed i alt rejections now"
  have s: "isSuppressed i alt rejections now \<longleftrightarrow> (\<exists>j \<in> set rejections. rej_routeId j = i \<and> rej_alternativeGateId j = alt \<and>
            (\<exists>t. date_parse (rej_rejectedAt j) = Some t \<and> now - t < 300000))" for i
    by (auto simp: isSuppressed_def rejection_applies_def REJECTION_SUPPRESSION_MS_def list_ex_iff split: option.splits)
  have g: "generateRedirections lc g forecasts routes rejections now =
    map (\<lambda>route. redirection_for g (currentRiskLevel (map_of forecasts (gate_id g)))
        (currentScore (map_of forecasts (gate_id g))) (toISOString now) route alt)
      (filter (?f \<circ> route_id) routes)"
    using assms by (simp add: generateRedirections_def Let_def HIGH_OR_CRITICAL_iff loop_eq comp_def conj_commute)
  have "map redir_routeId (generateRedirections lc g forecasts routes rejections now) = map route_id (filter (?f \<circ> route_id) routes)"
    by (simp add: g redirection_for_def comp_def)
  also have "\<dots> = filter ?f (map route_id routes)" by (simp add: filter_map)
  finally show ?thesis unfolding s by (auto simp: g redirection_for_def)
qed

definition demo_origin :: Gate where
  "demo_origin = \<lparr>gate_id = ''a'', gate_name = ''A'', capacityThreshold = Fin 500, assignedRouteIds = [''r1'', ''r2'']\<rparr>"

definition two_gates :: "(GateId, ForecastResult) jsmap" where
  "two_gates = [(''a'', forecast_of ''a'' 92 CRITICAL), (''b'', forecast_of ''b'' 50 MODERATE)]"

definition demo_routes :: "ShuttleRoute list" where
  "demo_routes = [\<lparr>route_id = ''r1'', servedGateIds = [''a'']\<rparr>, \<lparr>route_id = ''r2'', servedGateIds = [''a'']\<rparr>,
     \<lparr>route_id = ''r3'', servedGateIds = [''a'']\<rparr>]"

definition demo_rejection :: RejectionRecord where
  "demo_rejection = \<lparr>rej_routeId = ''r1'', rej_alternativeGateId = ''b'', rej_rejectedAt = toISOString 0\<rparr>"

lemma demo_pick: "pickAlternativeGate code_unit_compare ''a'' CRITICAL two_gates = Some ''b''"
  by (simp add: pickAlternativeGate_def alternative_candidates_def two_gates_def candidate_of_def
      riskOrderOf_def RISK_ORDER_def)

lemma redirections_complete_witness:
  "map redir_routeId (generateRedirections code_unit_compare demo_origin two_gates demo_routes [demo_rejection] 299999) = [''r2'']"
  using redirections_complete [of two_gates demo_origin code_unit_compare "''b''" demo_routes "[demo_rejection]" 299999]
    date_parse_toISOString [of 0]
  by (simp add: demo_origin_def demo_pick two_gates_def demo_routes_def demo_rejection_def high_or_critical_def
      valid_time_def demo_pick [unfolded two_gates_def])

lemma demo_redirections:
  "generateRedirections code_unit_compare demo_origin two_gates demo_routes [] 300000 =
    map (\<lambda>r. redirection_for demo_origin CRITICAL (Fin 92) (toISOString 300000) r ''b'') (take 2 demo_routes)"
  using demo_pick by (simp add: generateRedirections_def loop_eq demo_origin_def two_gates_def HIGH_OR_CRITICAL_def
      demo_routes_def isSuppressed_def)

lemma redirections_safe_witness:
  "let r = redirection_for demo_origin CRITICAL (Fin 92) (toISOString 300000) (hd demo_routes) ''b''
   in r \<in> set (generateRedirections code_unit_compare demo_origin two_gates demo_routes [] 300000) \<and>
     redir_routeId r \<in> set (assignedRouteIds demo_origin) \<and>
     currentRiskLevel (map_of two_gates (redir_alternativeGateId r)) < CRITICAL"
proof -
  let ?r = "redirection_for demo_origin CRITICAL (Fin 92) (toISOString 300000) (hd demo_routes) ''b''"
  have d: "distinct (map fst two_gates)" by (simp add: two_gates_def)
  have r: "?r \<in> set (generateRedirections code_unit_compare demo_origin two_gates demo_routes [] 300000)"
    unfolding demo_redirections by (simp add: demo_routes_def)
  have "currentRiskLevel (map_of two_gates (gate_id demo_origin)) = CRITICAL"
    by (simp add: two_gates_def demo_origin_def)
  with redirections_safe [OF d r] r show ?thesis by (simp only: Let_def)
qed

section \<open>What the dispatcher does\<close>

text \<open>Recommendations are stored under their own route; every update keeps it so.\<close>

definition redirections_ok :: "RedirectionState \<Rightarrow> bool" where
  "redirections_ok m = (\<forall>route. \<forall>r \<in> set (getActiveRecommendations route m). redir_routeId r = route)"

lemma set_upsert: "set (upsert_recommendation rec xs) \<subseteq> insert rec (set xs)"
  by (auto simp: upsert_recommendation_def split: option.splits dest: set_update_subset_insert [THEN subsetD])

lemma redirections_ok_update: "redirections_ok m \<Longrightarrow> redirections_ok (updateRecommendation rec m)"
  using set_upsert by (fastforce simp: redirections_ok_def store_simps)

lemma redirections_ok_empty: "redirections_ok []"
  by (simp add: redirections_ok_def getActiveRecommendations_def)

lemma upsert_found:
  assumes "find (\<lambda>r. recommendationId r = i) xs = Some r" "recommendationId u = i"
  shows "\<exists>ys zs. xs = ys @ r # zs \<and> upsert_recommendation u xs = ys @ u # zs \<and> i \<notin> recommendationId ` set ys"
proof -
  obtain k where k: "k < length xs" "recommendationId (xs ! k) = i" "r = xs ! k" "\<forall>j < k. recommendationId (xs ! j) \<noteq> i"
    using assms(1) by (auto simp: find_Some_iff)
  have "find_index (\<lambda>r. recommendationId r = i) xs \<noteq> None" using k by (auto simp: find_index_None)
  then obtain k' where k': "find_index (\<lambda>r. recommendationId r = i) xs = Some k'" by blast
  then have "k' = k" using find_index_Some [OF k'] k by (metis linorder_neqE_nat)
  then have "upsert_recommendation u xs = xs[k := u]" using k' assms(2) by (simp add: upsert_recommendation_def)
  moreover have "i \<notin> recommendationId ` set (take k xs)" using k(1,4) by (force simp: in_set_conv_nth)
  ultimately show ?thesis using k
    by (intro exI [of _ "take k xs"] exI [of _ "drop (Suc k) xs"]) (simp add: id_take_nth_drop upd_conv_take_nth_drop)
qed

text \<open>What a decision does to the store: one recommendation of the route is replaced.\<close>

definition replaces ::
  "RouteId \<Rightarrow> ShuttleRedirectionRecommendation \<Rightarrow> ShuttleRedirectionRecommendation \<Rightarrow> RedirectionState \<Rightarrow> RedirectionState \<Rightarrow> bool" where
  "replaces route r u m m' = (\<exists>ys zs. getActiveRecommendations route m = ys @ r # zs \<and>
     getActiveRecommendations route m' = ys @ u # zs \<and> recommendationId r \<notin> recommendationId ` set ys \<and>
     (\<forall>route'. route' \<noteq> route \<longrightarrow> getActiveRecommendations route' m' = getActiveRecommendations route' m))"

lemma update_replaces:
  assumes "redirections_ok m" "findRecommendation route i m = Some r" "recommendationId u = i" "redir_routeId u = redir_routeId r"
  shows "replaces route r u m (updateRecommendation u m)" "redir_routeId r = route" "recommendationId r = i"
proof -
  have r: "r \<in> set (getActiveRecommendations route m)" "recommendationId r = i"
    using assms(2) find_Some_in by (fastforce simp: findRecommendation_def)+
  then show i: "redir_routeId r = route" "recommendationId r = i" using assms(1) by (auto simp: redirections_ok_def)
  show "replaces route r u m (updateRecommendation u m)"
    using upsert_found [OF assms(2) [unfolded findRecommendation_def] assms(3)] i assms(4)
    by (auto simp: replaces_def store_simps)
qed

lemma findRecommendation_None: "findRecommendation route i m = None \<longleftrightarrow> i \<notin> recommendationId ` set (getActiveRecommendations route m)"
  by (auto simp: findRecommendation_def find_None_iff)

text \<open>C32. Decisions of the dispatcher: for an unknown recommendation of the route the answer is \<open>null\<close> and
  nothing changes. Otherwise, whatever was decided about it before, accepting marks that
  recommendation accepted with the time and the dispatcher, and rejecting marks it rejected; no
  other recommendation, of this or another route, changes, nor the order. Accepting leaves the
  suppression store alone.\<close>

theorem dispatcher_decisions:
  assumes "redirections_ok m"
  shows "(case acceptRedirection route i d now m of
      (None, m') \<Rightarrow> m' = m \<and> i \<notin> recommendationId ` set (getActiveRecommendations route m)
    | (Some u, m') \<Rightarrow> redirections_ok m' \<and> (\<exists>r. recommendationId r = i \<and> replaces route r u m m' \<and>
        u = r\<lparr>redir_status := ACCEPTED, acceptedAt := Some (toISOString now), acceptedByDispatcherId := Some d\<rparr>)) \<and>
    (case rejectRedirection route i d now clock (m, redis) of
      (None, m', redis') \<Rightarrow> m' = m \<and> redis' = redis \<and> i \<notin> recommendationId ` set (getActiveRecommendations route m)
    | (Some u, m', redis') \<Rightarrow> redirections_ok m' \<and> (\<exists>r. recommendationId r = i \<and> replaces route r u m m' \<and>
        u = r\<lparr>redir_status := REJECTED, rejectedAt := Some (toISOString now), rejectedByDispatcherId := Some d\<rparr> \<and>
        redis' = recordRejection route (redir_alternativeGateId r) 300000 clock redis))"
proof (cases "findRecommendation route i m")
  case None
  then show ?thesis using findRecommendation_None [of route i m]
    by (simp add: acceptRedirection_def rejectRedirection_def)
next
  case (Some r)
  have id: "recommendationId r = i" using Some find_Some_in by (fastforce simp: findRecommendation_def)
  let ?a = "r\<lparr>redir_status := ACCEPTED, acceptedAt := Some (toISOString now), acceptedByDispatcherId := Some d\<rparr>"
  let ?j = "r\<lparr>redir_status := REJECTED, rejectedAt := Some (toISOString now), rejectedByDispatcherId := Some d\<rparr>"
  have a: "replaces route r ?a m (updateRecommendation ?a m)" and j: "replaces route r ?j m (updateRecommendation ?j m)"
    and route: "redir_routeId r = route"
    using id by (auto intro!: update_replaces [OF assms Some])
  have "acceptRedirection route i d now m = (Some ?a, updateRecommendation ?a m)"
    "rejectRedirection route i d now clock (m, redis) = (Some ?j, updateRecommendation ?j m,
      recordRejection route (redir_alternativeGateId r) 300000 clock redis)"
    using Some route by (simp_all add: acceptRedirection_def rejectRedirection_def suppression_record_def REJECTION_SUPPRESSION_MS_def Let_def)
  with a j id redirections_ok_update [OF assms] show ?thesis by auto
qed

text \<open>Suppression after a rejection: over any later reads and rejections of other recommendations,
  in any order, the rejected route and gate are suppressed for exactly five minutes.\<close>

theorem rejection_suppresses:
  assumes "rejectRedirection route i d now clock (m, redis) = (Some u, m', redis')" "redirections_ok m" "no_colon route"
    and "leaves_key (\<lambda>k. no_colon (fst k)) (route, redir_alternativeGateId u) t ops"
  shows "fst (suppression_isSuppressed route (redir_alternativeGateId u) t (run_store put_rejection get_rejection ops redis'))
    \<longleftrightarrow> t < clock + 300000"
proof -
  obtain r where r: "findRecommendation route i m = Some r" "redir_alternativeGateId u = redir_alternativeGateId r"
    "redis' = suppression_record (redir_routeId r) (redir_alternativeGateId r) clock redis"
    using assms(1) by (cases "findRecommendation route i m") (auto simp: rejectRedirection_def Let_def)
  have "redir_routeId r = route"
    using r(1) assms(2) find_Some_in by (fastforce simp: findRecommendation_def redirections_ok_def)
  then have redis': "redis' = put_rejection (route, redir_alternativeGateId u) () 300000 clock redis"
    using r by (simp add: put_rejection_def suppression_record_def REJECTION_SUPPRESSION_MS_def)
  have "fst (get_rejection (route, redir_alternativeGateId u) t (run_store put_rejection get_rejection ops redis')) =
    (if t < clock + 300000 then Some () else None)"
    unfolding redis' using rejections.run_live [OF _ assms(4), of "()" 300000 clock redis] assms(3) by simp
  then show ?thesis
    by (simp add: get_rejection_def suppression_isSuppressed_def case_prod_beta Let_def split: if_splits)
qed

definition demo_recommendation :: ShuttleRedirectionRecommendation where
  "demo_recommendation = redirection_for demo_origin CRITICAL (Fin 92) (toISOString 0) (hd demo_routes) ''b''"

definition demo_store :: RedirectionState where
  "demo_store = [(''r1'', [demo_recommendation])]"

lemma demo_store_ok: "redirections_ok demo_store"
  by (simp add: redirections_ok_def demo_store_def getActiveRecommendations_def get_or_def demo_recommendation_def
      redirection_for_def demo_routes_def)

lemma demo_found: "findRecommendation ''r1'' (recommendationId demo_recommendation) demo_store = Some demo_recommendation"
  by (simp add: findRecommendation_def demo_store_def getActiveRecommendations_def get_or_def)

lemma dispatcher_decisions_witness:
  "\<exists>u m' r. acceptRedirection ''r1'' (recommendationId demo_recommendation) ''d'' 7 demo_store = (Some u, m') \<and>
    replaces ''r1'' r u demo_store m' \<and> redir_status u = ACCEPTED"
proof -
  obtain u m' where u: "acceptRedirection ''r1'' (recommendationId demo_recommendation) ''d'' 7 demo_store = (Some u, m')"
    by (simp add: acceptRedirection_def demo_found Let_def)
  from dispatcher_decisions [OF demo_store_ok, where route = "''r1''" and i = "recommendationId demo_recommendation"
      and d = "''d''" and now = 7 and clock = 7 and redis = empty_redis]
  obtain r where "replaces ''r1'' r u demo_store m'"
    "u = r\<lparr>redir_status := ACCEPTED, acceptedAt := Some (toISOString 7), acceptedByDispatcherId := Some ''d''\<rparr>"
    unfolding u by auto
  with u show ?thesis by simp blast
qed

lemma rejection_suppresses_witness:
  "\<exists>u m' redis'. rejectRedirection ''r1'' (recommendationId demo_recommendation) ''d'' 7 7 (demo_store, empty_redis) = (Some u, m', redis') \<and>
    fst (suppression_isSuppressed ''r1'' (redir_alternativeGateId u) 300006 (run_store put_rejection get_rejection
      [Get (''r1'', ''b'') 100, Put (''r2'', ''b'') () 5 200] redis'))"
proof -
  obtain u m' redis' where u: "rejectRedirection ''r1'' (recommendationId demo_recommendation) ''d'' 7 7 (demo_store, empty_redis) = (Some u, m', redis')"
    by (simp add: rejectRedirection_def demo_found Let_def)
  have n: "no_colon ''r1''" by (simp add: no_colon_def)
  have l: "leaves_key (\<lambda>k. no_colon (fst k)) (''r1'', redir_alternativeGateId u) 300006
      [Get (''r1'', ''b'') 100, Put (''r2'', ''b'') () 5 200]"
    by (simp add: leaves_key_def no_colon_def)
  from rejection_suppresses [OF u demo_store_ok n l] u show ?thesis by simp
qed

end
