(* ===== verification/Nudges.thy ===== *)
theory Nudges
  imports Stores RiskLevels RedisStore
begin

text \<open>
  The fan notification system: \<open>src/fan-notification-system/nudges.ts\<close>, \<open>service.ts\<close>,
  \<open>delivery.ts\<close>, \<open>delivery-worker.ts\<close> and \<open>api.ts\<close>. Two lemmas span histories: over any
  sequence of score updates the nudges to a fan for a gate keep their distance in time, and the
  delivery worker settles every queued nudge exactly once.
\<close>

section \<open>Generating a nudge\<close>

definition COOLDOWN_PERIOD_MS :: int where
  "COOLDOWN_PERIOD_MS = 5 * 60 * 1000"

record FanContext =
  fan_fanId :: FanId

text \<open>A stored time that is no date gives a difference of \<open>NaN\<close>, which is not below the period.\<close>

definition in_cooldown :: "int option option \<Rightarrow> int \<Rightarrow> bool" where
  "in_cooldown lastNudgeAt now = (case lastNudgeAt of
       None \<Rightarrow> False
     | Some None \<Rightarrow> False
     | Some (Some t) \<Rightarrow> now - t < COOLDOWN_PERIOD_MS)"

definition generateFanNudge ::
  "(string \<Rightarrow> string \<Rightarrow> jsnum) \<Rightarrow> FanContext \<Rightarrow> Gate \<Rightarrow> (GateId, ForecastResult) jsmap \<Rightarrow> int option option \<Rightarrow> int \<Rightarrow> FanNudge option" where
  "generateFanNudge lc fan originGate forecastsByGate lastNudgeAt now =
     (if in_cooldown lastNudgeAt now then None
      else
        (let originForecast = map_of forecastsByGate (gate_id originGate);
             originRiskLevel = currentRiskLevel originForecast
         in if \<not> high_or_critical originRiskLevel then None
            else
              (let alternativeGate = pickAlternativeGate lc (gate_id originGate) originRiskLevel forecastsByGate;
                   generatedAt = toISOString now;
                   arrivalTime = (if truthy_str alternativeGate then None
                     else Some (toISOString (now + 20 * 60 * 1000)));
                   message = (if truthy_str alternativeGate
                     then gate_name originGate @ '' is experiencing '' @ risk_string originRiskLevel
                       @ '' congestion. Consider using Gate '' @ the alternativeGate @ '' instead.''
                     else gate_name originGate @ '' is experiencing '' @ risk_string originRiskLevel
                       @ '' congestion. Consider arriving later, around '' @ the arrivalTime @ ''.'')
               in Some \<lparr>nudgeId = fan_fanId fan @ ''-'' @ gate_id originGate @ ''-'' @ generatedAt,
                    nudge_fanId = fan_fanId fan, nudge_originGateId = gate_id originGate,
                    nudge_alternativeGateId = alternativeGate, alternativeArrivalTime = arrivalTime,
                    alternativeRouteId = None, nudge_message = message, nudge_generatedAt = generatedAt,
                    simulatedDeliveryTimestamp = None, nudge_status = QUEUED\<rparr>)))"

text \<open>C28. A nudge is generated exactly when the fan's cooldown for the gate is over and the gate's current
  level is \<open>HIGH\<close> or \<open>CRITICAL\<close>. It is queued, names the fan and the gate, and carries a usable
  alternative: another gate of strictly lower current level, or, when there is none to name, an
  arrival time twenty minutes later.\<close>

theorem nudge_generation:
  assumes "distinct (map fst forecasts)"
  shows "case generateFanNudge lc fan g forecasts lastNudgeAt now of
      None \<Rightarrow> (\<exists>t. lastNudgeAt = Some (Some t) \<and> now - t < 300000) \<or>
        \<not> high_or_critical (currentRiskLevel (map_of forecasts (gate_id g)))
    | Some n \<Rightarrow> \<not> (\<exists>t. lastNudgeAt = Some (Some t) \<and> now - t < 300000) \<and>
        high_or_critical (currentRiskLevel (map_of forecasts (gate_id g))) \<and>
        nudge_status n = QUEUED \<and> nudge_fanId n = fan_fanId fan \<and> nudge_originGateId n = gate_id g \<and>
        nudge_generatedAt n = toISOString now \<and>
        (if truthy_str (nudge_alternativeGateId n)
         then alternativeArrivalTime n = None \<and> nudge_alternativeGateId n \<noteq> Some (gate_id g) \<and>
           currentRiskLevel (map_of forecasts (the (nudge_alternativeGateId n)))
             < currentRiskLevel (map_of forecasts (gate_id g))
         else alternativeArrivalTime n = Some (toISOString (now + 1200000)))"
proof -
  let ?l = "currentRiskLevel (map_of forecasts (gate_id g))"
  have cd: "in_cooldown lastNudgeAt now \<longleftrightarrow> (\<exists>t. lastNudgeAt = Some (Some t) \<and> now - t < 300000)"
    by (auto simp: in_cooldown_def COOLDOWN_PERIOD_MS_def split: option.splits)
  have alt: "a \<noteq> gate_id g \<and> currentRiskLevel (map_of forecasts a) < ?l"
    if "pickAlternativeGate lc (gate_id g) ?l forecasts = Some a" for a
    using pick_lower_risk [OF that assms] .
  show ?thesis
    using alt by (cases "pickAlternativeGate lc (gate_id g) ?l forecasts")
      (auto simp: generateFanNudge_def Let_def simp flip: cd)
qed

definition demo_fan :: FanContext where
  "demo_fan = \<lparr>fan_fanId = ''f1''\<rparr>"

definition busy_gate :: Gate where
  "busy_gate = \<lparr>gate_id = ''a'', gate_name = ''Gate A'', capacityThreshold = Fin 500, assignedRouteIds = []\<rparr>"

lemma nudge_generation_witness:
  "\<exists>n. generateFanNudge code_unit_compare demo_fan busy_gate three_gates (Some (Some 0)) 300000 = Some n \<and>
    nudge_status n = QUEUED \<and> nudge_fanId n = ''f1'' \<and>
    (if truthy_str (nudge_alternativeGateId n)
     then currentRiskLevel (map_of three_gates (the (nudge_alternativeGateId n))) < CRITICAL
     else alternativeArrivalTime n = Some (toISOString 1500000))"
proof -
  have d: "distinct (map fst three_gates)" and l: "currentRiskLevel (map_of three_gates ''a'') = CRITICAL"
    by (simp_all add: three_gates_def)
  obtain n where n: "generateFanNudge code_unit_compare demo_fan busy_gate three_gates (Some (Some 0)) 300000 = Some n"
    using l by (simp add: generateFanNudge_def in_cooldown_def COOLDOWN_PERIOD_MS_def busy_gate_def Let_def high_or_critical_def)
  from nudge_generation [OF d, where lc = code_unit_compare and fan = demo_fan and g = busy_gate
      and lastNudgeAt = "Some (Some 0)" and now = 300000] n l
  show ?thesis by (auto simp: busy_gate_def demo_fan_def)
qed

section \<open>Generating nudges for the fans of a gate\<close>

text \<open>The body of the loop over the fans: the cooldown is read and, when a nudge is generated, set
  before the nudge is enqueued. \<open>clock\<close> is the time the cooldown store reads.\<close>

definition nudge_fan ::
  "(string \<Rightarrow> string \<Rightarrow> jsnum) \<Rightarrow> Gate \<Rightarrow> (GateId, ForecastResult) jsmap \<Rightarrow> int \<Rightarrow> int \<Rightarrow> FanContext
    \<Rightarrow> RedisState \<times> QueuedNudgeState \<Rightarrow> FanNudge option \<times> RedisState \<times> QueuedNudgeState" where
  "nudge_fan lc originGate forecastsByGate now clock fan st =
     (let (lastNudgeAt, redis) = getLastNudgeAt (fan_fanId fan) (gate_id originGate) clock (fst st)
      in case generateFanNudge lc fan originGate forecastsByGate lastNudgeAt now of
           None \<Rightarrow> (None, redis, snd st)
         | Some nudge \<Rightarrow>
             (Some nudge,
              setLastNudgeAt (fan_fanId fan) (gate_id originGate) now COOLDOWN_PERIOD_MS clock redis,
              enqueueNudge nudge (snd st)))"

fun nudge_onScoreUpdate ::
  "(string \<Rightarrow> string \<Rightarrow> jsnum) \<Rightarrow> FanContext list \<Rightarrow> Gate \<Rightarrow> (GateId, ForecastResult) jsmap \<Rightarrow> int \<Rightarrow> int
    \<Rightarrow> RedisState \<times> QueuedNudgeState \<Rightarrow> FanNudge list \<times> RedisState \<times> QueuedNudgeState" where
  "nudge_onScoreUpdate lc [] originGate forecastsByGate now clock st = ([], st)"
| "nudge_onScoreUpdate lc (fan # fans) originGate forecastsByGate now clock st =
     (let (n, st1) = nudge_fan lc originGate forecastsByGate now clock fan st;
          (generated, st2) = nudge_onScoreUpdate lc fans originGate forecastsByGate now clock st1
      in (case n of None \<Rightarrow> generated | Some nudge \<Rightarrow> nudge # generated, st2))"

section \<open>Delivery\<close>

record DeliveryRecord =
  dr_fanId :: FanId
  dr_message :: string
  dr_targetGate :: GateId
  dr_simulatedDeliveryTimestamp :: string

definition LOW_OR_MODERATE :: "RiskLevel list" where
  "LOW_OR_MODERATE = [LOW, MODERATE]"

definition simulateDelivery ::
  "FanNudge \<Rightarrow> (GateId, ForecastResult) jsmap \<Rightarrow> int \<Rightarrow> FanNudge \<times> DeliveryRecord option" where
  "simulateDelivery nudge forecastsByGate now =
     (let level = currentRiskLevel (map_of forecastsByGate (nudge_originGateId nudge))
      in if level \<in> set LOW_OR_MODERATE then (nudge\<lparr>nudge_status := CANCELLED\<rparr>, None)
         else
           (let at_time = toISOString now;
                deliveryRecord = \<lparr>dr_fanId = nudge_fanId nudge, dr_message = nudge_message nudge,
                  dr_targetGate = nudge_originGateId nudge, dr_simulatedDeliveryTimestamp = at_time\<rparr>
            in (nudge\<lparr>nudge_status := SIMULATED_DELIVERED, simulatedDeliveryTimestamp := Some at_time\<rparr>,
                Some deliveryRecord)))"

text \<open>The worker: a snapshot of the queue is walked, each nudge still queued is settled. The queue and
  the audit sink are arguments that act on a state.\<close>

definition deliver_one ::
  "(FanNudge \<Rightarrow> 's \<Rightarrow> 's) \<Rightarrow> (FanNudge \<Rightarrow> DeliveryRecord \<Rightarrow> 's \<Rightarrow> 's) \<Rightarrow> (FanNudge \<Rightarrow> 's \<Rightarrow> 's)
    \<Rightarrow> (GateId, ForecastResult) jsmap \<Rightarrow> int \<Rightarrow> FanNudge \<Rightarrow> 's \<Rightarrow> 's" where
  "deliver_one update recordDelivery recordCancellation forecastsByGate now nudge s =
     (if nudge_status nudge \<noteq> QUEUED then s
      else
        (let (updated, deliveryRecord) = simulateDelivery nudge forecastsByGate now;
             s1 = update updated s
         in case deliveryRecord of
              Some r \<Rightarrow> recordDelivery updated r s1
            | None \<Rightarrow> recordCancellation updated s1))"

definition processQueue ::
  "('s \<Rightarrow> FanNudge list) \<Rightarrow> (FanNudge \<Rightarrow> 's \<Rightarrow> 's) \<Rightarrow> (FanNudge \<Rightarrow> DeliveryRecord \<Rightarrow> 's \<Rightarrow> 's) \<Rightarrow> (FanNudge \<Rightarrow> 's \<Rightarrow> 's)
    \<Rightarrow> (GateId, ForecastResult) jsmap \<Rightarrow> int \<Rightarrow> 's \<Rightarrow> 's" where
  "processQueue getQueued update recordDelivery recordCancellation forecastsByGate now s =
     fold (deliver_one update recordDelivery recordCancellation forecastsByGate now) (getQueued s) s"

text \<open>\<open>GET /v1/nudges\<close>.\<close>

definition getNudges :: "NudgeFilter \<Rightarrow> NudgeAuditQueryState \<Rightarrow> FanNudge list" where
  "getNudges f s = queryNudges f s"

section \<open>Cooldowns over a history of updates\<close>

text \<open>A history is a list of loop bodies with their gate, forecasts and time; \<open>run_nudges\<close> collects the
  nudges with the time of their generation.\<close>

record nudge_event =
  ne_fan :: FanContext
  ne_gate :: Gate
  ne_forecasts :: "(GateId, ForecastResult) jsmap"
  ne_time :: int

fun run_nudges :: "(string \<Rightarrow> string \<Rightarrow> jsnum) \<Rightarrow> nudge_event list \<Rightarrow> RedisState \<times> QueuedNudgeState
    \<Rightarrow> (int \<times> FanNudge) list \<times> RedisState \<times> QueuedNudgeState" where
  "run_nudges lc [] st = ([], st)"
| "run_nudges lc (e # es) st =
     (let (n, st1) = nudge_fan lc (ne_gate e) (ne_forecasts e) (ne_time e) (ne_time e) (ne_fan e) st;
          (ns, st2) = run_nudges lc es st1
      in (case n of None \<Rightarrow> ns | Some nudge \<Rightarrow> (ne_time e, nudge) # ns, st2))"

lemma run_nudges_append: "run_nudges lc (es @ es') st =
    (let (ns, st1) = run_nudges lc es st; (ns', st2) = run_nudges lc es' st1 in (ns @ ns', st2))"
  by (induction es arbitrary: st) (auto simp: case_prod_beta Let_def split: option.splits)

text \<open>A score update is such a history.\<close>

lemma onScoreUpdate_run:
  "nudge_onScoreUpdate lc fans g forecasts now now st =
    (let (ns, st') = run_nudges lc (map (\<lambda>f. \<lparr>ne_fan = f, ne_gate = g, ne_forecasts = forecasts, ne_time = now\<rparr>) fans) st
     in (map snd ns, st'))"
  by (induction fans arbitrary: st) (auto simp: case_prod_beta Let_def split: option.splits)

definition nudge_key :: "FanNudge \<Rightarrow> FanId \<times> GateId" where
  "nudge_key n = (nudge_fanId n, nudge_originGateId n)"

text \<open>From time \<open>now\<close> on, the store knows every generated nudge whose period is not over.\<close>

definition remembers :: "int \<Rightarrow> (int \<times> FanNudge) list \<Rightarrow> RedisState \<Rightarrow> bool" where
  "remembers now past redis = (\<forall>(t, n) \<in> set past. no_colon (nudge_originGateId n) \<and>
     (\<forall>t'. now \<le> t' \<and> t' < t + COOLDOWN_PERIOD_MS \<longrightarrow> fst (get_cooldown (nudge_key n) t' redis) = Some (Some t)))"

lemma nudge_fan_get:
  "nudge_fan lc g forecasts now clock fan st =
    (case generateFanNudge lc fan g forecasts (fst (get_cooldown (fan_fanId fan, gate_id g) clock (fst st))) now of
       None \<Rightarrow> (None, snd (get_cooldown (fan_fanId fan, gate_id g) clock (fst st)), snd st)
     | Some n \<Rightarrow> (Some n, put_cooldown (fan_fanId fan, gate_id g) now COOLDOWN_PERIOD_MS clock
         (snd (get_cooldown (fan_fanId fan, gate_id g) clock (fst st))), enqueueNudge n (snd st)))"
  by (simp add: nudge_fan_def get_cooldown_def put_cooldown_def case_prod_beta split: option.splits)

lemma generated_key:
  "generateFanNudge lc fan g forecasts l now = Some n \<Longrightarrow> nudge_key n = (fan_fanId fan, gate_id g) \<and>
    nudge_originGateId n = gate_id g \<and> \<not> in_cooldown l now"
  by (auto simp: generateFanNudge_def nudge_key_def Let_def split: if_splits)

lemma remembers_step:
  assumes "remembers now past (fst st)" "now \<le> ne_time e" "no_colon (gate_id (ne_gate e))" "valid_time (ne_time e)"
    and "nudge_fan lc (ne_gate e) (ne_forecasts e) (ne_time e) (ne_time e) (ne_fan e) st = (n, st')"
  shows "case n of None \<Rightarrow> remembers (ne_time e) past (fst st')
    | Some m \<Rightarrow> remembers (ne_time e) ((ne_time e, m) # past) (fst st') \<and>
        (\<forall>(t, m') \<in> set past. nudge_key m' = nudge_key m \<longrightarrow> t + COOLDOWN_PERIOD_MS \<le> ne_time e)"
proof -
  let ?k = "(fan_fanId (ne_fan e), gate_id (ne_gate e))" and ?t = "ne_time e"
  let ?r = "snd (get_cooldown ?k ?t (fst st))"
  have known: "no_colon (nudge_originGateId m)" "\<And>t'. ?t \<le> t' \<Longrightarrow> t' < t + COOLDOWN_PERIOD_MS \<Longrightarrow>
      fst (get_cooldown (nudge_key m) t' (fst st)) = Some (Some t)" if "(t, m) \<in> set past" for t m
    using assms(1,2) that by (auto simp: remembers_def)
  have frame: "fst (get_cooldown (nudge_key m) t' ?r) = fst (get_cooldown (nudge_key m) t' (fst st))"
    if "no_colon (nudge_originGateId m)" "?t \<le> t'" for m t'
    using cooldowns.get_get [of "nudge_key m" ?k ?t t' "fst st"] that assms(3) by (simp add: nudge_key_def)
  show ?thesis
  proof (cases "generateFanNudge lc (ne_fan e) (ne_gate e) (ne_forecasts e) (fst (get_cooldown ?k ?t (fst st))) ?t")
    case None
    with assms(5) known frame show ?thesis by (auto simp: nudge_fan_get remembers_def)
  next
    case (Some m)
    note key = generated_key [OF Some]
    have st': "n = Some m" "fst st' = put_cooldown ?k ?t COOLDOWN_PERIOD_MS ?t ?r"
      using assms(5) Some by (auto simp: nudge_fan_get)
    have old: "t + COOLDOWN_PERIOD_MS \<le> ?t" if "(t, m') \<in> set past" "nudge_key m' = nudge_key m" for t m'
    proof (rule ccontr)
      assume "\<not> t + COOLDOWN_PERIOD_MS \<le> ?t"
      then have "fst (get_cooldown ?k ?t (fst st)) = Some (Some t)"
        using known(2) [OF that(1), of ?t] that(2) key by simp
      with key \<open>\<not> t + COOLDOWN_PERIOD_MS \<le> ?t\<close> show False by (simp add: in_cooldown_def)
    qed
    have new: "fst (get_cooldown (nudge_key m) t' (fst st')) = Some (Some ?t)" if "t' < ?t + COOLDOWN_PERIOD_MS" for t'
      using cooldowns.get_put_same [of ?k t' ?t COOLDOWN_PERIOD_MS ?t ?r] that assms(3,4) key
      by (simp add: st' date_parse_toISOString)
    have "fst (get_cooldown (nudge_key m') t' (fst st')) = Some (Some t)"
      if m': "(t, m') \<in> set past" "?t \<le> t'" "t' < t + COOLDOWN_PERIOD_MS" for t m' t'
    proof -
      have "nudge_key m' \<noteq> ?k" using old [OF m'(1)] m'(2,3) key by auto
      then show ?thesis
        using cooldowns.get_put_other [of "nudge_key m'" ?k t' ?t COOLDOWN_PERIOD_MS ?t ?r] known [OF m'(1)]
          frame [OF known(1) [OF m'(1)] m'(2)] m'(2,3) assms(3)
        by (simp add: st' nudge_key_def)
    qed
    then have "remembers ?t ((?t, m) # past) (fst st')"
      using new known(1) key assms(3) by (auto simp: remembers_def)
    with old show ?thesis by (auto simp: st')
  qed
qed

definition spaced :: "(int \<times> FanNudge) list \<Rightarrow> bool" where
  "spaced ns = sorted_wrt (\<lambda>(t, n) (t', n'). nudge_key n = nudge_key n' \<longrightarrow> t + COOLDOWN_PERIOD_MS \<le> t') ns"

lemma run_nudges_spaced:
  assumes "remembers now past (fst st)" "sorted_wrt (\<le>) (now # map ne_time es)"
    and "\<forall>e \<in> set es. no_colon (gate_id (ne_gate e)) \<and> valid_time (ne_time e)"
  shows "spaced (fst (run_nudges lc es st)) \<and>
    (\<forall>(t, n) \<in> set past. \<forall>(t', n') \<in> set (fst (run_nudges lc es st)). nudge_key n = nudge_key n' \<longrightarrow> t + COOLDOWN_PERIOD_MS \<le> t')"
  using assms
proof (induction es arbitrary: now past st)
  case Nil
  then show ?case by (simp add: spaced_def)
next
  case (Cons e es)
  obtain n st' where s: "nudge_fan lc (ne_gate e) (ne_forecasts e) (ne_time e) (ne_time e) (ne_fan e) st = (n, st')"
    by (metis surj_pair)
  have le: "now \<le> ne_time e" "sorted_wrt (\<le>) (ne_time e # map ne_time es)" using Cons.prems(2) by auto
  note step = remembers_step [OF Cons.prems(1) le(1) _ _ s]
  show ?case
  proof (cases n)
    case None
    with step Cons.prems(3) have "remembers (ne_time e) past (fst st')" by simp
    from Cons.IH [OF this le(2)] Cons.prems(3) s None show ?thesis
      by (simp add: case_prod_beta)
  next
    case (Some m)
    with step Cons.prems(3) have r: "remembers (ne_time e) ((ne_time e, m) # past) (fst st')"
      "\<forall>(t, m') \<in> set past. nudge_key m' = nudge_key m \<longrightarrow> t + COOLDOWN_PERIOD_MS \<le> ne_time e" by simp_all
    from Cons.IH [OF r(1) le(2)] Cons.prems(3) r(2) s Some show ?thesis
      by (auto simp: case_prod_beta spaced_def)
  qed
qed

text \<open>Cooldown over any history: starting from an empty store, whatever the gates, forecasts and order
  of the fans of a sequence of score updates at times that do not decrease, two nudges to the same
  fan about the same gate are generated at least five minutes apart (gate ids without a colon).\<close>

theorem cooldown_respected:
  assumes "sorted_wrt (\<le>) (map ne_time es)" "\<forall>e \<in> set es. no_colon (gate_id (ne_gate e)) \<and> valid_time (ne_time e)"
  shows "sorted_wrt (\<lambda>(t, n) (t', n'). nudge_fanId n = nudge_fanId n' \<and> nudge_originGateId n = nudge_originGateId n'
      \<longrightarrow> t + 300000 \<le> t') (fst (run_nudges lc es (empty_redis, [])))"
proof (cases es)
  case Nil
  then show ?thesis by simp
next
  case (Cons e es')
  have "spaced (fst (run_nudges lc es (empty_redis, [])))"
    using run_nudges_spaced [of "ne_time e" "[]" "(empty_redis, [])" es lc] assms Cons
    by (auto simp: remembers_def)
  then show ?thesis
    by (simp add: spaced_def nudge_key_def COOLDOWN_PERIOD_MS_def)
qed

definition demo_update :: "int \<Rightarrow> nudge_event" where
  "demo_update t = \<lparr>ne_fan = demo_fan, ne_gate = busy_gate, ne_forecasts = three_gates, ne_time = t\<rparr>"

lemma cooldown_respected_witness:
  "sorted_wrt (\<lambda>(t, n) (t', n'). nudge_fanId n = nudge_fanId n' \<and> nudge_originGateId n = nudge_originGateId n'
      \<longrightarrow> t + 300000 \<le> t')
    (fst (run_nudges code_unit_compare [demo_update 0, demo_update 100000, demo_update 300000] (empty_redis, [])))"
  by (rule cooldown_respected) (simp_all add: demo_update_def busy_gate_def no_colon_def valid_time_def)

section \<open>Settling the queue\<close>

text \<open>The queue of the server with its audit sink: the operator's list of nudges and the audit
  repository.\<close>

record NudgeWorld =
  nw_queue :: QueuedNudgeState
  nw_query :: NudgeAuditQueryState
  nw_audit :: AuditState

definition world_update :: "FanNudge \<Rightarrow> NudgeWorld \<Rightarrow> NudgeWorld" where
  "world_update n w = w\<lparr>nw_queue := updateNudge n (nw_queue w)\<rparr>"

definition recordDelivery :: "FanNudge \<Rightarrow> DeliveryRecord \<Rightarrow> NudgeWorld \<Rightarrow> NudgeWorld" where
  "recordDelivery n r w = w\<lparr>nw_query := addNudge n (nw_query w), nw_audit := writeNudgeAudit n (nw_audit w)\<rparr>"

definition recordCancellation :: "FanNudge \<Rightarrow> NudgeWorld \<Rightarrow> NudgeWorld" where
  "recordCancellation n w = w\<lparr>nw_query := addNudge n (nw_query w), nw_audit := writeNudgeAudit n (nw_audit w)\<rparr>"

abbreviation process_world :: "(GateId, ForecastResult) jsmap \<Rightarrow> int \<Rightarrow> NudgeWorld \<Rightarrow> NudgeWorld" where
  "process_world \<equiv> processQueue (\<lambda>w. getQueuedNudges (nw_queue w)) world_update recordDelivery recordCancellation"

text \<open>The outcome of a queued nudge.\<close>

definition settled :: "(GateId, ForecastResult) jsmap \<Rightarrow> int \<Rightarrow> FanNudge \<Rightarrow> FanNudge" where
  "settled forecasts now n =
     (if nudge_status n \<noteq> QUEUED then n
      else if high_or_critical (currentRiskLevel (map_of forecasts (nudge_originGateId n)))
      then n\<lparr>nudge_status := SIMULATED_DELIVERED, simulatedDeliveryTimestamp := Some (toISOString now)\<rparr>
      else n\<lparr>nudge_status := CANCELLED\<rparr>)"

lemma settled_id: "nudgeId (settled forecasts now n) = nudgeId n"
  by (simp add: settled_def)

lemma settled_not_queued: "nudge_status (settled forecasts now n) \<noteq> QUEUED"
  by (simp add: settled_def)

lemma LOW_OR_MODERATE_iff: "l \<in> set LOW_OR_MODERATE \<longleftrightarrow> \<not> high_or_critical l"
  by (cases l) (simp_all add: LOW_OR_MODERATE_def high_or_critical_def)

definition queue_ok :: "QueuedNudgeState \<Rightarrow> bool" where
  "queue_ok m = (distinct (map fst m) \<and> (\<forall>(k, n) \<in> set m. k = nudgeId n))"

lemma set_AList_update: "set (AList.update k v m) \<subseteq> insert (k, v) (set m)"
  by (induction m) auto

lemma queue_ok_enqueue: "queue_ok m \<Longrightarrow> queue_ok (enqueueNudge n m)"
  using set_AList_update [of "nudgeId n" n m] by (auto simp: queue_ok_def enqueueNudge_def distinct_update)

lemma deliver_one_eq:
  "deliver_one world_update recordDelivery recordCancellation forecasts now n w =
    (if nudge_status n \<noteq> QUEUED then w
     else w\<lparr>nw_queue := updateNudge (settled forecasts now n) (nw_queue w),
       nw_query := nw_query w @ [settled forecasts now n],
       nw_audit := writeNudgeAudit (settled forecasts now n) (nw_audit w)\<rparr>)"
  by (simp add: deliver_one_def simulateDelivery_def Let_def settled_def LOW_OR_MODERATE_iff world_update_def
      recordDelivery_def recordCancellation_def addNudge_def)

lemma fold_deliver:
  assumes "distinct (map nudgeId ns)"
  shows "nw_query (fold (deliver_one world_update recordDelivery recordCancellation forecasts now) ns w) =
      nw_query w @ map (settled forecasts now) (filter (\<lambda>n. nudge_status n = QUEUED) ns) \<and>
    map_of (nw_queue (fold (deliver_one world_update recordDelivery recordCancellation forecasts now) ns w)) i =
      (case find (\<lambda>n. nudgeId n = i \<and> nudge_status n = QUEUED) ns of
         Some n \<Rightarrow> Some (settled forecasts now n) | None \<Rightarrow> map_of (nw_queue w) i) \<and>
    map_of (audit_nudges (nw_audit (fold (deliver_one world_update recordDelivery recordCancellation forecasts now) ns w))) i =
      (case find (\<lambda>n. nudgeId n = i \<and> nudge_status n = QUEUED) ns of
         Some n \<Rightarrow> Some (settled forecasts now n) | None \<Rightarrow> map_of (audit_nudges (nw_audit w)) i)"
  using assms
proof (induction ns arbitrary: w)
  case Nil
  then show ?case by simp
next
  case (Cons n ns)
  have none: "find (\<lambda>m. nudgeId m = nudgeId n \<and> nudge_status m = QUEUED) ns = None"
    using Cons.prems by (auto simp: find_None_iff) (metis imageI)
  show ?case
    using Cons none by (auto simp: deliver_one_eq updateNudge_def writeNudgeAudit_def store_simps settled_id
        split: option.splits)
qed

lemma queue_lookup:
  assumes "queue_ok m"
  shows "distinct (map nudgeId (getQueuedNudges m))"
    "find (\<lambda>n. nudgeId n = i \<and> nudge_status n = QUEUED) (getQueuedNudges m) =
      (case map_of m i of Some n \<Rightarrow> if nudge_status n = QUEUED then Some n else None | None \<Rightarrow> None)"
proof -
  have "map nudgeId (getQueuedNudges m) = map fst m"
    using assms by (auto simp: getQueuedNudges_def queue_ok_def)
  then show "distinct (map nudgeId (getQueuedNudges m))" using assms by (simp add: queue_ok_def)
  show "find (\<lambda>n. nudgeId n = i \<and> nudge_status n = QUEUED) (getQueuedNudges m) =
      (case map_of m i of Some n \<Rightarrow> if nudge_status n = QUEUED then Some n else None | None \<Rightarrow> None)"
    using assms
  proof (induction m)
    case Nil
    then show ?case by (simp add: getQueuedNudges_def)
  next
    case (Cons kn m)
    then obtain n where kn: "kn = (nudgeId n, n)" and m: "queue_ok m" "nudgeId n \<notin> fst ` set m"
      by (cases kn) (auto simp: queue_ok_def)
    have "nudgeId x \<noteq> nudgeId n" if "x \<in> snd ` set m" for x
      using that m by (force simp: queue_ok_def)
    then have none: "find (\<lambda>x. nudgeId x = nudgeId n \<and> nudge_status x = QUEUED) (map snd m) = None"
      by (auto simp: find_None_iff)
    show ?case
      using Cons.IH [OF m(1)] none by (cases "i = nudgeId n") (simp_all add: getQueuedNudges_def kn)
  qed
qed

text \<open>The delivery worker: one run settles exactly the queued nudges. A nudge whose gate is still at
  \<open>HIGH\<close> or \<open>CRITICAL\<close> becomes delivered with the time of delivery, any other queued nudge becomes cancelled,
  and nudges settled before stay as they are, so no nudge is queued afterwards. Every settled
  nudge, and no other, is appended once to the operator's list and written to the audit
  repository in its final state.\<close>

theorem delivery_settles:
  assumes "queue_ok (nw_queue w)"
  shows "(\<forall>i. map_of (nw_queue (process_world forecasts now w)) i = map_option (settled forecasts now) (map_of (nw_queue w) i)) \<and>
    (\<forall>i n. map_of (nw_queue (process_world forecasts now w)) i = Some n \<longrightarrow> nudge_status n \<noteq> QUEUED) \<and>
    nw_query (process_world forecasts now w) = nw_query w @
      map (settled forecasts now) (filter (\<lambda>n. nudge_status n = QUEUED) (getQueuedNudges (nw_queue w))) \<and>
    (\<forall>i. map_of (audit_nudges (nw_audit (process_world forecasts now w))) i =
      (case map_of (nw_queue w) i of
         Some n \<Rightarrow> if nudge_status n = QUEUED then Some (settled forecasts now n) else map_of (audit_nudges (nw_audit w)) i
       | None \<Rightarrow> map_of (audit_nudges (nw_audit w)) i))"
proof -
  note f = fold_deliver [OF queue_lookup(1) [OF assms], of forecasts now w, folded processQueue_def]
  have q: "map_of (nw_queue (process_world forecasts now w)) i = map_option (settled forecasts now) (map_of (nw_queue w) i)" for i
    using f [of i] unfolding processQueue_def queue_lookup(2) [OF assms]
    by (auto simp: settled_def [of forecasts now] split: option.splits)
  moreover have "nudge_status n \<noteq> QUEUED" if "map_of (nw_queue (process_world forecasts now w)) i = Some n" for i n
    using that settled_not_queued unfolding q by auto
  moreover have "nw_query (process_world forecasts now w) = nw_query w @
      map (settled forecasts now) (filter (\<lambda>n. nudge_status n = QUEUED) (getQueuedNudges (nw_queue w)))"
    using f unfolding processQueue_def by blast
  moreover have "map_of (audit_nudges (nw_audit (process_world forecasts now w))) i =
      (case map_of (nw_queue w) i of
         Some n \<Rightarrow> if nudge_status n = QUEUED then Some (settled forecasts now n) else map_of (audit_nudges (nw_audit w)) i
       | None \<Rightarrow> map_of (audit_nudges (nw_audit w)) i)" for i
    using f [of i] unfolding processQueue_def queue_lookup(2) [OF assms] by (auto split: option.splits)
  ultimately show ?thesis by blast
qed

definition demo_nudge :: "string \<Rightarrow> NudgeStatus \<Rightarrow> FanNudge" where
  "demo_nudge i st = \<lparr>nudgeId = i, nudge_fanId = ''f1'', nudge_originGateId = ''a'', nudge_alternativeGateId = Some ''c'',
     alternativeArrivalTime = None, alternativeRouteId = None, nudge_message = ''m'', nudge_generatedAt = toISOString 0,
     simulatedDeliveryTimestamp = None, nudge_status = st\<rparr>"

definition demo_world :: NudgeWorld where
  "demo_world = \<lparr>nw_queue = [(''1'', demo_nudge ''1'' CANCELLED), (''2'', demo_nudge ''2'' QUEUED)],
     nw_query = [], nw_audit = empty_audit\<rparr>"

lemma delivery_settles_witness:
  "nw_query (process_world three_gates 9 demo_world) = [settled three_gates 9 (demo_nudge ''2'' QUEUED)] \<and>
    map_of (nw_queue (process_world three_gates 9 demo_world)) ''1'' = Some (demo_nudge ''1'' CANCELLED)"
proof -
  have "queue_ok (nw_queue demo_world)" by (simp add: queue_ok_def demo_world_def demo_nudge_def)
  from delivery_settles [OF this, of three_gates 9]
  show ?thesis by (simp add: demo_world_def getQueuedNudges_def settled_def demo_nudge_def)
qed

end
