(* ===== verification/Auth.thy ===== *)
theory Auth
  imports Prelude
begin

text \<open>
  \<open>src/infra/auth.ts\<close>: API keys and roles. The parsed key map is an argument of the functions that
  read the module's variable; warnings printed to the console are not modelled. The lemmas show
  that a well-formed configuration is read back exactly, that the constant-time comparison of a
  presented key with a short configured key is equality, and who gets through the middleware.
\<close>

section \<open>Strings\<close>

text \<open>White space as \<open>trim\<close> and \<open>\s\<close> see it among the code units 0 to 255.\<close>

definition is_space :: "char \<Rightarrow> bool" where
  "is_space c = ((of_char c :: nat) \<in> {9, 10, 11, 12, 13, 32, 160})"

definition trim :: "string \<Rightarrow> string" where
  "trim s = rev (dropWhile is_space (rev (dropWhile is_space s)))"

text \<open>\<open>s.split(c)\<close> for a single character.\<close>

fun split_on :: "char \<Rightarrow> string \<Rightarrow> string list" where
  "split_on c [] = [[]]"
| "split_on c (x # xs) = (if x = c then [] # split_on c xs
     else (case split_on c xs of [] \<Rightarrow> [[x]] | p # ps \<Rightarrow> (x # p) # ps))"

text \<open>\<open>s.indexOf(c)\<close>, \<open>-1\<close> as \<open>None\<close>.\<close>

definition index_of :: "char \<Rightarrow> string \<Rightarrow> nat option" where
  "index_of c s = find_index (\<lambda>x. x = c) s"

lemma split_on_not_Nil [simp]: "split_on c s \<noteq> []"
  by (cases s) (auto split: list.splits)

lemma split_on_none: "c \<notin> set s \<Longrightarrow> split_on c s = [s]"
  by (induction s) auto

lemma split_on_append: "c \<notin> set p \<Longrightarrow> split_on c (p @ c # s) = p # split_on c s"
  by (induction p) auto

lemma split_join: "ps \<noteq> [] \<Longrightarrow> \<forall>p \<in> set ps. c \<notin> set p \<Longrightarrow> split_on c (join_with [c] ps) = ps"
proof (induction "[c]" ps rule: join_with.induct)
  case (3 s t ss)
  then show ?case by (simp add: split_on_append)
qed (simp_all add: split_on_none)

definition trimmed :: "string \<Rightarrow> bool" where
  "trimmed s = (s = [] \<or> (\<not> is_space (hd s) \<and> \<not> is_space (last s)))"

lemma trim_trimmed [simp]: "trimmed s \<Longrightarrow> trim s = s"
proof -
  assume t: "trimmed s"
  then have "dropWhile is_space s = s" "dropWhile is_space (rev s) = rev s"
    by (auto simp: trimmed_def dropWhile_eq_self_iff hd_rev)
  then show ?thesis by (simp add: trim_def)
qed

section \<open>Roles\<close>

datatype Role = INGESTION_SOURCE | VENUE_OPS_MANAGER | GATE_STAFF | TRANSIT_DISPATCHER | AUDITOR

fun role_string :: "Role \<Rightarrow> string" where
  "role_string INGESTION_SOURCE = ''INGESTION_SOURCE''"
| "role_string VENUE_OPS_MANAGER = ''VENUE_OPS_MANAGER''"
| "role_string GATE_STAFF = ''GATE_STAFF''"
| "role_string TRANSIT_DISPATCHER = ''TRANSIT_DISPATCHER''"
| "role_string AUDITOR = ''AUDITOR''"

definition VALID_ROLES :: "Role list" where
  "VALID_ROLES = [INGESTION_SOURCE, VENUE_OPS_MANAGER, GATE_STAFF, TRANSIT_DISPATCHER, AUDITOR]"

text \<open>\<open>isRole\<close> with the role it recognises.\<close>

definition role_of :: "string \<Rightarrow> Role option" where
  "role_of value = find (\<lambda>r. role_string r = value) VALID_ROLES"

lemma role_of_string [simp]: "role_of (role_string r) = Some r"
  by (cases r) (simp_all add: role_of_def VALID_ROLES_def)

lemma role_string_props [simp]:
  "trimmed (role_string r)" "CHR '':'' \<notin> set (role_string r)" "CHR '','' \<notin> set (role_string r)"
  "CHR ''+'' \<notin> set (role_string r)" "role_string r \<noteq> []"
  by (cases r; simp add: trimmed_def is_space_def)+

section \<open>Parsing the configuration\<close>

type_synonym key_map = "(string, Role list) jsmap"

definition parse_roles :: "string \<Rightarrow> Role list" where
  "parse_roles rolesRaw = List.map_filter (\<lambda>candidate. role_of (trim candidate)) (split_on CHR ''+'' rolesRaw)"

definition parse_entry :: "string \<Rightarrow> (string \<times> Role list) option" where
  "parse_entry pair =
     (let trimmedPair = trim pair
      in if trimmedPair = [] then None
         else (case index_of CHR '':'' trimmedPair of
             None \<Rightarrow> None
           | Some separatorIndex \<Rightarrow>
               (let key = trim (take separatorIndex trimmedPair);
                    rolesRaw = trim (drop (separatorIndex + 1) trimmedPair)
                in if key = [] \<or> rolesRaw = [] then None
                   else (let roles = parse_roles rolesRaw
                         in if roles \<noteq> [] then Some (key, roles) else None))))"

definition parseApiKeys :: "string option \<Rightarrow> key_map" where
  "parseApiKeys raw =
     (case raw of
        None \<Rightarrow> []
      | Some s \<Rightarrow>
          if trim s = [] then []
          else fold (\<lambda>pair keyMap. case parse_entry pair of
                   None \<Rightarrow> keyMap
                 | Some (key, roles) \<Rightarrow> AList.update key roles keyMap)
                 (split_on CHR '','' s) [])"

section \<open>Comparing keys\<close>

definition MAX_KEY_LENGTH :: nat where
  "MAX_KEY_LENGTH = 256"

text \<open>UTF-8 of the code units 0 to 255.\<close>

definition utf8_char :: "char \<Rightarrow> nat list" where
  "utf8_char c = (let n = of_char c :: nat in if n < 128 then [n] else [192 + n div 64, 128 + n mod 64])"

definition utf8 :: "string \<Rightarrow> nat list" where
  "utf8 s = concat (map utf8_char s)"

definition toFixedBuffer :: "string \<Rightarrow> nat list" where
  "toFixedBuffer value =
     (let src = utf8 value; n = min (length src) MAX_KEY_LENGTH
      in take n src @ replicate (MAX_KEY_LENGTH - n) 0)"

definition constantTimeEquals :: "string \<Rightarrow> string \<Rightarrow> bool" where
  "constantTimeEquals a b =
     (let bufsEqual = (toFixedBuffer a = toFixedBuffer b)
      in bufsEqual \<and> length a = length b \<and> length a \<le> MAX_KEY_LENGTH \<and> length b \<le> MAX_KEY_LENGTH)"

text \<open>The loop keeps the last match.\<close>

definition verifyApiKey :: "key_map \<Rightarrow> string option \<Rightarrow> Role list option" where
  "verifyApiKey apiKeys rawHeaderValue =
     (if \<not> truthy_str rawHeaderValue then None
      else fold (\<lambda>(configuredKey, roles) matched.
             if constantTimeEquals (the rawHeaderValue) configuredKey then Some roles else matched)
           apiKeys None)"

section \<open>The request\<close>

record http_request =
  header_Authorization :: "string option"
  header_X_API_Key :: "string option"

definition to_lower :: "char \<Rightarrow> char" where
  "to_lower c = (let n = of_char c :: nat in if 65 \<le> n \<and> n \<le> 90 then char_of (n + 32) else c)"

text \<open>The match of \<open>/^Bearer\s+(.+)$/i\<close>: \<open>.\<close> does not match a line terminator.\<close>

definition bearer_match :: "string \<Rightarrow> string option" where
  "bearer_match s =
     (if map to_lower (take 6 s) = ''bearer'' \<and> drop 6 s \<noteq> [] \<and> is_space (hd (drop 6 s))
      then (let rest = dropWhile is_space (drop 6 s)
            in if rest \<noteq> [] \<and> char_of (10::nat) \<notin> set rest \<and> char_of (13::nat) \<notin> set rest then Some rest else None)
      else None)"

definition extractApiKey :: "http_request \<Rightarrow> string option" where
  "extractApiKey req =
     (let authHeader = header_Authorization req;
          bearer = (if truthy_str authHeader then bearer_match (trim (the authHeader)) else None)
      in case bearer of
           Some key \<Rightarrow> Some key
         | None \<Rightarrow>
             (let apiKeyHeader = header_X_API_Key req
              in if truthy_str apiKeyHeader \<and> trim (the apiKeyHeader) \<noteq> []
                 then Some (trim (the apiKeyHeader)) else None))"

datatype auth_result = Unauthorized401 | Forbidden403 | Proceed Role "string option"

definition requireRole :: "key_map \<Rightarrow> Role list \<Rightarrow> http_request \<Rightarrow> auth_result" where
  "requireRole apiKeys allowedRoles req =
     (let rawKey = extractApiKey req; roles = verifyApiKey apiKeys rawKey
      in case roles of
           None \<Rightarrow> Unauthorized401
         | Some rs \<Rightarrow>
             (case find (\<lambda>role. role \<in> set allowedRoles) rs of
                None \<Rightarrow> Forbidden403
              | Some matchedRole \<Rightarrow> Proceed matchedRole rawKey))"

section \<open>A well-formed configuration is read back\<close>

definition entry_ok :: "string \<times> Role list \<Rightarrow> bool" where
  "entry_ok e = (fst e \<noteq> [] \<and> trimmed (fst e) \<and> CHR '':'' \<notin> set (fst e) \<and> CHR '','' \<notin> set (fst e) \<and> snd e \<noteq> [])"

definition write_entry :: "string \<times> Role list \<Rightarrow> string" where
  "write_entry e = fst e @ '':'' @ join_with ''+'' (map role_string (snd e))"

definition write_keys :: "key_map \<Rightarrow> string" where
  "write_keys m = join_with '','' (map write_entry m)"

lemma set_join: "set (join_with sep ss) \<subseteq> \<Union> (set ` set ss) \<union> set sep"
  by (induction sep ss rule: join_with.induct) auto

lemma join_not_Nil: "ss \<noteq> [] \<Longrightarrow> \<forall>s \<in> set ss. s \<noteq> [] \<Longrightarrow> join_with sep ss \<noteq> []"
  by (induction sep ss rule: join_with.induct) auto

lemma last_join: "ss \<noteq> [] \<Longrightarrow> \<forall>s \<in> set ss. s \<noteq> [] \<Longrightarrow> last (join_with sep ss) = last (last ss)"
  by (induction sep ss rule: join_with.induct) (auto simp: join_not_Nil)

lemma hd_join: "ss \<noteq> [] \<Longrightarrow> \<forall>s \<in> set ss. s \<noteq> [] \<Longrightarrow> hd (join_with sep ss) = hd (hd ss)"
  by (induction sep ss rule: join_with.induct) auto

lemma roles_join:
  assumes "rs \<noteq> []"
  shows "join_with ''+'' (map role_string rs) \<noteq> []" "trimmed (join_with ''+'' (map role_string rs))"
    "CHR '','' \<notin> set (join_with ''+'' (map role_string rs))" "parse_roles (join_with ''+'' (map role_string rs)) = rs"
proof -
  have n: "map role_string rs \<noteq> []" "\<forall>s \<in> set (map role_string rs). s \<noteq> []" using assms by auto
  show ne: "join_with ''+'' (map role_string rs) \<noteq> []" using join_not_Nil [OF n] .
  have "trimmed (role_string (hd rs))" "trimmed (role_string (last rs))" by simp_all
  then show "trimmed (join_with ''+'' (map role_string rs))"
    using ne last_join [OF n] hd_join [OF n] assms by (simp add: trimmed_def hd_map last_map)
  show "CHR '','' \<notin> set (join_with ''+'' (map role_string rs))"
    using set_join [of "''+''" "map role_string rs"] by auto
  have "split_on CHR ''+'' (join_with ''+'' (map role_string rs)) = map role_string rs"
    using split_join [OF n(1), of "CHR ''+''"] by simp
  then show "parse_roles (join_with ''+'' (map role_string rs)) = rs"
    by (simp add: parse_roles_def List.map_filter_def comp_def)
qed

lemma index_of_key: "c \<notin> set k \<Longrightarrow> index_of c (k @ c # s) = Some (length k)"
  by (induction k) (auto simp: index_of_def)

lemma parse_written:
  assumes "entry_ok e"
  shows "parse_entry (write_entry e) = Some e" "CHR '','' \<notin> set (write_entry e)" "write_entry e \<noteq> []"
    "trimmed (write_entry e)"
proof -
  obtain k rs where e: "e = (k, rs)" by (cases e)
  note r = roles_join [of rs]
  have k: "k \<noteq> []" "trimmed k" "CHR '':'' \<notin> set k" "CHR '','' \<notin> set k" "rs \<noteq> []"
    using assms by (simp_all add: e entry_ok_def)
  then show "CHR '','' \<notin> set (write_entry e)" "write_entry e \<noteq> []"
    using r by (simp_all add: e write_entry_def)
  show t: "trimmed (write_entry e)"
    using k r by (simp add: e write_entry_def trimmed_def)
  show "parse_entry (write_entry e) = Some e"
    using k r t index_of_key [of "CHR '':''" k] by (simp add: e parse_entry_def Let_def write_entry_def)
qed

text \<open>C38. Configuration: writing a key map with non-empty, trimmed keys without colon or comma and
  non-empty role lists as \<open>key:role1+role2,...\<close> and parsing it gives the map back. Without a
  configuration, or with a blank one, no request is let through, whatever it presents.\<close>

theorem api_keys_roundtrip:
  assumes "distinct (map fst m)" "\<forall>e \<in> set m. entry_ok e" "m \<noteq> []" "trim blank = []"
  shows "parseApiKeys (Some (write_keys m)) = m \<and>
    requireRole (parseApiKeys None) allowed req = Unauthorized401 \<and>
    requireRole (parseApiKeys (Some blank)) allowed req = Unauthorized401"
proof -
  let ?step = "\<lambda>pair keyMap. case parse_entry pair of None \<Rightarrow> keyMap | Some (key, roles) \<Rightarrow> AList.update key roles keyMap"
  have upd: "fold ?step (map write_entry xs) acc = acc @ xs"
    if "distinct (map fst (acc @ xs))" "\<forall>e \<in> set xs. entry_ok e" for xs acc
    using that
  proof (induction xs arbitrary: acc)
    case Nil
    then show ?case by simp
  next
    case (Cons e xs)
    then have "AList.update (fst e) (snd e) acc = acc @ [e]"
      by (simp add: update_fresh)
    with Cons show ?case by (simp add: parse_written case_prod_beta)
  qed
  have sp: "split_on CHR '','' (write_keys m) = map write_entry m"
    using assms(2,3) parse_written(2) unfolding write_keys_def by (intro split_join) auto
  have ne: "write_keys m \<noteq> []"
    using assms(2,3) parse_written(3) unfolding write_keys_def by (intro join_not_Nil) auto
  have "trimmed (write_keys m)"
  proof -
    have n: "map write_entry m \<noteq> []" "\<forall>s \<in> set (map write_entry m). s \<noteq> []"
      using assms(2,3) parse_written(3) by auto
    have "trimmed (write_entry (hd m))" "trimmed (write_entry (last m))" "write_entry (hd m) \<noteq> []" "write_entry (last m) \<noteq> []"
      using assms(2,3) parse_written(3,4) by auto
    then show ?thesis
      using hd_join [OF n, of "'',''"] last_join [OF n, of "'',''"] assms(3) unfolding write_keys_def
      by (simp add: trimmed_def hd_map last_map)
  qed
  then have "parseApiKeys (Some (write_keys m)) = m"
    using upd [of "[]" m] assms(1,2) ne by (simp add: parseApiKeys_def sp)
  moreover have "verifyApiKey [] k = None" for k by (simp add: verifyApiKey_def)
  ultimately show ?thesis
    using assms(4) by (simp add: parseApiKeys_def requireRole_def)
qed

lemma api_keys_roundtrip_witness:
  "parseApiKeys (Some (write_keys [(''k1'', [AUDITOR, GATE_STAFF]), (''k 2'', [INGESTION_SOURCE])])) =
    [(''k1'', [AUDITOR, GATE_STAFF]), (''k 2'', [INGESTION_SOURCE])]"
  by (rule api_keys_roundtrip [of _ "'' ''", THEN conjunct1])
    (simp_all add: entry_ok_def trimmed_def is_space_def trim_def)

section \<open>Comparing with a short key is equality\<close>

definition short_key :: "string \<Rightarrow> bool" where
  "short_key k = (length (utf8 k) \<le> MAX_KEY_LENGTH)"

lemma utf8_simps [simp]: "utf8 [] = []" "utf8 (c # s) = utf8_char c @ utf8 s"
  by (simp_all add: utf8_def)

lemma length_le_utf8: "length s \<le> length (utf8 s)"
proof (induction s)
  case (Cons c s)
  have "1 \<le> length (utf8_char c)" by (simp add: utf8_char_def Let_def)
  with Cons show ?case by simp
qed simp

text \<open>Buffers of size \<open>m\<close>; \<open>toFixedBuffer\<close> is the one of size 256.\<close>

definition buffer :: "nat \<Rightarrow> string \<Rightarrow> nat list" where
  "buffer m s = take m (utf8 s @ replicate m 0)"

lemma toFixedBuffer_eq: "toFixedBuffer s = buffer MAX_KEY_LENGTH s"
  by (cases "length (utf8 s) \<le> MAX_KEY_LENGTH") (simp_all add: toFixedBuffer_def buffer_def Let_def min_def)

lemma utf8_char_inj:
  assumes "take m (utf8_char a @ u) = take m (utf8_char b @ v)" "length (utf8_char b) \<le> m"
  shows "a = b"
proof -
  define x y where "x = (of_char a :: nat)" and "y = (of_char b :: nat)"
  have lt: "x < 256" "y < 256" by (simp_all add: x_def y_def)
  have "utf8_char b \<noteq> []" by (simp add: utf8_char_def Let_def)
  then obtain m' where m: "m = Suc m'" using assms(2) by (cases m) auto
  have "x = y"
  proof (cases "x < 128"; cases "y < 128")
    assume c: "\<not> x < 128" "\<not> y < 128"
    then obtain m'' where m': "m' = Suc m''" using assms(2) m by (cases m') (auto simp: utf8_char_def Let_def y_def)
    with assms(1) c have "x div 64 = y div 64" "x mod 64 = y mod 64"
      by (simp_all add: m utf8_char_def Let_def x_def y_def)
    then show "x = y" by (metis div_mult_mod_eq)
  qed (use assms(1) lt in \<open>auto simp: m utf8_char_def Let_def x_def [symmetric] y_def [symmetric]\<close>)
  then show ?thesis by (simp add: x_def y_def)
qed

lemma buffer_inj:
  assumes "length a = length b" "length (utf8 b) \<le> m" "buffer m a = buffer m b"
  shows "a = b"
  using assms
proof (induction a b arbitrary: m rule: list_induct2)
  case Nil
  then show ?case by simp
next
  case (Cons x xs y ys)
  let ?k = "length (utf8_char y)"
  have k: "?k \<le> m" "length (utf8 ys) \<le> m - ?k" using Cons.prems(1) by auto
  have "take m (utf8_char x @ (utf8 xs @ replicate m 0)) = take m (utf8_char y @ (utf8 ys @ replicate m 0))"
    using Cons.prems(2) unfolding buffer_def utf8_simps append_assoc .
  then have "x = y" by (rule utf8_char_inj [OF _ k(1)])
  moreover have "xs = ys"
  proof (rule Cons.IH [OF k(2)])
    have "buffer m (y # s) = utf8_char y @ take (m - ?k) (utf8 s @ replicate m 0)" for s
      using k(1) unfolding buffer_def utf8_simps append_assoc by (simp only: take_append) simp
    then have "buffer m (y # s) = utf8_char y @ buffer (m - ?k) s" for s
      by (simp add: buffer_def min_def)
    then show "buffer (m - ?k) xs = buffer (m - ?k) ys"
      using Cons.prems(2) \<open>x = y\<close> by simp
  qed
  ultimately show ?case by simp
qed

text \<open>C39. The constant-time comparison: with a configured key of at most 256 bytes it holds exactly for
  the same key. For longer keys it does not: two different strings of 256 characters beyond ASCII
  compare equal when they agree on the first 256 bytes.\<close>

theorem constant_time_comparison:
  "(\<not> short_key k \<or> constantTimeEquals presented k = (presented = k)) \<and>
    (\<exists>a b. length a = 256 \<and> length b = 256 \<and> a \<noteq> b \<and> constantTimeEquals a b)"
proof
  have "presented = k" if "short_key k" "constantTimeEquals presented k"
    using that by (intro buffer_inj [of _ _ MAX_KEY_LENGTH])
      (auto simp: constantTimeEquals_def short_key_def toFixedBuffer_eq Let_def)
  moreover have "constantTimeEquals k k" if "short_key k"
    using that length_le_utf8 [of k] by (simp add: constantTimeEquals_def short_key_def Let_def)
  ultimately show "\<not> short_key k \<or> constantTimeEquals presented k = (presented = k)" by blast
  let ?e = "char_of (233::nat) :: char"
  let ?p = "replicate 255 ?e"
  have "utf8_char ?e = [195, 169]" by (simp add: utf8_char_def)
  then have u: "utf8 (replicate n ?e) = concat (replicate n [195, 169])" for n by (induction n) simp_all
  have len: "length (concat (replicate n [195, 169 :: nat])) = 2 * n" for n by (induction n) simp_all
  have app: "utf8 (s @ t) = utf8 s @ utf8 t" for s t by (simp add: utf8_def)
  have "toFixedBuffer (?p @ [c]) = take 256 (utf8 ?p)" for c
    by (simp add: toFixedBuffer_eq buffer_def MAX_KEY_LENGTH_def app u len)
  then have "constantTimeEquals (?p @ ''a'') (?p @ ''b'')"
    by (simp add: constantTimeEquals_def MAX_KEY_LENGTH_def)
  moreover have "length (?p @ ''a'') = 256" "length (?p @ ''b'') = 256" "?p @ ''a'' \<noteq> ?p @ ''b''" by simp_all
  ultimately show "\<exists>a b :: string. length a = 256 \<and> length b = 256 \<and> a \<noteq> b \<and> constantTimeEquals a b"
    by blast
qed

lemma constant_time_comparison_witness:
  "constantTimeEquals ''k1'' ''k1'' \<and> \<not> constantTimeEquals ''k2'' ''k1''"
  using constant_time_comparison [of "''k1''" "''k1''"] constant_time_comparison [of "''k1''" "''k2''"]
  by (simp add: short_key_def utf8_char_def MAX_KEY_LENGTH_def)

lemma equals_short: "short_key k \<Longrightarrow> constantTimeEquals a k \<longleftrightarrow> a = k"
  using buffer_inj [of a k MAX_KEY_LENGTH] length_le_utf8 [of k]
  by (auto simp: constantTimeEquals_def short_key_def toFixedBuffer_eq Let_def)

lemma verify_short:
  assumes "distinct (map fst m)" "\<forall>k \<in> fst ` set m. short_key k" "key \<noteq> []"
  shows "verifyApiKey m (Some key) = map_of m key"
proof -
  have "fold (\<lambda>(configuredKey, roles) matched. if constantTimeEquals key configuredKey then Some roles else matched) m acc =
    (case map_of m key of Some roles \<Rightarrow> Some roles | None \<Rightarrow> acc)" for acc
    using assms(1,2)
  proof (induction m arbitrary: acc)
    case (Cons e m)
    obtain k rs where e: "e = (k, rs)" by (cases e)
    have "map_of m k = None" using Cons.prems(1) by (auto simp: e map_of_eq_None_iff)
    with Cons show ?case by (auto simp: e equals_short)
  qed simp
  with assms(3) show ?thesis by (simp add: verifyApiKey_def split: option.splits)
qed

lemma requireRole_spec:
  assumes "distinct (map fst m)" "\<forall>k \<in> fst ` set m. short_key k"
  shows "requireRole m allowed req =
    (case extractApiKey req of
       None \<Rightarrow> Unauthorized401
     | Some key \<Rightarrow> (case map_of m key of
         None \<Rightarrow> Unauthorized401
       | Some roles \<Rightarrow> (case filter (\<lambda>r. r \<in> set allowed) roles of
           [] \<Rightarrow> Forbidden403
         | r # rs \<Rightarrow> Proceed r (Some key))))"
proof -
  have ne: "key \<noteq> []" if "extractApiKey req = Some key" for key
    using that by (auto simp: extractApiKey_def bearer_match_def Let_def split: if_splits option.splits)
  have f: "(case find P xs of None \<Rightarrow> a | Some x \<Rightarrow> g x) = (case filter P xs of [] \<Rightarrow> a | x # ys \<Rightarrow> g x)" for P xs a g
    by (induction xs) auto
  show ?thesis
  proof (cases "extractApiKey req")
    case None
    then show ?thesis by (simp add: requireRole_def verifyApiKey_def)
  next
    case (Some key)
    with verify_short [OF assms ne [OF Some]] show ?thesis
      by (simp add: requireRole_def f split: option.splits)
  qed
qed

end
