(* ===== verification/EventBus.thy ===== *)
theory EventBus
  imports Schema
begin

text \<open>
  \<open>src/infra/event-bus.ts\<close>: the in-memory event bus. Node's emitter calls the listeners of a topic
  synchronously, in the order of their registration; a handler is a function on the state that may
  end with an error, which the bus logs. The main lemma shows, over any history, what a
  subscription receives.
\<close>

section \<open>Topics and messages\<close>

record CongestionScoreMessage =
  csm_gate :: Gate
  csm_result :: ForecastResult

record RecommendedActionsMessage =
  ram_gateId :: GateId
  ram_actions :: "RecommendedAction list"

datatype Topic = SIGNAL_EVENTS | SIGNAL_EVENTS_DLQ | CONGESTION_SCORES | RECOMMENDED_ACTIONS
  | SHUTTLE_RECOMMENDATIONS | FAN_NUDGES

fun topic_name :: "Topic \<Rightarrow> string" where
  "topic_name SIGNAL_EVENTS = ''signal-events''"
| "topic_name SIGNAL_EVENTS_DLQ = ''signal-events.dlq''"
| "topic_name CONGESTION_SCORES = ''congestion-scores''"
| "topic_name RECOMMENDED_ACTIONS = ''recommended-actions''"
| "topic_name SHUTTLE_RECOMMENDATIONS = ''shuttle-recommendations''"
| "topic_name FAN_NUDGES = ''fan-nudges''"

text \<open>\<open>BusTopics\<close>: a message is a payload with its topic.\<close>

datatype BusMessage =
    SignalEventMsg SignalEvent
  | ValidationErrorMsg "json ValidationErrorRecord"
  | CongestionScoreMsg CongestionScoreMessage
  | RecommendedActionsMsg RecommendedActionsMessage
  | ShuttleMsg ShuttleRedirectionRecommendation
  | FanNudgeMsg FanNudge

fun topic_of :: "BusMessage \<Rightarrow> Topic" where
  "topic_of (SignalEventMsg e) = SIGNAL_EVENTS"
| "topic_of (ValidationErrorMsg e) = SIGNAL_EVENTS_DLQ"
| "topic_of (CongestionScoreMsg m) = CONGESTION_SCORES"
| "topic_of (RecommendedActionsMsg m) = RECOMMENDED_ACTIONS"
| "topic_of (ShuttleMsg r) = SHUTTLE_RECOMMENDATIONS"
| "topic_of (FanNudgeMsg n) = FAN_NUDGES"

section \<open>The bus\<close>

type_synonym 's bus_handler = "BusMessage \<Rightarrow> 's \<Rightarrow> js_error option \<times> 's"

record 's Subscription =
  sub_id :: nat
  sub_topic :: Topic
  sub_handler :: "'s bus_handler"

record 's InMemoryEventBus =
  listeners :: "'s Subscription list"
  next_sub :: nat

definition new_bus :: "'s InMemoryEventBus" where
  "new_bus = \<lparr>listeners = [], next_sub = 0\<rparr>"

text \<open>The listener that \<open>subscribe\<close> registers: an exception and a rejected promise both end in the log.\<close>

definition wrapped :: "(Topic \<Rightarrow> js_error \<Rightarrow> 's \<Rightarrow> 's) \<Rightarrow> 's Subscription \<Rightarrow> BusMessage \<Rightarrow> 's \<Rightarrow> 's" where
  "wrapped console_error sub m s =
     (case sub_handler sub m s of
        (None, s') \<Rightarrow> s'
      | (Some err, s') \<Rightarrow> console_error (sub_topic sub) err s')"

definition publish :: "(Topic \<Rightarrow> js_error \<Rightarrow> 's \<Rightarrow> 's) \<Rightarrow> 's InMemoryEventBus \<Rightarrow> BusMessage \<Rightarrow> 's \<Rightarrow> 's" where
  "publish console_error bus m s =
     fold (\<lambda>sub. wrapped console_error sub m) (filter (\<lambda>sub. sub_topic sub = topic_of m) (listeners bus)) s"

text \<open>The handle to unsubscribe with is the identity of the registered listener.\<close>

definition subscribe :: "Topic \<Rightarrow> 's bus_handler \<Rightarrow> 's InMemoryEventBus \<Rightarrow> nat \<times> 's InMemoryEventBus" where
  "subscribe t h bus =
     (next_sub bus, bus\<lparr>listeners := listeners bus @ [\<lparr>sub_id = next_sub bus, sub_topic = t, sub_handler = h\<rparr>],
        next_sub := Suc (next_sub bus)\<rparr>)"

definition unsubscribe :: "nat \<Rightarrow> 's InMemoryEventBus \<Rightarrow> 's InMemoryEventBus" where
  "unsubscribe k bus = bus\<lparr>listeners := filter (\<lambda>sub. sub_id sub \<noteq> k) (listeners bus)\<rparr>"

section \<open>What a subscription receives\<close>

text \<open>Histories with handlers that record what they are given and fail as they like.\<close>

datatype bus_op = Subscribe Topic | Unsubscribe nat | Publish BusMessage

type_synonym bus_log = "(nat \<times> BusMessage) list"

definition recording :: "(nat \<Rightarrow> BusMessage \<Rightarrow> js_error option) \<Rightarrow> nat \<Rightarrow> bus_log bus_handler" where
  "recording fails k m sent = (fails k m, sent @ [(k, m)])"

fun bus_step :: "(nat \<Rightarrow> BusMessage \<Rightarrow> js_error option) \<Rightarrow> bus_op
    \<Rightarrow> bus_log InMemoryEventBus \<times> bus_log \<Rightarrow> bus_log InMemoryEventBus \<times> bus_log" where
  "bus_step fails (Subscribe t) (bus, sent) = (snd (subscribe t (recording fails (next_sub bus)) bus), sent)"
| "bus_step fails (Unsubscribe k) (bus, sent) = (unsubscribe k bus, sent)"
| "bus_step fails (Publish m) (bus, sent) = (bus, publish (\<lambda>t e s. s) bus m sent)"

text \<open>The specification of subscription \<open>k\<close>: it listens to a topic from its \<open>subscribe\<close>, the one that
  is given the number \<open>k\<close>, to its \<open>unsubscribe\<close>.\<close>

fun bus_heard :: "nat \<Rightarrow> nat \<Rightarrow> Topic option \<Rightarrow> bus_op list \<Rightarrow> BusMessage list" where
  "bus_heard k n on [] = []"
| "bus_heard k n on (Subscribe t # ops) = bus_heard k (Suc n) (if n = k then Some t else on) ops"
| "bus_heard k n on (Unsubscribe j # ops) = bus_heard k n (if j = k then None else on) ops"
| "bus_heard k n on (Publish m # ops) =
     (if on = Some (topic_of m) then [m] else []) @ bus_heard k n on ops"

definition bus_ok :: "(nat \<Rightarrow> BusMessage \<Rightarrow> js_error option) \<Rightarrow> bus_log InMemoryEventBus \<Rightarrow> bool" where
  "bus_ok fails bus = (distinct (map sub_id (listeners bus)) \<and>
     (\<forall>sub \<in> set (listeners bus). sub_id sub < next_sub bus \<and> sub_handler sub = recording fails (sub_id sub)))"

definition listens :: "nat \<Rightarrow> 's InMemoryEventBus \<Rightarrow> Topic option" where
  "listens k bus = map_option sub_topic (find (\<lambda>sub. sub_id sub = k) (listeners bus))"

lemma listens_iff:
  assumes "bus_ok fails bus"
  shows "listens k bus = Some t \<longleftrightarrow> (\<exists>sub \<in> set (listeners bus). sub_id sub = k \<and> sub_topic sub = t)"
proof -
  have "map_option sub_topic (find (\<lambda>sub. sub_id sub = k) subs) = Some t \<longleftrightarrow>
      (\<exists>sub \<in> set subs. sub_id sub = k \<and> sub_topic sub = t)" if "distinct (map sub_id subs)" for subs :: "bus_log Subscription list"
    using that
  proof (induction subs)
    case Nil
    then show ?case by simp
  next
    case (Cons a subs)
    have "sub_id sub \<noteq> sub_id a" if "sub \<in> set subs" for sub
      using Cons.prems that by (metis distinct.simps(2) image_eqI list.map(2) set_map)
    with Cons show ?case by (cases "sub_id a = k") auto
  qed
  with assms show ?thesis by (simp add: listens_def bus_ok_def)
qed

lemma publish_deliveries:
  assumes "bus_ok fails bus"
  shows "deliveries k (publish (\<lambda>t e s. s) bus m sent) =
    deliveries k sent @ (if listens k bus = Some (topic_of m) then [m] else [])"
proof -
  let ?subs = "filter (\<lambda>sub. sub_topic sub = topic_of m) (listeners bus)"
  have "fold (\<lambda>sub. wrapped (\<lambda>t e s. s) sub m) subs sent = fold (\<lambda>d sent. sent @ [(d, m)]) (map sub_id subs) sent"
    if "\<forall>sub \<in> set subs. sub_handler sub = recording fails (sub_id sub)" for subs and sent :: bus_log
    using that by (induction subs arbitrary: sent) (simp_all add: wrapped_def recording_def split: option.splits)
  moreover have "\<forall>sub \<in> set ?subs. sub_handler sub = recording fails (sub_id sub)" "distinct (map sub_id ?subs)"
    using assms by (auto simp: bus_ok_def distinct_map_filter)
  ultimately show ?thesis
    using deliveries_round [of "map sub_id ?subs" k m sent] listens_iff [OF assms, of k "topic_of m"]
    by (auto simp: publish_def)
qed

lemma bus_step_ok:
  assumes "bus_ok fails bus" "bus_step fails op (bus, sent) = (bus', sent')"
  shows "bus_ok fails bus'"
  using assms by (cases op) (force simp: bus_ok_def subscribe_def unsubscribe_def distinct_map_filter)+

lemma find_filter: "find p (filter q xs) = find (\<lambda>x. p x \<and> q x) xs"
  by (induction xs) auto

lemma find_append: "find p (xs @ ys) = (case find p xs of Some x \<Rightarrow> Some x | None \<Rightarrow> find p ys)"
  by (induction xs) auto

lemma listens_step:
  assumes "bus_ok fails bus"
  shows "listens k (snd (subscribe t h bus)) = (if next_sub bus = k then Some t else listens k bus)"
    "listens k (unsubscribe j bus) = (if j = k then None else listens k bus)"
proof -
  have "find (\<lambda>sub. sub_id sub = next_sub bus) (listeners bus) = None"
    using assms by (auto simp: bus_ok_def find_None_iff)
  then show "listens k (snd (subscribe t h bus)) = (if next_sub bus = k then Some t else listens k bus)"
    by (auto simp: listens_def subscribe_def find_append split: option.splits)
  have "(\<lambda>sub :: bus_log Subscription. sub_id sub = k \<and> sub_id sub \<noteq> j) = (if j = k then (\<lambda>sub. False) else (\<lambda>sub. sub_id sub = k))"
    by auto
  moreover have "find (\<lambda>x. False) xs = None" for xs :: "bus_log Subscription list" by (induction xs) auto
  ultimately show "listens k (unsubscribe j bus) = (if j = k then None else listens k bus)"
    by (cases "j = k") (simp_all add: listens_def unsubscribe_def find_filter)
qed

lemma fold_bus:
  assumes "bus_ok fails bus"
  shows "deliveries k (snd (fold (bus_step fails) ops (bus, sent))) =
    deliveries k sent @ bus_heard k (next_sub bus) (listens k bus) ops"
  using assms
proof (induction ops arbitrary: bus sent)
  case Nil
  then show ?case by simp
next
  case (Cons op ops)
  obtain bus' sent' where s: "bus_step fails op (bus, sent) = (bus', sent')" by fastforce
  note IH = Cons.IH [OF bus_step_ok [OF Cons.prems s], of sent']
  show ?case
  proof (cases op)
    case (Subscribe t)
    then show ?thesis
      using IH s listens_step(1) [OF Cons.prems, of k t "recording fails (next_sub bus)"] by (auto simp: subscribe_def)
  next
    case (Unsubscribe j)
    then show ?thesis
      using IH s listens_step(2) [OF Cons.prems] by (auto simp: unsubscribe_def)
  next
    case (Publish m)
    then show ?thesis using IH s publish_deliveries [OF Cons.prems] by auto
  qed
qed

text \<open>Delivery over any history of subscribing, unsubscribing and publishing: a subscription receives
  exactly the messages published on its topic between its \<open>subscribe\<close> and its \<open>unsubscribe\<close>, once
  each and in order, whichever handlers fail on whichever messages, and whoever else subscribes
  or leaves.\<close>

theorem bus_delivery:
  "deliveries k (snd (fold (bus_step fails) ops (new_bus, []))) = bus_heard k 0 None ops"
  using fold_bus [of fails new_bus k ops "[]"] by (simp add: bus_ok_def new_bus_def listens_def)

end
