(* ===== verification/KafkaTopics.thy ===== *)
theory KafkaTopics
  imports EventBus Forecast
begin

text \<open>
  \<open>src/infra/kafka-topics.ts\<close>, the configuration of the topics a deployment uses instead of the
  in-memory bus, and \<open>src/infra/topology.ts\<close>, the gates and routes of the demo. The lemmas show
  that the configured topics are the ones of the bus, by which id each is partitioned, and that
  gates and routes refer to each other consistently.
\<close>

section \<open>Topics\<close>

datatype PartitionKeyField = PartitionByGate | PartitionByRoute

fun field_name :: "PartitionKeyField \<Rightarrow> string" where
  "field_name PartitionByGate = ''gate_id''"
| "field_name PartitionByRoute = ''route_id''"

record KafkaTopicConfig =
  kt_name :: string
  partitionKeyField :: PartitionKeyField
  numPartitions :: int
  replicationFactor :: int
  retentionMs :: int

definition KAFKA_TOPICS :: "(string, KafkaTopicConfig) jsmap" where
  "KAFKA_TOPICS =
    [(''SIGNAL_EVENTS'', \<lparr>kt_name = ''signal-events'', partitionKeyField = PartitionByGate,
        numPartitions = 12, replicationFactor = 3, retentionMs = 7 * 24 * 60 * 60 * 1000\<rparr>),
     (''SIGNAL_EVENTS_DLQ'', \<lparr>kt_name = ''signal-events.dlq'', partitionKeyField = PartitionByGate,
        numPartitions = 6, replicationFactor = 3, retentionMs = 30 * 24 * 60 * 60 * 1000\<rparr>),
     (''CONGESTION_SCORES'', \<lparr>kt_name = ''congestion-scores'', partitionKeyField = PartitionByGate,
        numPartitions = 12, replicationFactor = 3, retentionMs = 7 * 24 * 60 * 60 * 1000\<rparr>),
     (''RECOMMENDED_ACTIONS'', \<lparr>kt_name = ''recommended-actions'', partitionKeyField = PartitionByGate,
        numPartitions = 12, replicationFactor = 3, retentionMs = 7 * 24 * 60 * 60 * 1000\<rparr>),
     (''SHUTTLE_RECOMMENDATIONS'', \<lparr>kt_name = ''shuttle-recommendations'', partitionKeyField = PartitionByRoute,
        numPartitions = 6, replicationFactor = 3, retentionMs = 7 * 24 * 60 * 60 * 1000\<rparr>),
     (''FAN_NUDGES'', \<lparr>kt_name = ''fan-nudges'', partitionKeyField = PartitionByGate,
        numPartitions = 6, replicationFactor = 3, retentionMs = 7 * 24 * 60 * 60 * 1000\<rparr>)]"

record partition_ids =
  pid_gateId :: "string option"
  pid_routeId :: "string option"

definition partitionKeyFor :: "KafkaTopicConfig \<Rightarrow> partition_ids \<Rightarrow> js_error + string" where
  "partitionKeyFor topic ids =
     (let key = (if partitionKeyField topic = PartitionByGate then pid_gateId ids else pid_routeId ids)
      in if \<not> truthy_str key
         then Inl (Error (''Missing '' @ field_name (partitionKeyField topic)
                @ '' required to partition message for topic '' @ kt_name topic))
         else Inr (the key))"

text \<open>The ids a message of the bus carries for partitioning.\<close>

fun message_ids :: "BusMessage \<Rightarrow> partition_ids" where
  "message_ids (SignalEventMsg e) = \<lparr>pid_gateId = gateId e, pid_routeId = routeId e\<rparr>"
| "message_ids (ValidationErrorMsg e) = \<lparr>pid_gateId = None, pid_routeId = None\<rparr>"
| "message_ids (CongestionScoreMsg m) = \<lparr>pid_gateId = Some (gate_id (csm_gate m)), pid_routeId = None\<rparr>"
| "message_ids (RecommendedActionsMsg m) = \<lparr>pid_gateId = Some (ram_gateId m), pid_routeId = None\<rparr>"
| "message_ids (ShuttleMsg r) = \<lparr>pid_gateId = Some (redir_originGateId r), pid_routeId = Some (redir_routeId r)\<rparr>"
| "message_ids (FanNudgeMsg n) = \<lparr>pid_gateId = Some (nudge_originGateId n), pid_routeId = None\<rparr>"

definition topic_config :: "Topic \<Rightarrow> KafkaTopicConfig option" where
  "topic_config t = find (\<lambda>c. kt_name c = topic_name t) (map snd KAFKA_TOPICS)"

text \<open>Partitioning: every topic of the bus has exactly one configuration and there is no other. A
  message that has its key is partitioned by the route for redirections and by the gate for all
  other topics, so two messages of a topic about the same gate (route) have the same key; an id
  that is missing or empty is an error that names the field and the topic. A signal of a transit
  feed without a gate, and any validation error, have no key.\<close>

theorem partition_keys:
  "distinct (map (kt_name \<circ> snd) KAFKA_TOPICS) \<and>
   (\<forall>n. n \<in> set (map (kt_name \<circ> snd) KAFKA_TOPICS) \<longleftrightarrow> (\<exists>t. n = topic_name t)) \<and>
   (\<exists>c. topic_config (topic_of m) = Some c \<and> 0 < numPartitions c \<and>
     partitionKeyFor c (message_ids m) =
       (case m of
          SignalEventMsg e \<Rightarrow> if truthy_str (gateId e) then Inr (the (gateId e))
            else Inl (Error ''Missing gate_id required to partition message for topic signal-events'')
        | ValidationErrorMsg e \<Rightarrow> Inl (Error ''Missing gate_id required to partition message for topic signal-events.dlq'')
        | CongestionScoreMsg s \<Rightarrow> if gate_id (csm_gate s) \<noteq> [] then Inr (gate_id (csm_gate s))
            else Inl (Error ''Missing gate_id required to partition message for topic congestion-scores'')
        | RecommendedActionsMsg a \<Rightarrow> if ram_gateId a \<noteq> [] then Inr (ram_gateId a)
            else Inl (Error ''Missing gate_id required to partition message for topic recommended-actions'')
        | ShuttleMsg r \<Rightarrow> if redir_routeId r \<noteq> [] then Inr (redir_routeId r)
            else Inl (Error ''Missing route_id required to partition message for topic shuttle-recommendations'')
        | FanNudgeMsg n \<Rightarrow> if nudge_originGateId n \<noteq> [] then Inr (nudge_originGateId n)
            else Inl (Error ''Missing gate_id required to partition message for topic fan-nudges'')))"
proof (intro conjI allI)
  show "distinct (map (kt_name \<circ> snd) KAFKA_TOPICS)" by (simp add: KAFKA_TOPICS_def)
  have "(\<exists>t. n = topic_name t) \<longleftrightarrow> n \<in> topic_name ` {SIGNAL_EVENTS, SIGNAL_EVENTS_DLQ, CONGESTION_SCORES,
      RECOMMENDED_ACTIONS, SHUTTLE_RECOMMENDATIONS, FAN_NUDGES}" for n
    using Topic.exhaust by blast
  then show "n \<in> set (map (kt_name \<circ> snd) KAFKA_TOPICS) \<longleftrightarrow> (\<exists>t. n = topic_name t)" for n
    by (auto simp: KAFKA_TOPICS_def)
qed (cases m; simp add: topic_config_def KAFKA_TOPICS_def partitionKeyFor_def Let_def)

section \<open>The demo topology\<close>

definition DEMO_ROUTES :: "ShuttleRoute list" where
  "DEMO_ROUTES = [\<lparr>route_id = ''route-1'', servedGateIds = [''gate-a'', ''gate-b'']\<rparr>,
     \<lparr>route_id = ''route-2'', servedGateIds = [''gate-c'']\<rparr>]"

definition DEMO_GATES :: "Gate list" where
  "DEMO_GATES =
    [\<lparr>gate_id = ''gate-a'', gate_name = ''Gate A - North'', capacityThreshold = Fin 500, assignedRouteIds = [''route-1'']\<rparr>,
     \<lparr>gate_id = ''gate-b'', gate_name = ''Gate B - East'', capacityThreshold = Fin 400, assignedRouteIds = [''route-1'']\<rparr>,
     \<lparr>gate_id = ''gate-c'', gate_name = ''Gate C - South'', capacityThreshold = Fin 600, assignedRouteIds = [''route-2'']\<rparr>]"

lemma demo_topology:
  "distinct (map gate_id DEMO_GATES)" "distinct (map route_id DEMO_ROUTES)"
  "\<forall>g \<in> set DEMO_GATES. gate_id g \<noteq> [] \<and> proper_capacity g"
  "\<forall>g \<in> set DEMO_GATES. \<forall>r \<in> set DEMO_ROUTES. route_id r \<in> set (assignedRouteIds g) \<longleftrightarrow> gate_id g \<in> set (servedGateIds r)"
  by (simp_all add: DEMO_GATES_def DEMO_ROUTES_def proper_capacity_def)

end
