(* ===== verification/Dashboard.thy ===== *)
theory Dashboard
  imports Stores DegradedSource
begin

text \<open>
  The operations dashboard: \<open>src/ops-dashboard/alerts.ts\<close>, \<open>data-quality-alerts.ts\<close>, \<open>api.ts\<close>,
  \<open>snapshot.ts\<close> and \<open>websocket.ts\<close>. Publisher, stores and connections are arguments, as they are
  injected in the source. The locale \<open>alert_store\<close> is what the acknowledgement relies on of its store;
  the lemmas show what an acknowledgement changes, which events each connection of the stream
  receives over any history, and that at most one heartbeat runs.
\<close>

section \<open>Alerts\<close>

datatype Visibility = VISIBLE_VENUE_OPS_MANAGER | VISIBLE_GATE_STAFF | VISIBLE_TRANSIT_DISPATCHER

record VisibleAlert =
  va_alert :: Alert
  visibleTo :: "Visibility list"

definition checkRiskLevelTransition ::
  "string \<Rightarrow> GateId \<Rightarrow> RiskLevel \<Rightarrow> RiskLevel \<Rightarrow> int \<Rightarrow> VisibleAlert option" where
  "checkRiskLevelTransition uuid gate previousRiskLevel newRiskLevel now =
     (let wasLowOrModerate = (\<not> high_or_critical previousRiskLevel);
          isNowHighOrCritical = high_or_critical newRiskLevel
      in if \<not> (wasLowOrModerate \<and> isNowHighOrCritical) then None
         else Some \<lparr>va_alert = \<lparr>alertId = uuid, alert_gateId = gate, alertType = RISK_LEVEL,
             raisedAt = toISOString now, alert_riskLevel = Some newRiskLevel, affectedSources = None,
             acknowledgedAt = None, acknowledgedByUserId = None\<rparr>,
           visibleTo = [VISIBLE_VENUE_OPS_MANAGER, VISIBLE_GATE_STAFF, VISIBLE_TRANSIT_DISPATCHER]\<rparr>)"

definition raiseRiskLevelAlertIfTransitioned ::
  "(Alert \<Rightarrow> 's \<Rightarrow> 's) \<Rightarrow> string \<Rightarrow> GateId \<Rightarrow> RiskLevel \<Rightarrow> RiskLevel \<Rightarrow> int \<Rightarrow> 's \<Rightarrow> VisibleAlert option \<times> 's" where
  "raiseRiskLevelAlertIfTransitioned publishAlert uuid gate previousRiskLevel newRiskLevel now s =
     (let transition = checkRiskLevelTransition uuid gate previousRiskLevel newRiskLevel now
      in (transition, case transition of Some t \<Rightarrow> publishAlert (va_alert t) s | None \<Rightarrow> s))"

definition buildDataQualityAlert :: "string \<Rightarrow> GateId \<Rightarrow> SignalSource list \<Rightarrow> int \<Rightarrow> Alert" where
  "buildDataQualityAlert uuid gate sources now =
     \<lparr>alertId = uuid, alert_gateId = gate, alertType = DATA_QUALITY, raisedAt = toISOString now,
      alert_riskLevel = None, affectedSources = Some sources, acknowledgedAt = None, acknowledgedByUserId = None\<rparr>"

definition raiseDataQualityAlertIfAllDegraded ::
  "(Alert \<Rightarrow> 's \<Rightarrow> 's) \<Rightarrow> string \<Rightarrow> GateId \<Rightarrow> SourceStatus list \<Rightarrow> int \<Rightarrow> 's \<Rightarrow> Alert option \<times> 's" where
  "raiseDataQualityAlertIfAllDegraded publishAlert uuid gate sourceStatuses now s =
     (let allDegraded = (0 < length sourceStatuses \<and> list_all is_degraded sourceStatuses)
      in if \<not> allDegraded then (None, s)
         else (let alert = buildDataQualityAlert uuid gate (map sourceType sourceStatuses) now
               in (Some alert, publishAlert alert s)))"

section \<open>Acknowledging an alert\<close>

definition acknowledgeAlert ::
  "(string \<Rightarrow> 's \<Rightarrow> Alert option) \<Rightarrow> (Alert \<Rightarrow> 's \<Rightarrow> 's) \<Rightarrow> string \<Rightarrow> string \<Rightarrow> int \<Rightarrow> 's \<Rightarrow> Alert option \<times> 's" where
  "acknowledgeAlert get update i userId now s =
     (case get i s of
        None \<Rightarrow> (None, s)
      | Some alert \<Rightarrow>
          (let updated = alert\<lparr>acknowledgedAt := Some (toISOString now), acknowledgedByUserId := Some userId\<rparr>
           in (Some updated, update updated s)))"

text \<open>What is relied on of the store: an alert is found under its id, and an update is read back.\<close>

locale alert_store =
  fixes get :: "string \<Rightarrow> 's \<Rightarrow> Alert option"
    and update :: "Alert \<Rightarrow> 's \<Rightarrow> 's"
    and ok :: "'s \<Rightarrow> bool"
  assumes get_update: "get i (update a s) = (if i = alertId a then Some a else get i s)"
    and ok_update: "ok s \<Longrightarrow> ok (update a s)"
    and get_id: "ok s \<Longrightarrow> get i s = Some a \<Longrightarrow> alertId a = i"
begin

lemma acknowledge_spec:
  assumes "ok s" "acknowledgeAlert get update i userId now s = (res, s')"
  shows "ok s'"
    "res = map_option (\<lambda>a. a\<lparr>acknowledgedAt := Some (toISOString now), acknowledgedByUserId := Some userId\<rparr>) (get i s)"
    "get j s' = (if j = i then res else get j s)"
  using assms get_id [OF assms(1)]
  by (auto simp: acknowledgeAlert_def get_update ok_update Let_def split: option.splits)

text \<open>The last of two acknowledgements counts.\<close>

lemma acknowledge_again:
  assumes "ok s" "acknowledgeAlert get update i u t s = (Some a, s')"
  shows "fst (acknowledgeAlert get update i u' t' s') =
    Some (a\<lparr>acknowledgedAt := Some (toISOString t'), acknowledgedByUserId := Some u'\<rparr>)"
  using acknowledge_spec [OF assms] by (cases "get i s") (simp_all add: acknowledgeAlert_def Let_def)

end

definition alerts_ok :: "AlertState \<Rightarrow> bool" where
  "alerts_ok m = (\<forall>(i, a) \<in> set m. alertId a = i)"

lemma alerts_ok_update: "alerts_ok m \<Longrightarrow> alerts_ok (updateAlert a m)"
  by (induction m) (auto simp: alerts_ok_def updateAlert_def)

interpretation alert_map: alert_store getAlert updateAlert alerts_ok
  by unfold_locales (auto simp: store_simps alerts_ok_update, auto simp: getAlert_def alerts_ok_def dest: map_of_SomeD)

text \<open>Acknowledging, on any store of alerts under their ids: an unknown alert gives \<open>null\<close> and changes
  nothing; a known one is returned and stored with the time and the user of the acknowledgement
  and otherwise as it was. No other alert changes, and a second acknowledgement replaces the first.\<close>

theorem acknowledge_alert:
  assumes "alerts_ok m"
  shows "case acknowledgeAlert getAlert updateAlert i userId now m of (res, m') \<Rightarrow>
    alerts_ok m' \<and>
    res = map_option (\<lambda>a. a\<lparr>acknowledgedAt := Some (toISOString now), acknowledgedByUserId := Some userId\<rparr>) (getAlert i m) \<and>
    (\<forall>j. getAlert j m' = (if j = i then res else getAlert j m)) \<and>
    (getAlert i m = None \<longrightarrow> m' = m) \<and>
    fst (acknowledgeAlert getAlert updateAlert i userId' now' m') =
      map_option (\<lambda>a. a\<lparr>acknowledgedAt := Some (toISOString now'), acknowledgedByUserId := Some userId'\<rparr>) (getAlert i m)"
proof -
  obtain res m' where r: "acknowledgeAlert getAlert updateAlert i userId now m = (res, m')" by fastforce
  note s = alert_map.acknowledge_spec [OF assms r]
  have "getAlert i m = None \<longrightarrow> m' = m" using r by (auto simp: acknowledgeAlert_def)
  moreover have "fst (acknowledgeAlert getAlert updateAlert i userId' now' m') =
      map_option (\<lambda>a. a\<lparr>acknowledgedAt := Some (toISOString now'), acknowledgedByUserId := Some userId'\<rparr>) (getAlert i m)"
    using s(2) s(3) [of i] alert_map.acknowledge_again [OF assms, of i userId now _ m' userId' now'] r
    by (cases "getAlert i m") (auto simp: acknowledgeAlert_def)
  ultimately show ?thesis using s r by simp
qed

definition demo_alert :: "string \<Rightarrow> Alert" where
  "demo_alert i = buildDataQualityAlert i ''g1'' [GATE_COUNTER] 0"

lemma acknowledge_alert_witness:
  "fst (acknowledgeAlert getAlert updateAlert ''a1'' ''ann'' 5 [(''a1'', demo_alert ''a1''), (''a2'', demo_alert ''a2'')]) =
     Some ((demo_alert ''a1'')\<lparr>acknowledgedAt := Some (toISOString 5), acknowledgedByUserId := Some ''ann''\<rparr>) \<and>
   getAlert ''a2'' (snd (acknowledgeAlert getAlert updateAlert ''a1'' ''ann'' 5
      [(''a1'', demo_alert ''a1''), (''a2'', demo_alert ''a2'')])) = Some (demo_alert ''a2'')"
proof -
  let ?m = "[(''a1'', demo_alert ''a1''), (''a2'', demo_alert ''a2'')]"
  have "alerts_ok ?m" by (simp add: alerts_ok_def demo_alert_def buildDataQualityAlert_def)
  from acknowledge_alert [OF this, where i = "''a1''" and userId = "''ann''" and now = 5]
  show ?thesis by (auto simp: case_prod_beta getAlert_def)
qed

section \<open>The snapshot\<close>

record GateSnapshot =
  snap_gateId :: GateId
  snap_score :: jsnum
  snap_riskLevel :: RiskLevel
  snap_lowConfidence :: bool
  snap_outdated :: bool
  dataQualityIndicator :: bool
  snap_activeActions :: "RecommendedAction list"

definition getSnapshot ::
  "(GateId \<Rightarrow> 's \<Rightarrow> CongestionScorePoint option) \<Rightarrow> (GateId \<Rightarrow> 's \<Rightarrow> RecommendedAction list) \<Rightarrow> (GateId \<Rightarrow> 's \<Rightarrow> bool)
    \<Rightarrow> GateId list \<Rightarrow> 's \<Rightarrow> GateSnapshot list" where
  "getSnapshot scoreOf actionsOf degradedOf gateIds s =
     map (\<lambda>gate. let scorePoint = scoreOf gate s; activeActions = actionsOf gate s; degraded = degradedOf gate s
        in \<lparr>snap_gateId = gate, snap_score = coalesce (map_option score scorePoint) (Fin 0),
            snap_riskLevel = coalesce (map_option riskLevel scorePoint) LOW,
            snap_lowConfidence = coalesce (map_option point_lowConfidence scorePoint) False,
            snap_outdated = coalesce (map_option outdated scorePoint) False,
            dataQualityIndicator = degraded, snap_activeActions = activeActions\<rparr>) gateIds"

section \<open>The stream\<close>

datatype DashboardStreamEvent =
    ScoreUpdate CongestionScorePoint
  | ActionListUpdate GateId "RecommendedAction list"
  | RedirectionUpdate ShuttleRedirectionRecommendation
  | AlertEvent Alert

definition DASHBOARD_REFRESH_INTERVAL_MS :: int where
  "DASHBOARD_REFRESH_INTERVAL_MS = 30000"

text \<open>A connection is an object, here its identity; the timers of the runtime are part of the state.\<close>

record DashboardWebSocketHub =
  connections :: "nat list"
  heartbeatHandle :: "nat option"
  hub_timers :: "(nat, int) jsmap"
  hub_next :: nat

definition new_hub :: DashboardWebSocketHub where
  "new_hub = \<lparr>connections = [], heartbeatHandle = None, hub_timers = [], hub_next = 0\<rparr>"

definition register :: "nat \<Rightarrow> DashboardWebSocketHub \<Rightarrow> DashboardWebSocketHub" where
  "register c h = (if c \<in> set (connections h) then h else h\<lparr>connections := connections h @ [c]\<rparr>)"

definition unregister :: "nat \<Rightarrow> DashboardWebSocketHub \<Rightarrow> DashboardWebSocketHub" where
  "unregister c h = h\<lparr>connections := filter (\<lambda>d. d \<noteq> c) (connections h)\<rparr>"

definition broadcast ::
  "(nat \<Rightarrow> DashboardStreamEvent \<Rightarrow> 's \<Rightarrow> 's) \<Rightarrow> DashboardWebSocketHub \<Rightarrow> DashboardStreamEvent \<Rightarrow> 's \<Rightarrow> 's" where
  "broadcast send h event s = fold (\<lambda>connection. send connection event) (connections h) s"

definition stopHeartbeat :: "DashboardWebSocketHub \<Rightarrow> DashboardWebSocketHub" where
  "stopHeartbeat h = (case heartbeatHandle h of
       Some handle \<Rightarrow> h\<lparr>hub_timers := AList.delete handle (hub_timers h), heartbeatHandle := None\<rparr>
     | None \<Rightarrow> h)"

definition startHeartbeat :: "int \<Rightarrow> DashboardWebSocketHub \<Rightarrow> DashboardWebSocketHub" where
  "startHeartbeat intervalMs h =
     (let h1 = stopHeartbeat h
      in h1\<lparr>heartbeatHandle := Some (hub_next h1),
            hub_timers := AList.update (hub_next h1) intervalMs (hub_timers h1), hub_next := Suc (hub_next h1)\<rparr>)"

text \<open>What the timer runs.\<close>

definition heartbeat_tick ::
  "('s \<Rightarrow> DashboardStreamEvent list) \<Rightarrow> (nat \<Rightarrow> DashboardStreamEvent \<Rightarrow> 's \<Rightarrow> 's) \<Rightarrow> DashboardWebSocketHub \<Rightarrow> 's \<Rightarrow> 's" where
  "heartbeat_tick getLatestSnapshotEvents send h s = fold (broadcast send h) (getLatestSnapshotEvents s) s"

text \<open>A history of the hub, with connections that keep what they are sent.\<close>

datatype hub_op = Register nat | Unregister nat | Broadcast DashboardStreamEvent | StartHeartbeat int | StopHeartbeat

type_synonym sent_log = "(nat \<times> DashboardStreamEvent) list"

definition send_logged :: "nat \<Rightarrow> DashboardStreamEvent \<Rightarrow> sent_log \<Rightarrow> sent_log" where
  "send_logged c event sent = sent @ [(c, event)]"

fun hub_step :: "hub_op \<Rightarrow> DashboardWebSocketHub \<times> sent_log \<Rightarrow> DashboardWebSocketHub \<times> sent_log" where
  "hub_step (Register c) (h, sent) = (register c h, sent)"
| "hub_step (Unregister c) (h, sent) = (unregister c h, sent)"
| "hub_step (Broadcast event) (h, sent) = (h, broadcast send_logged h event sent)"
| "hub_step (StartHeartbeat ms) (h, sent) = (startHeartbeat ms h, sent)"
| "hub_step StopHeartbeat (h, sent) = (stopHeartbeat h, sent)"

text \<open>The specification of one connection: it is on or off, and while it is on it hears every event.\<close>

fun heard :: "nat \<Rightarrow> bool \<Rightarrow> hub_op list \<Rightarrow> DashboardStreamEvent list" where
  "heard c on [] = []"
| "heard c on (Register d # ops) = heard c (c = d \<or> on) ops"
| "heard c on (Unregister d # ops) = heard c (on \<and> c \<noteq> d) ops"
| "heard c on (Broadcast event # ops) = (if on then event # heard c on ops else heard c on ops)"
| "heard c on (StartHeartbeat ms # ops) = heard c on ops"
| "heard c on (StopHeartbeat # ops) = heard c on ops"

fun last_heartbeat :: "int option \<Rightarrow> hub_op list \<Rightarrow> int option" where
  "last_heartbeat b [] = b"
| "last_heartbeat b (StartHeartbeat ms # ops) = last_heartbeat (Some ms) ops"
| "last_heartbeat b (StopHeartbeat # ops) = last_heartbeat None ops"
| "last_heartbeat b (op # ops) = last_heartbeat b ops"

lemma heartbeat_connections [simp]:
  "connections (stopHeartbeat h) = connections h" "connections (startHeartbeat ms h) = connections h"
  by (simp_all add: stopHeartbeat_def startHeartbeat_def Let_def split: option.splits)

lemma broadcast_received:
  assumes "distinct (connections h)"
  shows "deliveries c (broadcast send_logged h event sent) =
    deliveries c sent @ (if c \<in> set (connections h) then [event] else [])"
  using deliveries_round [OF assms, of c event sent] by (simp add: broadcast_def send_logged_def [abs_def])

lemma hub_step_connections:
  assumes "distinct (connections h)" "hub_step op (h, sent) = (h', sent')"
  shows "distinct (connections h')"
  using assms by (cases op) (auto simp: register_def unregister_def)

lemma fold_received:
  assumes "distinct (connections h)"
  shows "deliveries c (snd (fold hub_step ops (h, sent))) =
    deliveries c sent @ heard c (c \<in> set (connections h)) ops"
  using assms
proof (induction ops arbitrary: h sent)
  case Nil
  then show ?case by simp
next
  case (Cons op ops)
  obtain h' sent' where s: "hub_step op (h, sent) = (h', sent')" by fastforce
  note IH = Cons.IH [OF hub_step_connections [OF Cons.prems s], of sent']
  have absorb: "d \<in> A \<Longrightarrow> (c = d \<or> c \<in> A) = (c \<in> A)" for d A by auto
  show ?case
    using IH s Cons.prems
    by (cases op) (auto simp: register_def unregister_def broadcast_received absorb)
qed

text \<open>The running timers are exactly the one under the handle.\<close>

definition heartbeat_is :: "DashboardWebSocketHub \<Rightarrow> int option \<Rightarrow> bool" where
  "heartbeat_is h b = (case heartbeatHandle h of
       None \<Rightarrow> b = None \<and> hub_timers h = []
     | Some k \<Rightarrow> (\<exists>ms. b = Some ms \<and> hub_timers h = [(k, ms)]))"

lemma heartbeat_fold:
  assumes "heartbeat_is h b"
  shows "heartbeat_is (fst (fold hub_step ops (h, sent))) (last_heartbeat b ops)"
  using assms
proof (induction ops arbitrary: h sent b)
  case Nil
  then show ?case by simp
next
  case (Cons op ops)
  have stop: "heartbeatHandle (stopHeartbeat h) = None" "hub_timers (stopHeartbeat h) = []"
    using Cons.prems by (auto simp: heartbeat_is_def stopHeartbeat_def split: option.splits)
  then have "heartbeat_is (stopHeartbeat h) None" "heartbeat_is (startHeartbeat ms h) (Some ms)" for ms
    by (simp_all add: heartbeat_is_def startHeartbeat_def Let_def)
  moreover have "heartbeat_is (register c h) b" "heartbeat_is (unregister c h) b" for c
    using Cons.prems by (auto simp: heartbeat_is_def register_def unregister_def split: option.splits)
  ultimately show ?case using Cons by (cases op) simp_all
qed

text \<open>C33. The stream over any history of connections coming and going, broadcasts and heartbeat changes:
  each connection receives exactly the events broadcast while it was registered, once each and in
  order, however often it registered, and independently of all other connections. At most one
  heartbeat timer runs: the one last started, if it was not stopped since.\<close>

theorem stream_delivery:
  "deliveries c (snd (fold hub_step ops (new_hub, []))) = heard c False ops \<and>
   map snd (hub_timers (fst (fold hub_step ops (new_hub, [])))) =
     (case last_heartbeat None ops of None \<Rightarrow> [] | Some ms \<Rightarrow> [ms])"
proof
  show "deliveries c (snd (fold hub_step ops (new_hub, []))) = heard c False ops"
    using fold_received [of new_hub c ops "[]"] by (simp add: new_hub_def)
  have "heartbeat_is new_hub None" by (simp add: heartbeat_is_def new_hub_def)
  from heartbeat_fold [OF this, of ops "[]"]
  show "map snd (hub_timers (fst (fold hub_step ops (new_hub, [])))) =
     (case last_heartbeat None ops of None \<Rightarrow> [] | Some ms \<Rightarrow> [ms])"
    by (auto simp: heartbeat_is_def split: option.splits)
qed

end
