(* ===== verification/AuditLog.thy ===== *)
theory AuditLog
  imports Stores
begin

text \<open>
  The audit log: \<open>src/audit-log-service/consumer.ts\<close> and \<open>api.ts\<close>, over a repository that is an
  argument; \<open>memory_repository\<close> is the one of \<open>src/server.ts\<close>. The lemmas show what is kept of
  what the consumer is given, and when a record falls into a queried range.
\<close>

section \<open>The consumer\<close>

record 's AuditRepository =
  repo_writeSignalEvent :: "SignalEvent \<Rightarrow> 's \<Rightarrow> 's"
  repo_writeValidationError :: "json ValidationErrorRecord \<Rightarrow> 's \<Rightarrow> 's"
  repo_writeScoreAudit :: "ScoreAuditRecord \<Rightarrow> 's \<Rightarrow> 's"
  repo_writeActionAudit :: "RecommendedAction \<Rightarrow> 's \<Rightarrow> 's"
  repo_writeShuttleRecommendation :: "ShuttleRedirectionRecommendation \<Rightarrow> 's \<Rightarrow> 's"
  repo_writeNudgeAudit :: "FanNudge \<Rightarrow> 's \<Rightarrow> 's"

datatype AuditableMessage =
    AuditSignalEvent SignalEvent
  | AuditValidationError "json ValidationErrorRecord"
  | AuditScore ScoreAuditRecord
  | AuditAction RecommendedAction
  | AuditShuttle ShuttleRedirectionRecommendation
  | AuditNudge FanNudge

fun handleMessage :: "'s AuditRepository \<Rightarrow> AuditableMessage \<Rightarrow> 's \<Rightarrow> 's" where
  "handleMessage repo (AuditSignalEvent v) s = repo_writeSignalEvent repo v s"
| "handleMessage repo (AuditValidationError v) s = repo_writeValidationError repo v s"
| "handleMessage repo (AuditScore v) s = repo_writeScoreAudit repo v s"
| "handleMessage repo (AuditAction v) s = repo_writeActionAudit repo v s"
| "handleMessage repo (AuditShuttle v) s = repo_writeShuttleRecommendation repo v s"
| "handleMessage repo (AuditNudge v) s = repo_writeNudgeAudit repo v s"

definition memory_repository :: "AuditState AuditRepository" where
  "memory_repository = \<lparr>repo_writeSignalEvent = writeSignalEvent, repo_writeValidationError = writeValidationError,
     repo_writeScoreAudit = writeScoreAudit, repo_writeActionAudit = writeActionAudit,
     repo_writeShuttleRecommendation = writeShuttleRecommendation, repo_writeNudgeAudit = writeNudgeAudit\<rparr>"

lemmas handle_memory = memory_repository_def audit_writes

text \<open>The last element of a list with a key, as a map filled in order holds it.\<close>

definition latest :: "('a \<Rightarrow> 'k) \<Rightarrow> 'a list \<Rightarrow> 'k \<Rightarrow> 'a option" where
  "latest key xs k = find (\<lambda>x. key x = k) (rev xs)"

lemma latest_simps [simp]:
  "latest key [] k = None"
  "latest key (x # xs) k = (case latest key xs k of Some y \<Rightarrow> Some y | None \<Rightarrow> if key x = k then Some x else None)"
proof -
  have "find p (xs @ [x]) = (case find p xs of Some y \<Rightarrow> Some y | None \<Rightarrow> if p x then Some x else None)" for p and xs :: "'a list" and x
    by (induction xs) auto
  then show "latest key [] k = None"
    "latest key (x # xs) k = (case latest key xs k of Some y \<Rightarrow> Some y | None \<Rightarrow> if key x = k then Some x else None)"
    by (simp_all add: latest_def)
qed

lemma audit_lists:
  "audit_signalEvents (fold (handleMessage memory_repository) msgs s) = audit_signalEvents s @ [e. AuditSignalEvent e \<leftarrow> msgs]"
  "audit_validationErrors (fold (handleMessage memory_repository) msgs s) =
     audit_validationErrors s @ [e. AuditValidationError e \<leftarrow> msgs]"
  "audit_scores (fold (handleMessage memory_repository) msgs s) = audit_scores s @ [r. AuditScore r \<leftarrow> msgs]"
  "audit_shuttle (fold (handleMessage memory_repository) msgs s) = audit_shuttle s @ [r. AuditShuttle r \<leftarrow> msgs]"
proof (induction msgs arbitrary: s)
  case (Cons m msgs)
  { case 1 show ?case using Cons by (cases m) (simp_all add: handle_memory) }
  { case 2 show ?case using Cons by (cases m) (simp_all add: handle_memory) }
  { case 3 show ?case using Cons by (cases m) (simp_all add: handle_memory) }
  { case 4 show ?case using Cons by (cases m) (simp_all add: handle_memory) }
qed simp_all

lemma audit_maps:
  "map_of (audit_actions (fold (handleMessage memory_repository) msgs s)) i =
    (case latest actionId [a. AuditAction a \<leftarrow> msgs] i of Some a \<Rightarrow> Some a | None \<Rightarrow> map_of (audit_actions s) i)"
  "map_of (audit_nudges (fold (handleMessage memory_repository) msgs s)) i =
    (case latest nudgeId [n. AuditNudge n \<leftarrow> msgs] i of Some n \<Rightarrow> Some n | None \<Rightarrow> map_of (audit_nudges s) i)"
proof (induction msgs arbitrary: s)
  case (Cons m msgs)
  { case 1 show ?case using Cons by (cases m) (simp_all add: handle_memory store_simps split: option.splits) }
  { case 2 show ?case using Cons by (cases m) (simp_all add: handle_memory store_simps split: option.splits) }
qed simp_all

text \<open>A map entry written twice is as if written the second time only.\<close>

lemma update_overwritten: "AList.update k y (AList.update k x m) = AList.update k y m"
  by (induction m) auto

lemma audit_overwritten:
  "actionId a = actionId b \<Longrightarrow> handleMessage memory_repository (AuditAction b) (handleMessage memory_repository (AuditAction a) s) =
    handleMessage memory_repository (AuditAction b) s"
  "nudgeId n = nudgeId m \<Longrightarrow> handleMessage memory_repository (AuditNudge m) (handleMessage memory_repository (AuditNudge n) s) =
    handleMessage memory_repository (AuditNudge m) s"
  by (simp_all add: handle_memory update_overwritten)

text \<open>C34. What the audit log keeps of any sequence of messages, whatever the state before: the signal events
  (stale and late ones included), validation errors, scores and redirections follow
  the earlier ones unmodified and in order, none is lost. Actions and nudges are kept by id: an id holds the last record of the
  sequence, or the earlier record if the sequence has none, and an earlier record leaves no trace once a later one with its id is
  written, as when a nudge that was audited as queued is audited again as delivered or cancelled. A message of one kind
  touches no record of another.\<close>

theorem audit_complete:
  "let s' = fold (handleMessage memory_repository) msgs s in
    audit_signalEvents s' = audit_signalEvents s @ [e. AuditSignalEvent e \<leftarrow> msgs] \<and>
    audit_validationErrors s' = audit_validationErrors s @ [e. AuditValidationError e \<leftarrow> msgs] \<and>
    audit_scores s' = audit_scores s @ [r. AuditScore r \<leftarrow> msgs] \<and>
    audit_shuttle s' = audit_shuttle s @ [r. AuditShuttle r \<leftarrow> msgs] \<and>
    (\<forall>i. map_of (audit_actions s') i =
      (case latest actionId [a. AuditAction a \<leftarrow> msgs] i of Some a \<Rightarrow> Some a | None \<Rightarrow> map_of (audit_actions s) i)) \<and>
    (\<forall>i. map_of (audit_nudges s') i =
      (case latest nudgeId [n. AuditNudge n \<leftarrow> msgs] i of Some n \<Rightarrow> Some n | None \<Rightarrow> map_of (audit_nudges s) i)) \<and>
    (\<forall>a t user. let b = a\<lparr>executedAt := t, executedByUserId := user\<rparr> in
      fold (handleMessage memory_repository) (msgs @ [AuditAction a, AuditAction b]) s = handleMessage memory_repository (AuditAction b) s') \<and>
    (\<forall>n status t. let m = n\<lparr>nudge_status := status, simulatedDeliveryTimestamp := t\<rparr> in
      fold (handleMessage memory_repository) (msgs @ [AuditNudge n, AuditNudge m]) s = handleMessage memory_repository (AuditNudge m) s')"
proof -
  have "actionId a = actionId b \<Longrightarrow> fold (handleMessage memory_repository) (msgs @ [AuditAction a, AuditAction b]) s =
      handleMessage memory_repository (AuditAction b) (fold (handleMessage memory_repository) msgs s)"
    "nudgeId n = nudgeId m \<Longrightarrow> fold (handleMessage memory_repository) (msgs @ [AuditNudge n, AuditNudge m]) s =
      handleMessage memory_repository (AuditNudge m) (fold (handleMessage memory_repository) msgs s)" for a b n m
    using audit_overwritten by (simp_all del: handleMessage.simps)
  then show ?thesis unfolding Let_def using audit_lists audit_maps by simp
qed

section \<open>Queries\<close>

definition getScores :: "(AuditQueryRange \<Rightarrow> 's \<Rightarrow> ScoreAuditRecord list) \<Rightarrow> AuditQueryRange \<Rightarrow> 's \<Rightarrow> ScoreAuditRecord list" where
  "getScores query rg s = query rg s"

definition getAuditActions :: "(AuditQueryRange \<Rightarrow> 's \<Rightarrow> RecommendedAction list) \<Rightarrow> AuditQueryRange \<Rightarrow> 's \<Rightarrow> RecommendedAction list" where
  "getAuditActions query rg s = query rg s"

definition getAuditNudges :: "(AuditQueryRange \<Rightarrow> 's \<Rightarrow> FanNudge list) \<Rightarrow> AuditQueryRange \<Rightarrow> 's \<Rightarrow> FanNudge list" where
  "getAuditNudges query rg s = query rg s"

lemma epoch_string: "toISOString 0 = ''1970-01-01T00:00:00.000Z''"
proof -
  have "civil_from_days 0 = (1970, 1, 1)" by code_simp
  moreover have "pad_digits 4 x = pad_digits 3 (x div 10) @ [digit_char (x mod 10)]" for x
    using pad_digits.simps(2) [of 3 x] by (subst (asm) Suc_numeral) (simp only: semiring_norm)
  moreover have "pad_digits 2 x = [digit_char (x div 10 mod 10), digit_char (x mod 10)]" for x by (simp add: numeral_2_eq_2)
  moreover have "digit_char 0 = CHR ''0''" "digit_char (Suc 0) = CHR ''1''" "digit_char 7 = CHR ''7''" "digit_char 9 = CHR ''9''"
    by (simp_all add: digit_char_def char_of_def bit_0)
  ultimately show ?thesis by (simp add: toISOString_def year_string_def clock_string_def pad_digits_3)
qed

lemma in_range_iso:
  assumes "four_digit_year t" "four_digit_year a" "four_digit_year b"
  shows "in_range \<lparr>range_from = Some (toISOString a), range_to = Some (toISOString b), range_gateId = g, range_fanId = f\<rparr> (toISOString t)
    \<longleftrightarrow> a \<le> t \<and> t \<le> b"
  using assms by (auto simp: in_range_def str_lt_def toISOString_less toISOString_not_empty)

text \<open>Queries by time: for bounds written as \<open>toISOString\<close> writes them, in the years 0 to 9999, the
  comparison of strings is the comparison of times, so the scores returned are exactly the
  recorded ones from the first to the last instant of the range, both included, of the gate asked
  for, in order of recording; without bounds and gate all are returned. A lower bound with another
  offset, which names an earlier instant, can hide a record: the bounds are compared as strings.\<close>

theorem audit_range:
  assumes "\<forall>r \<in> set (audit_scores s). \<exists>t. four_digit_year t \<and> sa_timestamp r = toISOString t"
    and "four_digit_year a" "four_digit_year b" "gate \<noteq> []"
  shows "getScores queryScores \<lparr>range_from = Some (toISOString a), range_to = Some (toISOString b),
        range_gateId = Some gate, range_fanId = None\<rparr> s =
      filter (\<lambda>r. sa_gateId r = gate \<and> (\<exists>t. date_parse (sa_timestamp r) = Some t \<and> a \<le> t \<and> t \<le> b)) (audit_scores s) \<and>
    getScores queryScores \<lparr>range_from = None, range_to = None, range_gateId = None, range_fanId = None\<rparr> s = audit_scores s \<and>
    (\<exists>bound t0 t. date_parse bound = Some t0 \<and> t0 \<le> t \<and>
      \<not> in_range \<lparr>range_from = Some bound, range_to = None, range_gateId = None, range_fanId = None\<rparr> (toISOString t))"
proof (intro conjI)
  have "gate_in_range rg (sa_gateId r) \<and> in_range rg (sa_timestamp r) \<longleftrightarrow>
      sa_gateId r = gate \<and> (\<exists>t. date_parse (sa_timestamp r) = Some t \<and> a \<le> t \<and> t \<le> b)"
    if r: "r \<in> set (audit_scores s)" and rg:
      "rg = \<lparr>range_from = Some (toISOString a), range_to = Some (toISOString b), range_gateId = Some gate, range_fanId = None\<rparr>" for r rg
  proof -
    obtain t where t: "four_digit_year t" "sa_timestamp r = toISOString t" using bspec [OF assms(1) r] by auto
    then show ?thesis
      using in_range_iso [OF t(1) assms(2,3)] assms(4) date_parse_toISOString [OF four_digit_valid [OF t(1)]]
      by (auto simp: rg gate_in_range_def)
  qed
  then show "getScores queryScores \<lparr>range_from = Some (toISOString a), range_to = Some (toISOString b),
        range_gateId = Some gate, range_fanId = None\<rparr> s =
      filter (\<lambda>r. sa_gateId r = gate \<and> (\<exists>t. date_parse (sa_timestamp r) = Some t \<and> a \<le> t \<and> t \<le> b)) (audit_scores s)"
    unfolding getScores_def queryScores_def by (intro filter_cong) simp_all
  show "getScores queryScores \<lparr>range_from = None, range_to = None, range_gateId = None, range_fanId = None\<rparr> s = audit_scores s"
    by (simp add: getScores_def queryScores_def gate_in_range_def in_range_def)
  have "date_parse ''1970-01-01T00:30:00+01:00'' = Some (-1800000)"
    by code_simp
  then show "\<exists>bound t0 t. date_parse bound = Some t0 \<and> t0 \<le> t \<and>
      \<not> in_range \<lparr>range_from = Some bound, range_to = None, range_gateId = None, range_fanId = None\<rparr> (toISOString t)"
    by (intro exI [of _ "''1970-01-01T00:30:00+01:00''"] exI [of _ "-1800000"] exI [of _ 0])
      (simp add: in_range_def str_lt_def less_char_def epoch_string)
qed

definition demo_score :: "GateId \<Rightarrow> int \<Rightarrow> ScoreAuditRecord" where
  "demo_score g t = \<lparr>sa_gateId = g, sa_timestamp = toISOString t, sa_score = Fin 50, sa_riskLevel = MODERATE,
     contributingSignalIds = [], contributingSignalLateArrivalFlags = []\<rparr>"

lemma audit_range_witness:
  "getScores queryScores \<lparr>range_from = Some (toISOString 1), range_to = Some (toISOString 2),
        range_gateId = Some ''g1'', range_fanId = None\<rparr>
     (empty_audit\<lparr>audit_scores := [demo_score ''g1'' 0, demo_score ''g1'' 2, demo_score ''g2'' 1]\<rparr>) = [demo_score ''g1'' 2]"
proof -
  let ?s = "empty_audit\<lparr>audit_scores := [demo_score ''g1'' 0, demo_score ''g1'' 2, demo_score ''g2'' 1]\<rparr>"
  have y: "four_digit_year 0" "four_digit_year 1" "four_digit_year 2"
    by (simp_all add: four_digit_year_def)
  then have "\<forall>r \<in> set (audit_scores ?s). \<exists>t. four_digit_year t \<and> sa_timestamp r = toISOString t"
    by (auto simp: demo_score_def)
  from audit_range [OF this y(2,3), of "''g1''"]
  show ?thesis using y by (simp add: demo_score_def date_parse_toISOString four_digit_valid)
qed

end
