(* ===== verification/Pipeline.thy ===== *)
theory Pipeline
  imports EventBus ForecastService Recommend Redirect Nudges Dashboard AuditLog
begin

text \<open>
  \<open>src/pipeline.ts\<close>: the subscribers that turn signals into forecasts, alerts, recommendations,
  redirections, nudges and audit records, over the in-memory stores of \<open>src/server.ts\<close>.

  All stores answer at once, so the promises of one cascade settle before the next timer or request
  runs: a handler is modelled as run to completion when its message is published, and the clock is
  read once per cascade. Publishing is recursive, because handlers publish; \<open>pipe_publish\<close> bounds
  the depth, and \<open>cascade_ends\<close> shows that depth 3 is never exceeded. What the environment
  draws (the ids of alerts, whether a computation meets its deadline) are arguments indexed by a
  counter.
\<close>

section \<open>The state\<close>

record PipelineConfig =
  cfg_gates :: "Gate list"
  cfg_routes :: "ShuttleRoute list"
  cfg_lc :: "string \<Rightarrow> string \<Rightarrow> jsnum"
  cfg_uuid :: "nat \<Rightarrow> string"
  cfg_race :: "nat \<Rightarrow> race_outcome"

record PipelineState =
  p_clock :: int
  p_draws :: nat
  p_redis :: RedisState
  signalWindowByGate :: "(GateId, SignalEvent list) jsmap"
  fansByGate :: "(GateId, (FanId, FanContext) jsmap) jsmap"
  forecastsByGate :: "(GateId, ForecastResult) jsmap"
  previousRiskLevelByGate :: "(GateId, RiskLevel) jsmap"
  forecastStore :: ForecastStoreState
  gateScoreSource :: GateScoreState
  activeActionsStore :: ActiveActionsState
  activeActionsSource :: ActiveActionsState
  redirectionStore :: RedirectionState
  recentRejections :: "RejectionRecord list"
  p_nudges :: NudgeWorld
  alertStore :: AlertState
  dataQualitySource :: DataQualityState
  dashboardHub :: DashboardWebSocketHub
  p_sent :: sent_log
  p_scheduler :: ForecastScheduler
  p_subscribed :: bool
  p_workers :: bool
  p_errors :: "(Topic \<times> js_error) list"
  p_unhandled :: "js_error list"

definition SIGNAL_WINDOW_RETENTION_MS :: int where
  "SIGNAL_WINDOW_RETENTION_MS = 10 * 60 * 1000"

text \<open>\<open>new Map(gates.map((g) => [g.gateId, g]))\<close>.\<close>

definition gatesById :: "Gate list \<Rightarrow> (GateId, Gate) jsmap" where
  "gatesById gates = fold (\<lambda>g m. AList.update (gate_id g) g m) gates []"

definition draw :: "PipelineState \<Rightarrow> PipelineState" where
  "draw s = s\<lparr>p_draws := Suc (p_draws s)\<rparr>"

section \<open>Windows and fans\<close>

text \<open>An unparsable timestamp is \<open>NaN\<close>, which is not at or above the cutoff.\<close>

definition within_retention :: "int \<Rightarrow> SignalEvent \<Rightarrow> bool" where
  "within_retention now e = (case date_parse (timestamp e) of
       Some t \<Rightarrow> now - SIGNAL_WINDOW_RETENTION_MS \<le> t | None \<Rightarrow> False)"

definition appendToWindow :: "GateId \<Rightarrow> SignalEvent \<Rightarrow> int \<Rightarrow> PipelineState \<Rightarrow> PipelineState" where
  "appendToWindow g event now s =
     (let existing = get_or (signalWindowByGate s) g [];
          pruned = filter (within_retention now) existing
      in s\<lparr>signalWindowByGate := AList.update g (pruned @ [event]) (signalWindowByGate s)\<rparr>)"

definition getWindowForGate :: "GateId \<Rightarrow> PipelineState \<Rightarrow> SignalEvent list" where
  "getWindowForGate g s = get_or (signalWindowByGate s) g []"

definition add_fans :: "GateId \<Rightarrow> FanId list \<Rightarrow> PipelineState \<Rightarrow> PipelineState" where
  "add_fans g fanIds s =
     (let fanMap = get_or (fansByGate s) g [];
          fanMap' = fold (\<lambda>f m. AList.update f \<lparr>fan_fanId = f\<rparr> m) fanIds fanMap
      in s\<lparr>fansByGate := AList.update g fanMap' (fansByGate s)\<rparr>)"

text \<open>The payload is cast to the one of its source; a parsed event has that payload.\<close>

definition trackFansForEvent :: "SignalEvent \<Rightarrow> PipelineState \<Rightarrow> PipelineState" where
  "trackFansForEvent event s =
     (let s1 = (if source event = TICKET_SCANNER \<and> truthy_str (gateId event)
                then (case payload event of
                        TicketScanBody p \<Rightarrow> add_fans (the (gateId event)) [scan_fanId p] s
                      | _ \<Rightarrow> s)
                else s)
      in if source event = TRANSIT_FEED
         then (case payload event of
                 TransitArrivalBody p \<Rightarrow>
                   (case transit_fanIds p of
                      Some fanIds \<Rightarrow> if truthy_str (destinationGateId p) then add_fans (the (destinationGateId p)) fanIds s1 else s1
                    | None \<Rightarrow> s1)
               | _ \<Rightarrow> s1)
         else s1)"

section \<open>Publishers\<close>

definition pipe_broadcast :: "DashboardStreamEvent \<Rightarrow> PipelineState \<Rightarrow> PipelineState" where
  "pipe_broadcast event s = s\<lparr>p_sent := broadcast send_logged (dashboardHub s) event (p_sent s)\<rparr>"

definition publishAlert :: "Alert \<Rightarrow> PipelineState \<Rightarrow> PipelineState" where
  "publishAlert alert s = pipe_broadcast (AlertEvent alert) (s\<lparr>alertStore := addAlert alert (alertStore s)\<rparr>)"

type_synonym publisher = "BusMessage \<Rightarrow> PipelineState \<Rightarrow> PipelineState"

definition publishForecast :: "publisher \<Rightarrow> Gate \<Rightarrow> ForecastResult \<Rightarrow> PipelineState \<Rightarrow> PipelineState" where
  "publishForecast pub gate result s =
     (let s1 = s\<lparr>forecastStore := setForecast (gate_id gate) (scores result) (forecastStore s)\<rparr>;
          s2 = (case head_opt (scores result) of
                  Some currentPoint \<Rightarrow> s1\<lparr>gateScoreSource := setScore (gate_id gate) currentPoint (gateScoreSource s1)\<rparr>
                | None \<Rightarrow> s1)
      in pub (CongestionScoreMsg \<lparr>csm_gate = gate, csm_result = result\<rparr>) s2)"

definition publishActions :: "publisher \<Rightarrow> GateId \<Rightarrow> RecommendedAction list \<Rightarrow> PipelineState \<Rightarrow> PipelineState" where
  "publishActions pub g actions s =
     pub (RecommendedActionsMsg \<lparr>ram_gateId = g, ram_actions = actions\<rparr>)
       (s\<lparr>activeActionsSource := setSourceActions g actions (activeActionsSource s)\<rparr>)"

text \<open>The scheduler's recompute on the pipeline's state; its redis client is the pipeline's.\<close>

definition run_recompute :: "PipelineConfig \<Rightarrow> publisher \<Rightarrow> Gate \<Rightarrow> PipelineState \<Rightarrow> js_error option \<times> PipelineState" where
  "run_recompute cfg pub gate s =
     (let (err, redis, s') = onSignalEventForGate getWindowForGate
            (\<lambda>gate result (r, s1). let s2 = publishForecast pub gate result (s1\<lparr>p_redis := r\<rparr>) in (p_redis s2, s2))
            (cfg_race cfg (p_draws s)) gate (p_clock s) (p_redis s, draw s)
      in (err, s'\<lparr>p_redis := redis\<rparr>))"

section \<open>The subscribers\<close>

fun onSignalEvent :: "PipelineConfig \<Rightarrow> publisher \<Rightarrow> PipelineState bus_handler" where
  "onSignalEvent cfg pub (SignalEventMsg event) s =
     (let now = p_clock s;
          s1 = trackFansForEvent event s
      in if \<not> truthy_str (gateId event) then (None, s1)
         else
           (let g = the (gateId event);
                s2 = appendToWindow g event now s1
            in case map_of (gatesById (cfg_gates cfg)) g of
                 Some gate \<Rightarrow> run_recompute cfg pub gate s2
               | None \<Rightarrow> (None, s2)))"
| "onSignalEvent cfg pub _ s = (None, s)"

definition audit_message :: "AuditableMessage \<Rightarrow> PipelineState \<Rightarrow> PipelineState" where
  "audit_message m s = s\<lparr>p_nudges := (p_nudges s)\<lparr>nw_audit := handleMessage memory_repository m (nw_audit (p_nudges s))\<rparr>\<rparr>"

fun auditSignalEvent :: "PipelineState bus_handler" where
  "auditSignalEvent (SignalEventMsg event) s = (None, audit_message (AuditSignalEvent event) s)"
| "auditSignalEvent _ s = (None, s)"

fun auditValidationError :: "PipelineState bus_handler" where
  "auditValidationError (ValidationErrorMsg err) s = (None, audit_message (AuditValidationError err) s)"
| "auditValidationError _ s = (None, s)"

text \<open>\<open>getRecentRejections\<close> of \<open>src/server.ts\<close>.\<close>

definition getRecentRejections :: "PipelineState \<Rightarrow> RejectionRecord list" where
  "getRecentRejections s =
     (let cutoff = p_clock s - REJECTION_SUPPRESSION_MS
      in filter (\<lambda>r. case date_parse (rej_rejectedAt r) of Some t \<Rightarrow> cutoff \<le> t | None \<Rightarrow> False) (recentRejections s))"

definition publish_redirection :: "publisher \<Rightarrow> ShuttleRedirectionRecommendation \<Rightarrow> PipelineState \<Rightarrow> PipelineState" where
  "publish_redirection pub redirection s =
     (let s1 = s\<lparr>redirectionStore := updateRecommendation redirection (redirectionStore s)\<rparr>;
          s2 = pub (ShuttleMsg redirection) s1
      in pipe_broadcast (RedirectionUpdate redirection) s2)"

definition generate_nudges :: "PipelineConfig \<Rightarrow> publisher \<Rightarrow> Gate \<Rightarrow> int \<Rightarrow> PipelineState \<Rightarrow> PipelineState" where
  "generate_nudges cfg pub gate now s =
     (let fans = map snd (get_or (fansByGate s) (gate_id gate) []);
          (nudges, redis, queue) = nudge_onScoreUpdate (cfg_lc cfg) fans gate (forecastsByGate s) now (p_clock s)
            (p_redis s, nw_queue (p_nudges s));
          s1 = s\<lparr>p_redis := redis, p_nudges := (p_nudges s)\<lparr>nw_queue := queue\<rparr>\<rparr>
      in fold (\<lambda>nudge. pub (FanNudgeMsg nudge)) nudges s1)"

text \<open>The first part of the handler, up to the recommendations.\<close>

definition note_forecast :: "PipelineConfig \<Rightarrow> Gate \<Rightarrow> ForecastResult \<Rightarrow> int \<Rightarrow> PipelineState \<Rightarrow> PipelineState" where
  "note_forecast cfg gate result now s =
     (let currentPoint = head_opt (scores result);
          newRiskLevel = coalesce (map_option riskLevel currentPoint) LOW;
          previousRiskLevel = get_or (previousRiskLevelByGate s) (gate_id gate) LOW;
          s1 = s\<lparr>forecastsByGate := AList.update (gate_id gate) result (forecastsByGate s)\<rparr>;
          s2 = snd (raiseRiskLevelAlertIfTransitioned publishAlert (cfg_uuid cfg (p_draws s1)) (gate_id gate)
                 previousRiskLevel newRiskLevel now (draw s1));
          s3 = s2\<lparr>previousRiskLevelByGate := AList.update (gate_id gate) newRiskLevel (previousRiskLevelByGate s2)\<rparr>
      in case currentPoint of Some p \<Rightarrow> pipe_broadcast (ScoreUpdate p) s3 | None \<Rightarrow> s3)"

definition update_actions :: "PipelineConfig \<Rightarrow> publisher \<Rightarrow> Gate \<Rightarrow> ForecastResult \<Rightarrow> PipelineState
    \<Rightarrow> (js_error + RecommendedAction list) \<times> PipelineState" where
  "update_actions cfg pub gate result s =
     onScoreUpdate (cfg_lc cfg) getWindowForGate
       (\<lambda>g actions s. s\<lparr>activeActionsStore := setActiveActions g actions (activeActionsStore s)\<rparr>)
       (publishActions pub) (p_clock s) gate result s"

fun onCongestionScores :: "PipelineConfig \<Rightarrow> publisher \<Rightarrow> PipelineState bus_handler" where
  "onCongestionScores cfg pub (CongestionScoreMsg m) s =
     (let now = p_clock s; gate = csm_gate m; result = csm_result m;
          s1 = note_forecast cfg gate result now s
      in case update_actions cfg pub gate result s1 of
           (Inl e, s2) \<Rightarrow> (Some e, s2)
         | (Inr actions, s2) \<Rightarrow>
             (let s3 = pipe_broadcast (ActionListUpdate (gate_id gate) actions) s2;
                  redirections = generateRedirections (cfg_lc cfg) gate (forecastsByGate s3) (cfg_routes cfg)
                    (getRecentRejections s3) now;
                  s4 = fold (publish_redirection pub) redirections s3
              in (None, generate_nudges cfg pub gate now s4)))"
| "onCongestionScores cfg pub _ s = (None, s)"

text \<open>\<open>Object.fromEntries\<close> keeps the last flag of an id; the order of the keys is the one of insertion.\<close>

definition score_audit :: "Gate \<Rightarrow> CongestionScorePoint \<Rightarrow> SignalEvent list \<Rightarrow> ScoreAuditRecord" where
  "score_audit gate currentPoint window =
     \<lparr>sa_gateId = gate_id gate, sa_timestamp = forecastTime currentPoint, sa_score = score currentPoint,
      sa_riskLevel = riskLevel currentPoint, contributingSignalIds = map signalId window,
      contributingSignalLateArrivalFlags = fold (\<lambda>e m. AList.update (signalId e) (lateArrivalFlag e) m) window []\<rparr>"

fun auditScores :: "PipelineState bus_handler" where
  "auditScores (CongestionScoreMsg m) s =
     (case head_opt (scores (csm_result m)) of
        None \<Rightarrow> (None, s)
      | Some currentPoint \<Rightarrow>
          (None, audit_message (AuditScore (score_audit (csm_gate m) currentPoint (getWindowForGate (gate_id (csm_gate m)) s))) s))"
| "auditScores _ s = (None, s)"

fun auditActions :: "PipelineState bus_handler" where
  "auditActions (RecommendedActionsMsg m) s = (None, fold (\<lambda>a. audit_message (AuditAction a)) (ram_actions m) s)"
| "auditActions _ s = (None, s)"

fun auditRedirection :: "PipelineState bus_handler" where
  "auditRedirection (ShuttleMsg r) s = (None, audit_message (AuditShuttle r) s)"
| "auditRedirection _ s = (None, s)"

fun auditNudge :: "PipelineState bus_handler" where
  "auditNudge (FanNudgeMsg n) s = (None, audit_message (AuditNudge n) s)"
| "auditNudge _ s = (None, s)"

section \<open>The wiring\<close>

definition subscriptions :: "PipelineConfig \<Rightarrow> publisher \<Rightarrow> (Topic \<times> PipelineState bus_handler) list" where
  "subscriptions cfg pub =
     [(SIGNAL_EVENTS, onSignalEvent cfg pub), (SIGNAL_EVENTS, auditSignalEvent),
      (SIGNAL_EVENTS_DLQ, auditValidationError),
      (CONGESTION_SCORES, onCongestionScores cfg pub), (CONGESTION_SCORES, auditScores),
      (RECOMMENDED_ACTIONS, auditActions), (SHUTTLE_RECOMMENDATIONS, auditRedirection), (FAN_NUDGES, auditNudge)]"

definition wired_bus :: "PipelineConfig \<Rightarrow> publisher \<Rightarrow> PipelineState InMemoryEventBus" where
  "wired_bus cfg pub = fold (\<lambda>(t, h) bus. snd (subscribe t h bus)) (subscriptions cfg pub) new_bus"

definition console_error :: "Topic \<Rightarrow> js_error \<Rightarrow> PipelineState \<Rightarrow> PipelineState" where
  "console_error t e s = s\<lparr>p_errors := p_errors s @ [(t, e)]\<rparr>"

text \<open>Publishing with a bound on the depth of the cascade; a stopped pipeline has unsubscribed.\<close>

fun pipe_publish :: "PipelineConfig \<Rightarrow> nat \<Rightarrow> publisher" where
  "pipe_publish cfg 0 m s = s"
| "pipe_publish cfg (Suc n) m s =
     publish console_error (if p_subscribed s then wired_bus cfg (pipe_publish cfg n) else new_bus) m s"

definition CASCADE_DEPTH :: nat where
  "CASCADE_DEPTH = 3"

definition bus_publish :: "PipelineConfig \<Rightarrow> publisher" where
  "bus_publish cfg = pipe_publish cfg CASCADE_DEPTH"

text \<open>Start: the ticks of every gate are started and the two workers run.\<close>

definition initial :: "PipelineConfig \<Rightarrow> int \<Rightarrow> PipelineState" where
  "initial cfg now =
     \<lparr>p_clock = now, p_draws = 0, p_redis = empty_redis, signalWindowByGate = [], fansByGate = [], forecastsByGate = [],
      previousRiskLevelByGate = [], forecastStore = [], gateScoreSource = [], activeActionsStore = [],
      activeActionsSource = [], redirectionStore = [], recentRejections = [],
      p_nudges = \<lparr>nw_queue = [], nw_query = [], nw_audit = empty_audit\<rparr>, alertStore = [], dataQualitySource = [],
      dashboardHub = new_hub, p_sent = [],
      p_scheduler = fold (\<lambda>g. startScheduledTicks g SCHEDULED_TICK_INTERVAL_MS) (cfg_gates cfg) new_scheduler,
      p_subscribed = True, p_workers = True, p_errors = [], p_unhandled = []\<rparr>"

section \<open>Timers\<close>

text \<open>The tick of a scheduler timer; a rejected promise is not caught.\<close>

definition gate_tick :: "PipelineConfig \<Rightarrow> nat \<Rightarrow> PipelineState \<Rightarrow> PipelineState" where
  "gate_tick cfg handle s =
     (case map_of (running_timers (p_scheduler s)) handle of
        None \<Rightarrow> s
      | Some t \<Rightarrow>
          (case run_recompute cfg (bus_publish cfg) (timer_gate t) s of
             (None, s') \<Rightarrow> s'
           | (Some e, s') \<Rightarrow> s'\<lparr>p_unhandled := p_unhandled s' @ [e]\<rparr>))"

definition nudge_worker_tick :: "PipelineState \<Rightarrow> PipelineState" where
  "nudge_worker_tick s =
     (if p_workers s then s\<lparr>p_nudges := process_world (forecastsByGate s) (p_clock s) (p_nudges s)\<rparr> else s)"

definition check_gate_quality :: "PipelineConfig \<Rightarrow> Gate \<Rightarrow> PipelineState \<Rightarrow> PipelineState" where
  "check_gate_quality cfg gate s =
     (let (statuses, r1) = getStatus (gate_id gate) (p_clock s) (p_redis s);
          (allDegraded, r2) = allSourcesDegraded (gate_id gate) (p_clock s) r1;
          s1 = s\<lparr>p_redis := r2, dataQualitySource := setDegraded (gate_id gate) allDegraded (dataQualitySource s)\<rparr>
      in snd (raiseDataQualityAlertIfAllDegraded publishAlert (cfg_uuid cfg (p_draws s1)) (gate_id gate) statuses
           (p_clock s1) (draw s1)))"

text \<open>The gates are checked concurrently; the checks touch different entries, and their last steps,
  which may add an alert, come in the order of the gates.\<close>

definition data_quality_tick :: "PipelineConfig \<Rightarrow> PipelineState \<Rightarrow> PipelineState" where
  "data_quality_tick cfg s = (if p_workers s then fold (check_gate_quality cfg) (cfg_gates cfg) s else s)"

definition stop :: "PipelineConfig \<Rightarrow> PipelineState \<Rightarrow> PipelineState" where
  "stop cfg s = s\<lparr>p_workers := False,
     p_scheduler := fold (\<lambda>g. stopScheduledTicks (gate_id g)) (cfg_gates cfg) (p_scheduler s),
     p_subscribed := False\<rparr>"

end
