(* ===== verification/Cascade.thy ===== *)
theory Cascade
  imports Pipeline
begin

text \<open>
  What one publication on the bus does to the state of the pipeline. The effect of a message is
  given in closed form, level by level of the cascade, which shows that the cascade ends; frame
  lemmas say which fields each step leaves alone.
\<close>

section \<open>The levels of the cascade\<close>

definition settle :: "Topic \<Rightarrow> js_error option \<times> PipelineState \<Rightarrow> PipelineState" where
  "settle t r = (case fst r of None \<Rightarrow> snd r | Some e \<Rightarrow> console_error t e (snd r))"

lemma settle_simps [simp]: "settle t (None, s) = s" "settle t (Some e, s) = console_error t e s"
  by (simp_all add: settle_def)

lemma wrapped_settle: "wrapped console_error sub m s = settle (sub_topic sub) (sub_handler sub m s)"
  by (simp add: wrapped_def settle_def split: prod.splits option.splits)

lemma publish_subscribe:
  "publish console_error (snd (subscribe t h bus)) m s =
    (let s' = publish console_error bus m s in if t = topic_of m then settle t (h m s') else s')"
  by (simp add: publish_def subscribe_def wrapped_settle Let_def)

lemma publish_new: "publish console_error new_bus m s = s"
  by (simp add: publish_def new_bus_def)

lemma publish_wired:
  "publish console_error (wired_bus cfg pub) m s =
    fold (\<lambda>(t, h) s. if t = topic_of m then settle t (h m s) else s) (subscriptions cfg pub) s"
proof -
  have "publish console_error (fold (\<lambda>(t, h) bus. snd (subscribe t h bus)) subs bus) m s =
    fold (\<lambda>(t, h) s. if t = topic_of m then settle t (h m s) else s) subs (publish console_error bus m s)" for subs bus
    by (induction subs arbitrary: bus) (auto simp: publish_subscribe Let_def)
  then show ?thesis by (simp add: wired_bus_def publish_new)
qed

lemma pipe_publish_cases:
  "pipe_publish cfg (Suc n) (SignalEventMsg e) s = (if p_subscribed s
     then audit_message (AuditSignalEvent e)
       (settle SIGNAL_EVENTS (onSignalEvent cfg (pipe_publish cfg n) (SignalEventMsg e) s)) else s)"
  "pipe_publish cfg (Suc n) (CongestionScoreMsg m) s = (if p_subscribed s
     then settle CONGESTION_SCORES (auditScores (CongestionScoreMsg m)
       (settle CONGESTION_SCORES (onCongestionScores cfg (pipe_publish cfg n) (CongestionScoreMsg m) s))) else s)"
  "pipe_publish cfg (Suc n) (ValidationErrorMsg v) s =
     (if p_subscribed s then audit_message (AuditValidationError v) s else s)"
  "pipe_publish cfg (Suc n) (RecommendedActionsMsg a) s =
     (if p_subscribed s then fold (\<lambda>a. audit_message (AuditAction a)) (ram_actions a) s else s)"
  "pipe_publish cfg (Suc n) (ShuttleMsg r) s = (if p_subscribed s then audit_message (AuditShuttle r) s else s)"
  "pipe_publish cfg (Suc n) (FanNudgeMsg f) s = (if p_subscribed s then audit_message (AuditNudge f) s else s)"
  by (simp_all add: publish_wired publish_new subscriptions_def del: onSignalEvent.simps onCongestionScores.simps auditScores.simps)

text \<open>The messages that reach the audit log alone.\<close>

fun leaf_audits :: "BusMessage \<Rightarrow> AuditableMessage list" where
  "leaf_audits (ValidationErrorMsg v) = [AuditValidationError v]"
| "leaf_audits (RecommendedActionsMsg a) = map AuditAction (ram_actions a)"
| "leaf_audits (ShuttleMsg r) = [AuditShuttle r]"
| "leaf_audits (FanNudgeMsg f) = [AuditNudge f]"
| "leaf_audits _ = []"

definition is_leaf :: "BusMessage \<Rightarrow> bool" where
  "is_leaf m = (topic_of m \<notin> {SIGNAL_EVENTS, CONGESTION_SCORES})"

definition leaf_publish :: publisher where
  "leaf_publish m s = (if p_subscribed s then fold audit_message (leaf_audits m) s else s)"

lemma pipe_publish_leaf: "is_leaf m \<Longrightarrow> pipe_publish cfg (Suc n) m = leaf_publish m"
  by (rule ext, cases m) (simp_all add: is_leaf_def leaf_publish_def pipe_publish_cases fold_map comp_def del: pipe_publish.simps)

text \<open>A handler that publishes leaf messages only depends on what the bus does with those.\<close>

definition same_on :: "(BusMessage \<Rightarrow> bool) \<Rightarrow> publisher \<Rightarrow> publisher \<Rightarrow> bool" where
  "same_on P pub pub' = (\<forall>m. P m \<longrightarrow> pub m = pub' m)"

lemma onCongestionScores_cong:
  assumes "same_on is_leaf pub pub'"
  shows "onCongestionScores cfg pub m s = onCongestionScores cfg pub' m s"
proof -
  have eqs: "publishActions pub = publishActions pub'" "publish_redirection pub = publish_redirection pub'"
    "generate_nudges cfg pub = generate_nudges cfg pub'"
    using assms by (intro ext; simp add: publishActions_def publish_redirection_def generate_nudges_def same_on_def is_leaf_def)+
  show ?thesis
    by (cases m) (simp_all only: onCongestionScores.simps, simp only: update_actions_def eqs cong del: sum.case_cong_weak let_weak_cong)
qed

definition score_effect :: "PipelineConfig \<Rightarrow> CongestionScoreMessage \<Rightarrow> PipelineState \<Rightarrow> PipelineState" where
  "score_effect cfg m s = (if p_subscribed s
     then settle CONGESTION_SCORES (auditScores (CongestionScoreMsg m)
       (settle CONGESTION_SCORES (onCongestionScores cfg leaf_publish (CongestionScoreMsg m) s))) else s)"

lemma pipe_publish_score: "pipe_publish cfg (Suc (Suc n)) (CongestionScoreMsg m) = score_effect cfg m"
proof (rule ext)
  fix s
  have "same_on is_leaf (pipe_publish cfg (Suc n)) leaf_publish" by (simp add: same_on_def pipe_publish_leaf del: pipe_publish.simps)
  from onCongestionScores_cong [OF this]
  show "pipe_publish cfg (Suc (Suc n)) (CongestionScoreMsg m) s = score_effect cfg m s"
    by (simp only: pipe_publish_cases score_effect_def)
qed

definition score_publish :: "PipelineConfig \<Rightarrow> publisher" where
  "score_publish cfg m = (case m of CongestionScoreMsg c \<Rightarrow> score_effect cfg c | _ \<Rightarrow> leaf_publish m)"

lemma run_recompute_cong:
  assumes "same_on (\<lambda>m. topic_of m = CONGESTION_SCORES) pub pub'"
  shows "run_recompute cfg pub gate s = run_recompute cfg pub' gate s"
proof -
  have "publishForecast pub = publishForecast pub'"
    using assms by (intro ext) (simp add: publishForecast_def same_on_def Let_def split: option.splits)
  then show ?thesis by (simp add: run_recompute_def)
qed

lemma onSignalEvent_cong:
  assumes "same_on (\<lambda>m. topic_of m = CONGESTION_SCORES) pub pub'"
  shows "onSignalEvent cfg pub m s = onSignalEvent cfg pub' m s"
proof -
  have "run_recompute cfg pub = run_recompute cfg pub'" using run_recompute_cong [OF assms] by blast
  then show ?thesis by (cases m) (simp_all add: Let_def split: option.splits)
qed

lemma same_on_score: "same_on (\<lambda>m. topic_of m = CONGESTION_SCORES) (pipe_publish cfg (Suc (Suc n))) (score_publish cfg)"
proof -
  have "pipe_publish cfg (Suc (Suc n)) m = score_publish cfg m" if "topic_of m = CONGESTION_SCORES" for m
    using that pipe_publish_score by (cases m) (simp_all add: score_publish_def del: pipe_publish.simps)
  then show ?thesis by (simp add: same_on_def del: pipe_publish.simps)
qed

text \<open>C35. Every cascade ends: a message published on the bus causes messages of at most two further levels,
  a signal the score of its gate, and a score the actions, redirections and nudges that only the
  audit log receives. So publishing with any larger bound on the depth gives the same state as
  with the bound 3 the model uses.\<close>

theorem cascade_ends:
  "pipe_publish cfg (CASCADE_DEPTH + n) m s = bus_publish cfg m s"
proof -
  have "pipe_publish cfg (Suc (Suc (Suc k))) m s = pipe_publish cfg (Suc (Suc (Suc 0))) m s" for k
  proof (cases "is_leaf m")
    case True
    then show ?thesis by (simp only: pipe_publish_leaf)
  next
    case False
    then show ?thesis
      using onSignalEvent_cong [OF same_on_score [of cfg k]] onSignalEvent_cong [OF same_on_score [of cfg 0]]
      by (cases m) (simp_all add: is_leaf_def pipe_publish_score pipe_publish_cases(1) del: pipe_publish.simps onSignalEvent.simps)
  qed
  from this [of n] show ?thesis by (simp add: CASCADE_DEPTH_def bus_publish_def numeral_eq_Suc)
qed

lemma bus_publish_simps:
  "is_leaf m \<Longrightarrow> bus_publish cfg m = leaf_publish m"
  "bus_publish cfg (CongestionScoreMsg c) = score_effect cfg c"
  "bus_publish cfg (SignalEventMsg e) s = (if p_subscribed s
     then audit_message (AuditSignalEvent e)
       (settle SIGNAL_EVENTS (onSignalEvent cfg (score_publish cfg) (SignalEventMsg e) s)) else s)"
  using pipe_publish_leaf [of m cfg 2] pipe_publish_score [of cfg 1 c] onSignalEvent_cong [OF same_on_score [of cfg 0]]
    pipe_publish_cases(1) [of cfg "Suc (Suc 0)" e s]
  by (simp_all add: bus_publish_def CASCADE_DEPTH_def numeral_eq_Suc del: pipe_publish.simps onSignalEvent.simps)

lemma run_recompute_bus: "run_recompute cfg (bus_publish cfg) gate s = run_recompute cfg (score_publish cfg) gate s"
  by (rule run_recompute_cong) (auto simp: same_on_def bus_publish_simps score_publish_def split: BusMessage.splits)

section \<open>Frames\<close>

lemma audit_message_frame [simp]:
  "p_clock (audit_message m s) = p_clock s" "p_draws (audit_message m s) = p_draws s"
  "p_redis (audit_message m s) = p_redis s" "signalWindowByGate (audit_message m s) = signalWindowByGate s"
  "fansByGate (audit_message m s) = fansByGate s" "forecastsByGate (audit_message m s) = forecastsByGate s"
  "previousRiskLevelByGate (audit_message m s) = previousRiskLevelByGate s"
  "forecastStore (audit_message m s) = forecastStore s" "gateScoreSource (audit_message m s) = gateScoreSource s"
  "activeActionsStore (audit_message m s) = activeActionsStore s"
  "activeActionsSource (audit_message m s) = activeActionsSource s"
  "redirectionStore (audit_message m s) = redirectionStore s"
  "recentRejections (audit_message m s) = recentRejections s" "alertStore (audit_message m s) = alertStore s"
  "dataQualitySource (audit_message m s) = dataQualitySource s" "dashboardHub (audit_message m s) = dashboardHub s"
  "p_sent (audit_message m s) = p_sent s" "p_scheduler (audit_message m s) = p_scheduler s"
  "p_subscribed (audit_message m s) = p_subscribed s" "p_workers (audit_message m s) = p_workers s"
  "p_errors (audit_message m s) = p_errors s" "p_unhandled (audit_message m s) = p_unhandled s"
  "nw_queue (p_nudges (audit_message m s)) = nw_queue (p_nudges s)"
  "nw_query (p_nudges (audit_message m s)) = nw_query (p_nudges s)"
  by (simp_all add: audit_message_def)

lemma fold_frame: "(\<And>x s. f (g x s) = f s) \<Longrightarrow> f (fold g xs s) = f s"
  by (induction xs arbitrary: s) simp_all

lemma leaf_publish_frame [simp]:
  "p_clock (leaf_publish m s) = p_clock s" "p_draws (leaf_publish m s) = p_draws s"
  "p_redis (leaf_publish m s) = p_redis s" "signalWindowByGate (leaf_publish m s) = signalWindowByGate s"
  "fansByGate (leaf_publish m s) = fansByGate s" "forecastsByGate (leaf_publish m s) = forecastsByGate s"
  "previousRiskLevelByGate (leaf_publish m s) = previousRiskLevelByGate s"
  "forecastStore (leaf_publish m s) = forecastStore s" "gateScoreSource (leaf_publish m s) = gateScoreSource s"
  "activeActionsStore (leaf_publish m s) = activeActionsStore s"
  "activeActionsSource (leaf_publish m s) = activeActionsSource s"
  "redirectionStore (leaf_publish m s) = redirectionStore s"
  "recentRejections (leaf_publish m s) = recentRejections s" "alertStore (leaf_publish m s) = alertStore s"
  "dataQualitySource (leaf_publish m s) = dataQualitySource s" "dashboardHub (leaf_publish m s) = dashboardHub s"
  "p_sent (leaf_publish m s) = p_sent s" "p_scheduler (leaf_publish m s) = p_scheduler s"
  "p_subscribed (leaf_publish m s) = p_subscribed s" "p_workers (leaf_publish m s) = p_workers s"
  "p_errors (leaf_publish m s) = p_errors s" "p_unhandled (leaf_publish m s) = p_unhandled s"
  "nw_queue (p_nudges (leaf_publish m s)) = nw_queue (p_nudges s)"
  "nw_query (p_nudges (leaf_publish m s)) = nw_query (p_nudges s)"
  by (simp_all add: leaf_publish_def fold_frame [where g = audit_message] fold_frame [where g = audit_message and f = "\<lambda>s. nw_queue (p_nudges s)"]
      fold_frame [where g = audit_message and f = "\<lambda>s. nw_query (p_nudges s)"])

lemma pipe_broadcast_frame [simp]:
  "p_clock (pipe_broadcast e s) = p_clock s" "p_draws (pipe_broadcast e s) = p_draws s"
  "p_redis (pipe_broadcast e s) = p_redis s" "signalWindowByGate (pipe_broadcast e s) = signalWindowByGate s"
  "fansByGate (pipe_broadcast e s) = fansByGate s" "forecastsByGate (pipe_broadcast e s) = forecastsByGate s"
  "previousRiskLevelByGate (pipe_broadcast e s) = previousRiskLevelByGate s"
  "forecastStore (pipe_broadcast e s) = forecastStore s" "gateScoreSource (pipe_broadcast e s) = gateScoreSource s"
  "activeActionsStore (pipe_broadcast e s) = activeActionsStore s"
  "activeActionsSource (pipe_broadcast e s) = activeActionsSource s"
  "redirectionStore (pipe_broadcast e s) = redirectionStore s"
  "recentRejections (pipe_broadcast e s) = recentRejections s" "p_nudges (pipe_broadcast e s) = p_nudges s"
  "alertStore (pipe_broadcast e s) = alertStore s" "dataQualitySource (pipe_broadcast e s) = dataQualitySource s"
  "dashboardHub (pipe_broadcast e s) = dashboardHub s" "p_scheduler (pipe_broadcast e s) = p_scheduler s"
  "p_subscribed (pipe_broadcast e s) = p_subscribed s" "p_workers (pipe_broadcast e s) = p_workers s"
  "p_errors (pipe_broadcast e s) = p_errors s" "p_unhandled (pipe_broadcast e s) = p_unhandled s"
  by (simp_all add: pipe_broadcast_def)

lemma console_error_frame [simp]:
  "p_clock (console_error t e s) = p_clock s" "p_draws (console_error t e s) = p_draws s"
  "p_redis (console_error t e s) = p_redis s" "signalWindowByGate (console_error t e s) = signalWindowByGate s"
  "fansByGate (console_error t e s) = fansByGate s" "forecastsByGate (console_error t e s) = forecastsByGate s"
  "previousRiskLevelByGate (console_error t e s) = previousRiskLevelByGate s"
  "forecastStore (console_error t e s) = forecastStore s" "gateScoreSource (console_error t e s) = gateScoreSource s"
  "activeActionsStore (console_error t e s) = activeActionsStore s"
  "activeActionsSource (console_error t e s) = activeActionsSource s"
  "redirectionStore (console_error t e s) = redirectionStore s"
  "recentRejections (console_error t e s) = recentRejections s" "p_nudges (console_error t e s) = p_nudges s"
  "alertStore (console_error t e s) = alertStore s" "dataQualitySource (console_error t e s) = dataQualitySource s"
  "dashboardHub (console_error t e s) = dashboardHub s" "p_sent (console_error t e s) = p_sent s"
  "p_scheduler (console_error t e s) = p_scheduler s" "p_subscribed (console_error t e s) = p_subscribed s"
  "p_workers (console_error t e s) = p_workers s" "p_unhandled (console_error t e s) = p_unhandled s"
  by (simp_all add: console_error_def)

lemma draw_frame [simp]:
  "p_clock (draw s) = p_clock s" "p_redis (draw s) = p_redis s" "signalWindowByGate (draw s) = signalWindowByGate s"
  "fansByGate (draw s) = fansByGate s" "forecastsByGate (draw s) = forecastsByGate s"
  "previousRiskLevelByGate (draw s) = previousRiskLevelByGate s" "forecastStore (draw s) = forecastStore s"
  "gateScoreSource (draw s) = gateScoreSource s" "activeActionsStore (draw s) = activeActionsStore s"
  "activeActionsSource (draw s) = activeActionsSource s" "redirectionStore (draw s) = redirectionStore s"
  "recentRejections (draw s) = recentRejections s" "p_nudges (draw s) = p_nudges s"
  "alertStore (draw s) = alertStore s" "dataQualitySource (draw s) = dataQualitySource s"
  "dashboardHub (draw s) = dashboardHub s" "p_sent (draw s) = p_sent s" "p_scheduler (draw s) = p_scheduler s"
  "p_subscribed (draw s) = p_subscribed s" "p_workers (draw s) = p_workers s" "p_errors (draw s) = p_errors s"
  "p_unhandled (draw s) = p_unhandled s"
  by (simp_all add: draw_def)

lemma publishAlert_frame [simp]:
  "p_clock (publishAlert a s) = p_clock s" "p_draws (publishAlert a s) = p_draws s"
  "p_redis (publishAlert a s) = p_redis s" "signalWindowByGate (publishAlert a s) = signalWindowByGate s"
  "fansByGate (publishAlert a s) = fansByGate s" "forecastsByGate (publishAlert a s) = forecastsByGate s"
  "previousRiskLevelByGate (publishAlert a s) = previousRiskLevelByGate s"
  "forecastStore (publishAlert a s) = forecastStore s" "gateScoreSource (publishAlert a s) = gateScoreSource s"
  "activeActionsStore (publishAlert a s) = activeActionsStore s"
  "activeActionsSource (publishAlert a s) = activeActionsSource s"
  "redirectionStore (publishAlert a s) = redirectionStore s"
  "recentRejections (publishAlert a s) = recentRejections s" "p_nudges (publishAlert a s) = p_nudges s"
  "dataQualitySource (publishAlert a s) = dataQualitySource s" "dashboardHub (publishAlert a s) = dashboardHub s"
  "p_scheduler (publishAlert a s) = p_scheduler s" "p_subscribed (publishAlert a s) = p_subscribed s"
  "p_workers (publishAlert a s) = p_workers s" "p_errors (publishAlert a s) = p_errors s"
  "p_unhandled (publishAlert a s) = p_unhandled s"
  by (simp_all add: publishAlert_def)

lemma raiseRisk_frame [simp]:
  "p_clock (snd (raiseRiskLevelAlertIfTransitioned publishAlert u g a b t s)) = p_clock s"
  "p_draws (snd (raiseRiskLevelAlertIfTransitioned publishAlert u g a b t s)) = p_draws s"
  "p_redis (snd (raiseRiskLevelAlertIfTransitioned publishAlert u g a b t s)) = p_redis s"
  "signalWindowByGate (snd (raiseRiskLevelAlertIfTransitioned publishAlert u g a b t s)) = signalWindowByGate s"
  "fansByGate (snd (raiseRiskLevelAlertIfTransitioned publishAlert u g a b t s)) = fansByGate s"
  "forecastsByGate (snd (raiseRiskLevelAlertIfTransitioned publishAlert u g a b t s)) = forecastsByGate s"
  "previousRiskLevelByGate (snd (raiseRiskLevelAlertIfTransitioned publishAlert u g a b t s)) = previousRiskLevelByGate s"
  "forecastStore (snd (raiseRiskLevelAlertIfTransitioned publishAlert u g a b t s)) = forecastStore s"
  "gateScoreSource (snd (raiseRiskLevelAlertIfTransitioned publishAlert u g a b t s)) = gateScoreSource s"
  "activeActionsStore (snd (raiseRiskLevelAlertIfTransitioned publishAlert u g a b t s)) = activeActionsStore s"
  "activeActionsSource (snd (raiseRiskLevelAlertIfTransitioned publishAlert u g a b t s)) = activeActionsSource s"
  "redirectionStore (snd (raiseRiskLevelAlertIfTransitioned publishAlert u g a b t s)) = redirectionStore s"
  "recentRejections (snd (raiseRiskLevelAlertIfTransitioned publishAlert u g a b t s)) = recentRejections s"
  "p_nudges (snd (raiseRiskLevelAlertIfTransitioned publishAlert u g a b t s)) = p_nudges s"
  "dataQualitySource (snd (raiseRiskLevelAlertIfTransitioned publishAlert u g a b t s)) = dataQualitySource s"
  "dashboardHub (snd (raiseRiskLevelAlertIfTransitioned publishAlert u g a b t s)) = dashboardHub s"
  "p_scheduler (snd (raiseRiskLevelAlertIfTransitioned publishAlert u g a b t s)) = p_scheduler s"
  "p_subscribed (snd (raiseRiskLevelAlertIfTransitioned publishAlert u g a b t s)) = p_subscribed s"
  "p_workers (snd (raiseRiskLevelAlertIfTransitioned publishAlert u g a b t s)) = p_workers s"
  "p_errors (snd (raiseRiskLevelAlertIfTransitioned publishAlert u g a b t s)) = p_errors s"
  "p_unhandled (snd (raiseRiskLevelAlertIfTransitioned publishAlert u g a b t s)) = p_unhandled s"
  by (simp_all add: raiseRiskLevelAlertIfTransitioned_def Let_def split: option.splits)

lemma note_forecast_frame [simp]:
  "p_clock (note_forecast cfg gate result now s) = p_clock s"
  "p_redis (note_forecast cfg gate result now s) = p_redis s"
  "signalWindowByGate (note_forecast cfg gate result now s) = signalWindowByGate s"
  "fansByGate (note_forecast cfg gate result now s) = fansByGate s"
  "forecastStore (note_forecast cfg gate result now s) = forecastStore s"
  "gateScoreSource (note_forecast cfg gate result now s) = gateScoreSource s"
  "activeActionsStore (note_forecast cfg gate result now s) = activeActionsStore s"
  "activeActionsSource (note_forecast cfg gate result now s) = activeActionsSource s"
  "redirectionStore (note_forecast cfg gate result now s) = redirectionStore s"
  "recentRejections (note_forecast cfg gate result now s) = recentRejections s"
  "p_nudges (note_forecast cfg gate result now s) = p_nudges s"
  "dataQualitySource (note_forecast cfg gate result now s) = dataQualitySource s"
  "dashboardHub (note_forecast cfg gate result now s) = dashboardHub s"
  "p_scheduler (note_forecast cfg gate result now s) = p_scheduler s"
  "p_subscribed (note_forecast cfg gate result now s) = p_subscribed s"
  "p_workers (note_forecast cfg gate result now s) = p_workers s"
  "p_errors (note_forecast cfg gate result now s) = p_errors s"
  "p_unhandled (note_forecast cfg gate result now s) = p_unhandled s"
  by (simp_all add: note_forecast_def Let_def split: option.splits)

lemma update_actions_frame [simp]:
  "p_clock (snd (update_actions cfg leaf_publish gate result s)) = p_clock s"
  "p_draws (snd (update_actions cfg leaf_publish gate result s)) = p_draws s"
  "p_redis (snd (update_actions cfg leaf_publish gate result s)) = p_redis s"
  "signalWindowByGate (snd (update_actions cfg leaf_publish gate result s)) = signalWindowByGate s"
  "fansByGate (snd (update_actions cfg leaf_publish gate result s)) = fansByGate s"
  "forecastsByGate (snd (update_actions cfg leaf_publish gate result s)) = forecastsByGate s"
  "previousRiskLevelByGate (snd (update_actions cfg leaf_publish gate result s)) = previousRiskLevelByGate s"
  "forecastStore (snd (update_actions cfg leaf_publish gate result s)) = forecastStore s"
  "gateScoreSource (snd (update_actions cfg leaf_publish gate result s)) = gateScoreSource s"
  "redirectionStore (snd (update_actions cfg leaf_publish gate result s)) = redirectionStore s"
  "recentRejections (snd (update_actions cfg leaf_publish gate result s)) = recentRejections s"
  "alertStore (snd (update_actions cfg leaf_publish gate result s)) = alertStore s"
  "dataQualitySource (snd (update_actions cfg leaf_publish gate result s)) = dataQualitySource s"
  "dashboardHub (snd (update_actions cfg leaf_publish gate result s)) = dashboardHub s"
  "p_sent (snd (update_actions cfg leaf_publish gate result s)) = p_sent s"
  "p_scheduler (snd (update_actions cfg leaf_publish gate result s)) = p_scheduler s"
  "p_subscribed (snd (update_actions cfg leaf_publish gate result s)) = p_subscribed s"
  "p_workers (snd (update_actions cfg leaf_publish gate result s)) = p_workers s"
  "p_errors (snd (update_actions cfg leaf_publish gate result s)) = p_errors s"
  "p_unhandled (snd (update_actions cfg leaf_publish gate result s)) = p_unhandled s"
  "nw_queue (p_nudges (snd (update_actions cfg leaf_publish gate result s))) = nw_queue (p_nudges s)"
  "nw_query (p_nudges (snd (update_actions cfg leaf_publish gate result s))) = nw_query (p_nudges s)"
  by (simp_all add: update_actions_def onScoreUpdate_def publishActions_def Let_def split: sum.splits)

lemma publish_redirection_frame [simp]:
  "p_clock (publish_redirection leaf_publish r s) = p_clock s"
  "p_draws (publish_redirection leaf_publish r s) = p_draws s"
  "p_redis (publish_redirection leaf_publish r s) = p_redis s"
  "signalWindowByGate (publish_redirection leaf_publish r s) = signalWindowByGate s"
  "fansByGate (publish_redirection leaf_publish r s) = fansByGate s"
  "forecastsByGate (publish_redirection leaf_publish r s) = forecastsByGate s"
  "previousRiskLevelByGate (publish_redirection leaf_publish r s) = previousRiskLevelByGate s"
  "forecastStore (publish_redirection leaf_publish r s) = forecastStore s"
  "gateScoreSource (publish_redirection leaf_publish r s) = gateScoreSource s"
  "activeActionsStore (publish_redirection leaf_publish r s) = activeActionsStore s"
  "activeActionsSource (publish_redirection leaf_publish r s) = activeActionsSource s"
  "recentRejections (publish_redirection leaf_publish r s) = recentRejections s"
  "alertStore (publish_redirection leaf_publish r s) = alertStore s"
  "dataQualitySource (publish_redirection leaf_publish r s) = dataQualitySource s"
  "dashboardHub (publish_redirection leaf_publish r s) = dashboardHub s"
  "p_scheduler (publish_redirection leaf_publish r s) = p_scheduler s"
  "p_subscribed (publish_redirection leaf_publish r s) = p_subscribed s"
  "p_workers (publish_redirection leaf_publish r s) = p_workers s"
  "p_errors (publish_redirection leaf_publish r s) = p_errors s"
  "p_unhandled (publish_redirection leaf_publish r s) = p_unhandled s"
  "nw_queue (p_nudges (publish_redirection leaf_publish r s)) = nw_queue (p_nudges s)"
  "nw_query (p_nudges (publish_redirection leaf_publish r s)) = nw_query (p_nudges s)"
  by (simp_all add: publish_redirection_def Let_def)

lemma publish_redirections_frame [simp]:
  "p_clock (fold (publish_redirection leaf_publish) rs s) = p_clock s"
  "p_draws (fold (publish_redirection leaf_publish) rs s) = p_draws s"
  "p_redis (fold (publish_redirection leaf_publish) rs s) = p_redis s"
  "signalWindowByGate (fold (publish_redirection leaf_publish) rs s) = signalWindowByGate s"
  "fansByGate (fold (publish_redirection leaf_publish) rs s) = fansByGate s"
  "forecastsByGate (fold (publish_redirection leaf_publish) rs s) = forecastsByGate s"
  "previousRiskLevelByGate (fold (publish_redirection leaf_publish) rs s) = previousRiskLevelByGate s"
  "forecastStore (fold (publish_redirection leaf_publish) rs s) = forecastStore s"
  "gateScoreSource (fold (publish_redirection leaf_publish) rs s) = gateScoreSource s"
  "activeActionsStore (fold (publish_redirection leaf_publish) rs s) = activeActionsStore s"
  "activeActionsSource (fold (publish_redirection leaf_publish) rs s) = activeActionsSource s"
  "recentRejections (fold (publish_redirection leaf_publish) rs s) = recentRejections s"
  "alertStore (fold (publish_redirection leaf_publish) rs s) = alertStore s"
  "dataQualitySource (fold (publish_redirection leaf_publish) rs s) = dataQualitySource s"
  "dashboardHub (fold (publish_redirection leaf_publish) rs s) = dashboardHub s"
  "p_scheduler (fold (publish_redirection leaf_publish) rs s) = p_scheduler s"
  "p_subscribed (fold (publish_redirection leaf_publish) rs s) = p_subscribed s"
  "p_workers (fold (publish_redirection leaf_publish) rs s) = p_workers s"
  "p_errors (fold (publish_redirection leaf_publish) rs s) = p_errors s"
  "p_unhandled (fold (publish_redirection leaf_publish) rs s) = p_unhandled s"
  "nw_queue (p_nudges (fold (publish_redirection leaf_publish) rs s)) = nw_queue (p_nudges s)"
  "nw_query (p_nudges (fold (publish_redirection leaf_publish) rs s)) = nw_query (p_nudges s)"
  by (simp_all add: fold_frame [where g = "publish_redirection leaf_publish"] fold_frame [where g = "publish_redirection leaf_publish" and f = "\<lambda>s. nw_queue (p_nudges s)"]
      fold_frame [where g = "publish_redirection leaf_publish" and f = "\<lambda>s. nw_query (p_nudges s)"])

lemma publish_nudges_frame [simp]:
  "p_clock (fold (\<lambda>n. leaf_publish (FanNudgeMsg n)) ns s) = p_clock s"
  "p_draws (fold (\<lambda>n. leaf_publish (FanNudgeMsg n)) ns s) = p_draws s"
  "p_redis (fold (\<lambda>n. leaf_publish (FanNudgeMsg n)) ns s) = p_redis s"
  "signalWindowByGate (fold (\<lambda>n. leaf_publish (FanNudgeMsg n)) ns s) = signalWindowByGate s"
  "fansByGate (fold (\<lambda>n. leaf_publish (FanNudgeMsg n)) ns s) = fansByGate s"
  "forecastsByGate (fold (\<lambda>n. leaf_publish (FanNudgeMsg n)) ns s) = forecastsByGate s"
  "previousRiskLevelByGate (fold (\<lambda>n. leaf_publish (FanNudgeMsg n)) ns s) = previousRiskLevelByGate s"
  "forecastStore (fold (\<lambda>n. leaf_publish (FanNudgeMsg n)) ns s) = forecastStore s"
  "gateScoreSource (fold (\<lambda>n. leaf_publish (FanNudgeMsg n)) ns s) = gateScoreSource s"
  "activeActionsStore (fold (\<lambda>n. leaf_publish (FanNudgeMsg n)) ns s) = activeActionsStore s"
  "activeActionsSource (fold (\<lambda>n. leaf_publish (FanNudgeMsg n)) ns s) = activeActionsSource s"
  "redirectionStore (fold (\<lambda>n. leaf_publish (FanNudgeMsg n)) ns s) = redirectionStore s"
  "recentRejections (fold (\<lambda>n. leaf_publish (FanNudgeMsg n)) ns s) = recentRejections s"
  "alertStore (fold (\<lambda>n. leaf_publish (FanNudgeMsg n)) ns s) = alertStore s"
  "dataQualitySource (fold (\<lambda>n. leaf_publish (FanNudgeMsg n)) ns s) = dataQualitySource s"
  "dashboardHub (fold (\<lambda>n. leaf_publish (FanNudgeMsg n)) ns s) = dashboardHub s"
  "p_sent (fold (\<lambda>n. leaf_publish (FanNudgeMsg n)) ns s) = p_sent s"
  "p_scheduler (fold (\<lambda>n. leaf_publish (FanNudgeMsg n)) ns s) = p_scheduler s"
  "p_subscribed (fold (\<lambda>n. leaf_publish (FanNudgeMsg n)) ns s) = p_subscribed s"
  "p_workers (fold (\<lambda>n. leaf_publish (FanNudgeMsg n)) ns s) = p_workers s"
  "p_errors (fold (\<lambda>n. leaf_publish (FanNudgeMsg n)) ns s) = p_errors s"
  "p_unhandled (fold (\<lambda>n. leaf_publish (FanNudgeMsg n)) ns s) = p_unhandled s"
  "nw_queue (p_nudges (fold (\<lambda>n. leaf_publish (FanNudgeMsg n)) ns s)) = nw_queue (p_nudges s)"
  "nw_query (p_nudges (fold (\<lambda>n. leaf_publish (FanNudgeMsg n)) ns s)) = nw_query (p_nudges s)"
  by (simp_all add: fold_frame [where g = "\<lambda>n. leaf_publish (FanNudgeMsg n)"] fold_frame [where g = "\<lambda>n. leaf_publish (FanNudgeMsg n)" and f = "\<lambda>s. nw_queue (p_nudges s)"]
      fold_frame [where g = "\<lambda>n. leaf_publish (FanNudgeMsg n)" and f = "\<lambda>s. nw_query (p_nudges s)"])

lemma generate_nudges_frame [simp]:
  "p_clock (generate_nudges cfg leaf_publish gate now s) = p_clock s"
  "p_draws (generate_nudges cfg leaf_publish gate now s) = p_draws s"
  "signalWindowByGate (generate_nudges cfg leaf_publish gate now s) = signalWindowByGate s"
  "fansByGate (generate_nudges cfg leaf_publish gate now s) = fansByGate s"
  "forecastsByGate (generate_nudges cfg leaf_publish gate now s) = forecastsByGate s"
  "previousRiskLevelByGate (generate_nudges cfg leaf_publish gate now s) = previousRiskLevelByGate s"
  "forecastStore (generate_nudges cfg leaf_publish gate now s) = forecastStore s"
  "gateScoreSource (generate_nudges cfg leaf_publish gate now s) = gateScoreSource s"
  "activeActionsStore (generate_nudges cfg leaf_publish gate now s) = activeActionsStore s"
  "activeActionsSource (generate_nudges cfg leaf_publish gate now s) = activeActionsSource s"
  "redirectionStore (generate_nudges cfg leaf_publish gate now s) = redirectionStore s"
  "recentRejections (generate_nudges cfg leaf_publish gate now s) = recentRejections s"
  "alertStore (generate_nudges cfg leaf_publish gate now s) = alertStore s"
  "dataQualitySource (generate_nudges cfg leaf_publish gate now s) = dataQualitySource s"
  "dashboardHub (generate_nudges cfg leaf_publish gate now s) = dashboardHub s"
  "p_sent (generate_nudges cfg leaf_publish gate now s) = p_sent s"
  "p_scheduler (generate_nudges cfg leaf_publish gate now s) = p_scheduler s"
  "p_subscribed (generate_nudges cfg leaf_publish gate now s) = p_subscribed s"
  "p_workers (generate_nudges cfg leaf_publish gate now s) = p_workers s"
  "p_errors (generate_nudges cfg leaf_publish gate now s) = p_errors s"
  "p_unhandled (generate_nudges cfg leaf_publish gate now s) = p_unhandled s"
  "nw_query (p_nudges (generate_nudges cfg leaf_publish gate now s)) = nw_query (p_nudges s)"
  by (simp_all add: generate_nudges_def Let_def split: prod.splits)

lemma auditScores_frame [simp]:
  "p_clock (snd (auditScores m s)) = p_clock s" "p_draws (snd (auditScores m s)) = p_draws s"
  "p_redis (snd (auditScores m s)) = p_redis s" "signalWindowByGate (snd (auditScores m s)) = signalWindowByGate s"
  "fansByGate (snd (auditScores m s)) = fansByGate s" "forecastsByGate (snd (auditScores m s)) = forecastsByGate s"
  "previousRiskLevelByGate (snd (auditScores m s)) = previousRiskLevelByGate s"
  "forecastStore (snd (auditScores m s)) = forecastStore s"
  "gateScoreSource (snd (auditScores m s)) = gateScoreSource s"
  "activeActionsStore (snd (auditScores m s)) = activeActionsStore s"
  "activeActionsSource (snd (auditScores m s)) = activeActionsSource s"
  "redirectionStore (snd (auditScores m s)) = redirectionStore s"
  "recentRejections (snd (auditScores m s)) = recentRejections s" "alertStore (snd (auditScores m s)) = alertStore s"
  "dataQualitySource (snd (auditScores m s)) = dataQualitySource s"
  "dashboardHub (snd (auditScores m s)) = dashboardHub s" "p_sent (snd (auditScores m s)) = p_sent s"
  "p_scheduler (snd (auditScores m s)) = p_scheduler s" "p_subscribed (snd (auditScores m s)) = p_subscribed s"
  "p_workers (snd (auditScores m s)) = p_workers s" "p_errors (snd (auditScores m s)) = p_errors s"
  "p_unhandled (snd (auditScores m s)) = p_unhandled s"
  "nw_queue (p_nudges (snd (auditScores m s))) = nw_queue (p_nudges s)"
  "nw_query (p_nudges (snd (auditScores m s))) = nw_query (p_nudges s)"
  by (cases m; simp split: option.splits)+

end
