(* ===== verification/Server.thy ===== *)
theory Server
  imports Cascade IngestService Auth KafkaTopics
begin

text \<open>
  \<open>src/server.ts\<close>: the routes of the HTTP server with their roles, the stream endpoint, the timers and
  the shutdown, around the state of the pipeline. A request is an endpoint with its decoded
  parameters and body; the framework's routing, JSON decoding and logging are not modelled, and a
  body has the documented shape.
\<close>

section \<open>Configuration\<close>

record ServerConfig =
  sc_pipeline :: PipelineConfig
  sc_apiKeys :: key_map
  sc_safeParse :: safe_parse
  sc_allowedOrigins :: "string list"
  sc_parseUrl :: "string \<Rightarrow> (string \<times> string option) option"

text \<open>\<open>ALLOWED_ORIGINS\<close>; the set keeps the first of equal origins.\<close>

definition parse_origins :: "string option \<Rightarrow> string list" where
  "parse_origins env = fold (\<lambda>origin origins. if origin \<in> set origins then origins else origins @ [origin])
     (filter (\<lambda>origin. origin \<noteq> []) (map trim (split_on CHR '','' (coalesce env '''')))) []"

text \<open>The value of \<open>Access-Control-Allow-Origin\<close>, if the header is set.\<close>

definition cors_origin :: "string list \<Rightarrow> string option \<Rightarrow> string option" where
  "cors_origin allowedOrigins origin =
     (if truthy_str origin \<and> the origin \<in> set allowedOrigins then origin else None)"

section \<open>Endpoints\<close>

text \<open>The query parameters of a request; an empty one is dropped.\<close>

record query_params =
  q_gateId :: "string option"
  q_fanId :: "string option"
  q_from :: "string option"
  q_to :: "string option"

definition query_value :: "string option \<Rightarrow> string option" where
  "query_value v = (if truthy_str v then v else None)"

datatype endpoint =
    Preflight
  | Healthz
  | PostSignal json
  | GetSourceStatus string
  | GetForecast GateId
  | GetActions GateId
  | PostExecute GateId string string
  | GetRedirections RouteId
  | PostAccept RouteId string string
  | PostReject RouteId string string
  | GetNudges query_params
  | GetDashboard
  | PostAcknowledge string string
  | GetAuditScores query_params
  | GetAuditActions query_params
  | GetAuditNudges query_params

text \<open>The arguments of \<open>requireRole\<close>; \<open>None\<close> for the routes without it.\<close>

fun allowed_roles :: "endpoint \<Rightarrow> Role list option" where
  "allowed_roles Preflight = None"
| "allowed_roles Healthz = None"
| "allowed_roles (PostSignal body) = Some [INGESTION_SOURCE]"
| "allowed_roles (GetSourceStatus i) = Some [VENUE_OPS_MANAGER, GATE_STAFF, TRANSIT_DISPATCHER, AUDITOR]"
| "allowed_roles (GetForecast g) = Some [VENUE_OPS_MANAGER, GATE_STAFF, TRANSIT_DISPATCHER, AUDITOR]"
| "allowed_roles (GetActions g) = Some [VENUE_OPS_MANAGER, GATE_STAFF, AUDITOR]"
| "allowed_roles (PostExecute g a u) = Some [VENUE_OPS_MANAGER, GATE_STAFF]"
| "allowed_roles (GetRedirections r) = Some [TRANSIT_DISPATCHER, AUDITOR]"
| "allowed_roles (PostAccept r i d) = Some [TRANSIT_DISPATCHER]"
| "allowed_roles (PostReject r i d) = Some [TRANSIT_DISPATCHER]"
| "allowed_roles (GetNudges f) = Some [VENUE_OPS_MANAGER, AUDITOR]"
| "allowed_roles GetDashboard = Some [VENUE_OPS_MANAGER, GATE_STAFF, TRANSIT_DISPATCHER, AUDITOR]"
| "allowed_roles (PostAcknowledge i u) = Some [VENUE_OPS_MANAGER, TRANSIT_DISPATCHER]"
| "allowed_roles (GetAuditScores rg) = Some [VENUE_OPS_MANAGER, AUDITOR]"
| "allowed_roles (GetAuditActions rg) = Some [VENUE_OPS_MANAGER, AUDITOR]"
| "allowed_roles (GetAuditNudges rg) = Some [VENUE_OPS_MANAGER, AUDITOR]"

datatype response_body =
    NoBody
  | StatusOk
  | ErrorBody string
  | SignalAccepted string
  | SignalRejected ValidationError
  | StatusesBody "SourceStatus list"
  | ForecastBody GateForecastResponse
  | ActionsBody "RecommendedAction list"
  | ActionBody RecommendedAction
  | RedirectionsBody "ShuttleRedirectionRecommendation list"
  | RedirectionBody ShuttleRedirectionRecommendation
  | NudgesBody "FanNudge list"
  | SnapshotsBody "GateSnapshot list"
  | AlertBody Alert
  | ScoresBody "ScoreAuditRecord list"

type_synonym response = "nat \<times> response_body"

text \<open>\<open>if (result) 200 else 404\<close>.\<close>

definition found_or_404 :: "('a \<Rightarrow> response_body) \<Rightarrow> string \<Rightarrow> 'a option \<Rightarrow> response" where
  "found_or_404 body message result =
     (case result of Some r \<Rightarrow> (200, body r) | None \<Rightarrow> (404, ErrorBody message))"

section \<open>Handlers\<close>

text \<open>\<open>InMemoryEventPublisher\<close>.\<close>

definition publishSignalEvent :: "PipelineConfig \<Rightarrow> SignalEvent \<Rightarrow> PipelineState \<Rightarrow> PipelineState" where
  "publishSignalEvent cfg event s = bus_publish cfg (SignalEventMsg event) s"

definition publishValidationError :: "PipelineConfig \<Rightarrow> ValidationError \<Rightarrow> PipelineState \<Rightarrow> PipelineState" where
  "publishValidationError cfg err s =
     (let record = \<lparr>errorId = cfg_uuid cfg (p_draws s), err_source = ve_source err, err_reason = ve_reason err,
            err_offendingField = ve_offendingField err, err_rawPayload = ve_rawPayload err,
            recordedAt = toISOString (p_clock s)\<rparr>
      in bus_publish cfg (ValidationErrorMsg record) (draw s))"

definition mark_source :: "SignalSource \<Rightarrow> string \<Rightarrow> int \<Rightarrow> PipelineState \<Rightarrow> PipelineState" where
  "mark_source src i now s = s\<lparr>p_redis := markActive src i now (p_redis s)\<rparr>"

definition post_signal :: "ServerConfig \<Rightarrow> json \<Rightarrow> PipelineState \<Rightarrow> response \<times> PipelineState" where
  "post_signal sc body s =
     (let cfg = sc_pipeline sc in
      case handleSignal (publishSignalEvent cfg) (publishValidationError cfg) mark_source (sc_safeParse sc)
          DEFAULT_TIMING_CONFIG (cfg_uuid cfg (p_draws s)) body (p_clock s) (p_clock s) (draw s) of
        (Accepted202 i, s') \<Rightarrow> ((202, SignalAccepted i), s')
      | (Rejected400 err, s') \<Rightarrow> ((400, SignalRejected err), s'))"

definition get_source_status :: "string \<Rightarrow> PipelineState \<Rightarrow> response \<times> PipelineState" where
  "get_source_status i s =
     (let (statuses, redis) = getStatus i (p_clock s) (p_redis s)
      in ((200, StatusesBody statuses), s\<lparr>p_redis := redis\<rparr>))"

definition get_forecast :: "GateId \<Rightarrow> PipelineState \<Rightarrow> response \<times> PipelineState" where
  "get_forecast g s =
     (found_or_404 ForecastBody ''Forecast not found'' (getForecast (\<lambda>g. getLatestForecast g (forecastStore s)) g), s)"

definition get_actions :: "GateId \<Rightarrow> PipelineState \<Rightarrow> response \<times> PipelineState" where
  "get_actions g s = ((200, ActionsBody (getActions getActiveActions g (activeActionsStore s))), s)"

definition post_execute :: "GateId \<Rightarrow> string \<Rightarrow> string \<Rightarrow> PipelineState \<Rightarrow> response \<times> PipelineState" where
  "post_execute g i userId s =
     (let (result, actions) = executeAction getActiveActions setActiveActions g i userId (p_clock s) (activeActionsStore s)
      in (found_or_404 ActionBody ''Action not found'' result, s\<lparr>activeActionsStore := actions\<rparr>))"

definition get_redirections :: "RouteId \<Rightarrow> PipelineState \<Rightarrow> response \<times> PipelineState" where
  "get_redirections r s = ((200, RedirectionsBody (getRedirections r (redirectionStore s))), s)"

definition post_accept :: "RouteId \<Rightarrow> string \<Rightarrow> string \<Rightarrow> PipelineState \<Rightarrow> response \<times> PipelineState" where
  "post_accept r i dispatcherId s =
     (let (result, store) = acceptRedirection r i dispatcherId (p_clock s) (redirectionStore s)
      in (found_or_404 RedirectionBody ''Redirection not found'' result, s\<lparr>redirectionStore := store\<rparr>))"

definition post_reject :: "RouteId \<Rightarrow> string \<Rightarrow> string \<Rightarrow> PipelineState \<Rightarrow> response \<times> PipelineState" where
  "post_reject r i dispatcherId s =
     (let (result, store, redis) = rejectRedirection r i dispatcherId (p_clock s) (p_clock s) (redirectionStore s, p_redis s);
          s1 = s\<lparr>redirectionStore := store, p_redis := redis\<rparr>;
          s2 = (case result of
                  Some rec \<Rightarrow> s1\<lparr>recentRejections := recentRejections s1 @
                     [\<lparr>rej_routeId = redir_routeId rec, rej_alternativeGateId = redir_alternativeGateId rec,
                       rej_rejectedAt = coalesce (rejectedAt rec) (toISOString (p_clock s1))\<rparr>]\<rparr>
                | None \<Rightarrow> s1)
      in (found_or_404 RedirectionBody ''Redirection not found'' result, s2))"

definition get_nudges :: "query_params \<Rightarrow> PipelineState \<Rightarrow> response \<times> PipelineState" where
  "get_nudges q s =
     (let filter = \<lparr>nf_gateId = query_value (q_gateId q), nf_fanId = query_value (q_fanId q)\<rparr>
      in ((200, NudgesBody (getNudges filter (nw_query (p_nudges s)))), s))"

definition dashboard_snapshot :: "GateId list \<Rightarrow> PipelineState \<Rightarrow> GateSnapshot list" where
  "dashboard_snapshot gates s =
     getSnapshot (\<lambda>g s. getCurrentScore g (gateScoreSource s)) (\<lambda>g s. sourceActions g (activeActionsSource s))
       (\<lambda>g s. hasDegradedSource g (dataQualitySource s)) gates s"

definition post_acknowledge :: "string \<Rightarrow> string \<Rightarrow> PipelineState \<Rightarrow> response \<times> PipelineState" where
  "post_acknowledge i userId s =
     (let (result, alerts) = acknowledgeAlert getAlert updateAlert i userId (p_clock s) (alertStore s)
      in (found_or_404 AlertBody ''Alert not found'' result, s\<lparr>alertStore := alerts\<rparr>))"

definition get_audit_scores :: "query_params \<Rightarrow> PipelineState \<Rightarrow> response \<times> PipelineState" where
  "get_audit_scores q s =
     (let range = \<lparr>range_from = query_value (q_from q), range_to = query_value (q_to q),
            range_gateId = query_value (q_gateId q), range_fanId = None\<rparr>
      in ((200, ScoresBody (getScores queryScores range (nw_audit (p_nudges s)))), s))"

definition get_audit_actions :: "query_params \<Rightarrow> PipelineState \<Rightarrow> response \<times> PipelineState" where
  "get_audit_actions q s =
     (let range = \<lparr>range_from = query_value (q_from q), range_to = query_value (q_to q),
            range_gateId = query_value (q_gateId q), range_fanId = None\<rparr>
      in ((200, ActionsBody (getAuditActions queryActions range (nw_audit (p_nudges s)))), s))"

definition get_audit_nudges :: "query_params \<Rightarrow> PipelineState \<Rightarrow> response \<times> PipelineState" where
  "get_audit_nudges q s =
     (let range = \<lparr>range_from = query_value (q_from q), range_to = query_value (q_to q),
            range_gateId = query_value (q_gateId q), range_fanId = query_value (q_fanId q)\<rparr>
      in ((200, NudgesBody (getAuditNudges queryNudgeAudit range (nw_audit (p_nudges s)))), s))"

lemmas get_handler_defs = get_forecast_def get_actions_def get_redirections_def get_nudges_def get_audit_scores_def
  get_audit_actions_def get_audit_nudges_def

fun route_handler :: "ServerConfig \<Rightarrow> endpoint \<Rightarrow> PipelineState \<Rightarrow> response \<times> PipelineState" where
  "route_handler sc Preflight s = ((200, NoBody), s)"
| "route_handler sc Healthz s = ((200, StatusOk), s)"
| "route_handler sc (PostSignal body) s = post_signal sc body s"
| "route_handler sc (GetSourceStatus i) s = get_source_status i s"
| "route_handler sc (GetForecast g) s = get_forecast g s"
| "route_handler sc (GetActions g) s = get_actions g s"
| "route_handler sc (PostExecute g i u) s = post_execute g i u s"
| "route_handler sc (GetRedirections r) s = get_redirections r s"
| "route_handler sc (PostAccept r i d) s = post_accept r i d s"
| "route_handler sc (PostReject r i d) s = post_reject r i d s"
| "route_handler sc (GetNudges f) s = get_nudges f s"
| "route_handler sc GetDashboard s = ((200, SnapshotsBody (dashboard_snapshot (map gate_id (cfg_gates (sc_pipeline sc))) s)), s)"
| "route_handler sc (PostAcknowledge i u) s = post_acknowledge i u s"
| "route_handler sc (GetAuditScores rg) s = get_audit_scores rg s"
| "route_handler sc (GetAuditActions rg) s = get_audit_actions rg s"
| "route_handler sc (GetAuditNudges rg) s = get_audit_nudges rg s"

text \<open>A request with its credentials; a preflight request is answered before the routes.\<close>

definition handle_request :: "ServerConfig \<Rightarrow> http_request \<Rightarrow> endpoint \<Rightarrow> PipelineState \<Rightarrow> response \<times> PipelineState" where
  "handle_request sc req ep s =
     (case allowed_roles ep of
        None \<Rightarrow> route_handler sc ep s
      | Some roles \<Rightarrow>
          (case requireRole (sc_apiKeys sc) roles req of
             Unauthorized401 \<Rightarrow> ((401, ErrorBody ''Unauthorized''), s)
           | Forbidden403 \<Rightarrow> ((403, ErrorBody ''Forbidden''), s)
           | Proceed role key \<Rightarrow> route_handler sc ep s))"

section \<open>The stream endpoint\<close>

definition DASHBOARD_STREAM_ROLES :: "Role list" where
  "DASHBOARD_STREAM_ROLES = [VENUE_OPS_MANAGER, GATE_STAFF, TRANSIT_DISPATCHER, AUDITOR]"

text \<open>The handler of an upgrade request. \<open>new URL\<close> on the target of the request is a parameter: the path and the query
  parameter \<open>apiKey\<close>, or nothing when it throws. The handler has no \<open>try\<close>, so then the exception is uncaught.\<close>

datatype upgrade_result = UpgradeThrown | SocketDestroyed | Upgrade401 | Upgraded

definition upgrade :: "(string \<Rightarrow> (string \<times> string option) option) \<Rightarrow> key_map \<Rightarrow> string \<Rightarrow> upgrade_result" where
  "upgrade parseUrl apiKeys target =
     (case parseUrl target of
        None \<Rightarrow> UpgradeThrown
      | Some (pathname, apiKey) \<Rightarrow>
          if pathname \<noteq> ''/v1/dashboard/stream'' then SocketDestroyed
          else
            (let roles = verifyApiKey apiKeys apiKey;
                 isAuthorized = (case roles of None \<Rightarrow> False | Some rs \<Rightarrow> list_ex (\<lambda>role. role \<in> set DASHBOARD_STREAM_ROLES) rs)
             in if \<not> isAuthorized then Upgrade401 else Upgraded))"

definition close_stream :: "nat \<Rightarrow> PipelineState \<Rightarrow> PipelineState" where
  "close_stream connection s = s\<lparr>dashboardHub := unregister connection (dashboardHub s)\<rparr>"

text \<open>The hub is created with \<open>() => []\<close>.\<close>

definition hub_tick :: "PipelineState \<Rightarrow> PipelineState" where
  "hub_tick s = s\<lparr>p_sent := heartbeat_tick (\<lambda>sent. []) send_logged (dashboardHub s) (p_sent s)\<rparr>"

section \<open>The life of the server\<close>

definition startup :: "ServerConfig \<Rightarrow> int \<Rightarrow> PipelineState" where
  "startup sc now =
     (let s = initial (sc_pipeline sc) now
      in s\<lparr>dashboardHub := startHeartbeat 30000 (dashboardHub s)\<rparr>)"

definition shutdownServer :: "ServerConfig \<Rightarrow> PipelineState \<Rightarrow> PipelineState" where
  "shutdownServer sc s =
     (let s1 = stop (sc_pipeline sc) s in s1\<lparr>dashboardHub := stopHeartbeat (dashboardHub s1)\<rparr>)"

text \<open>An upgrade request: the handler of \<open>uncaughtException\<close> shuts the server down.\<close>

definition open_stream :: "ServerConfig \<Rightarrow> nat \<Rightarrow> string \<Rightarrow> PipelineState \<Rightarrow> PipelineState" where
  "open_stream sc connection target s =
     (case upgrade (sc_parseUrl sc) (sc_apiKeys sc) target of
        UpgradeThrown \<Rightarrow> shutdownServer sc s
      | Upgraded \<Rightarrow> s\<lparr>dashboardHub := register connection (dashboardHub s)\<rparr>
      | _ \<Rightarrow> s)"

text \<open>Everything that can happen: time passes, a timer fires, a client sends a request, opens or closes a
  stream, or the process is told to stop. An unhandled rejection and an uncaught exception shut the server down.\<close>

datatype server_op =
    Elapse nat
  | GateTick nat
  | NudgeWorkerTick
  | DataQualityTick
  | HeartbeatTick
  | Request http_request endpoint
  | OpenStream nat string
  | CloseStream nat
  | Shutdown

fun server_step :: "ServerConfig \<Rightarrow> server_op \<Rightarrow> PipelineState \<Rightarrow> response option \<times> PipelineState" where
  "server_step sc (Elapse ms) s = (None, s\<lparr>p_clock := p_clock s + int ms\<rparr>)"
| "server_step sc (GateTick h) s =
     (let s' = gate_tick (sc_pipeline sc) h s
      in (None, if length (p_unhandled s) < length (p_unhandled s') then shutdownServer sc s' else s'))"
| "server_step sc NudgeWorkerTick s = (None, nudge_worker_tick s)"
| "server_step sc DataQualityTick s = (None, data_quality_tick (sc_pipeline sc) s)"
| "server_step sc HeartbeatTick s = (None, hub_tick s)"
| "server_step sc (Request req ep) s = (let (r, s') = handle_request sc req ep s in (Some r, s'))"
| "server_step sc (OpenStream c target) s = (None, open_stream sc c target s)"
| "server_step sc (CloseStream c) s = (None, close_stream c s)"
| "server_step sc Shutdown s = (None, shutdownServer sc s)"

text \<open>What ends the service: a signal, and an upgrade request whose target \<open>new URL\<close> does not accept.\<close>

fun stops :: "ServerConfig \<Rightarrow> server_op \<Rightarrow> bool" where
  "stops sc Shutdown = True"
| "stops sc (OpenStream c target) = (sc_parseUrl sc target = None)"
| "stops sc op = False"

lemma stops_not_shutdown: "\<not> stops sc op \<Longrightarrow> op \<noteq> Shutdown"
  by auto

lemma upgrade_thrown: "upgrade parse keys target = UpgradeThrown \<longleftrightarrow> parse target = None"
  by (simp add: upgrade_def Let_def split: option.splits prod.splits)

fun run_server :: "ServerConfig \<Rightarrow> server_op list \<Rightarrow> PipelineState \<Rightarrow> response list \<times> PipelineState" where
  "run_server sc [] s = ([], s)"
| "run_server sc (op # ops) s =
     (let (r, s1) = server_step sc op s; (rs, s2) = run_server sc ops s1
      in (case r of None \<Rightarrow> rs | Some a \<Rightarrow> a # rs, s2))"

lemma run_server_invariant:
  assumes "P s" "\<And>op s. op \<in> set ops \<Longrightarrow> P s \<Longrightarrow> P (snd (server_step sc op s))"
  shows "P (snd (run_server sc ops s))"
  using assms
proof (induction ops arbitrary: s)
  case (Cons op ops)
  then have "P (snd (server_step sc op s))" by simp
  with Cons show ?case by (simp add: case_prod_beta Let_def)
qed simp

end
