(* ===== verification/Effects.thy ===== *)
theory Effects
  imports Cascade
begin

text \<open>
  The effect of one score update and of one recompute on each part of the state, over the closed forms
  of \<open>Cascade\<close>.
\<close>

section \<open>The audit log\<close>

abbreviation scores_log :: "PipelineState \<Rightarrow> ScoreAuditRecord list" where
  "scores_log s \<equiv> audit_scores (nw_audit (p_nudges s))"

abbreviation signals_log :: "PipelineState \<Rightarrow> SignalEvent list" where
  "signals_log s \<equiv> audit_signalEvents (nw_audit (p_nudges s))"

abbreviation errors_log :: "PipelineState \<Rightarrow> json ValidationErrorRecord list" where
  "errors_log s \<equiv> audit_validationErrors (nw_audit (p_nudges s))"

lemma audit_message_log:
  "nw_audit (p_nudges (audit_message m s)) = handleMessage memory_repository m (nw_audit (p_nudges s))"
  by (simp add: audit_message_def)

lemma fold_audit_log:
  "nw_audit (p_nudges (fold audit_message ms s)) = fold (handleMessage memory_repository) ms (nw_audit (p_nudges s))"
  by (induction ms arbitrary: s) (simp_all add: audit_message_log)

lemma audit_message_logs [simp]:
  "scores_log (audit_message m s) = scores_log s @ (case m of AuditScore r \<Rightarrow> [r] | _ \<Rightarrow> [])"
  "signals_log (audit_message m s) = signals_log s @ (case m of AuditSignalEvent e \<Rightarrow> [e] | _ \<Rightarrow> [])"
  "errors_log (audit_message m s) = errors_log s @ (case m of AuditValidationError e \<Rightarrow> [e] | _ \<Rightarrow> [])"
  by (cases m; simp add: audit_message_log handle_memory)+

lemma leaf_audits_lists:
  "[r. AuditScore r \<leftarrow> leaf_audits m] = []" "[e. AuditSignalEvent e \<leftarrow> leaf_audits m] = []"
  "[e. AuditValidationError e \<leftarrow> leaf_audits m] = (case m of ValidationErrorMsg e \<Rightarrow> [e] | _ \<Rightarrow> [])"
  by (cases m; simp add: comp_def)+

lemma leaf_publish_logs [simp]:
  "scores_log (leaf_publish m s) = scores_log s"
  "signals_log (leaf_publish m s) = signals_log s"
  by (simp_all add: leaf_publish_def fold_audit_log audit_lists leaf_audits_lists)

lemma leaf_publish_errors:
  "errors_log (leaf_publish m s) = errors_log s @
     (if p_subscribed s then (case m of ValidationErrorMsg e \<Rightarrow> [e] | _ \<Rightarrow> []) else [])"
  by (simp add: leaf_publish_def fold_audit_log audit_lists leaf_audits_lists)

lemma broadcast_logs [simp]:
  "scores_log (pipe_broadcast e s) = scores_log s"
  "signals_log (pipe_broadcast e s) = signals_log s"
  "errors_log (pipe_broadcast e s) = errors_log s"
  by simp_all

lemma draw_logs [simp]:
  "scores_log (draw s) = scores_log s"
  "signals_log (draw s) = signals_log s"
  "errors_log (draw s) = errors_log s"
  by simp_all

lemma note_forecast_logs [simp]:
  "scores_log (note_forecast cfg gate result now s) = scores_log s"
  "signals_log (note_forecast cfg gate result now s) = signals_log s"
  "errors_log (note_forecast cfg gate result now s) = errors_log s"
  by simp_all

lemma update_actions_logs [simp]:
  "scores_log (snd (update_actions cfg leaf_publish gate result s)) = scores_log s"
  "signals_log (snd (update_actions cfg leaf_publish gate result s)) = signals_log s"
  "errors_log (snd (update_actions cfg leaf_publish gate result s)) = errors_log s"
  by (simp_all add: update_actions_def onScoreUpdate_def publishActions_def leaf_publish_errors Let_def split: sum.splits)

lemma publish_redirection_logs [simp]:
  "scores_log (publish_redirection leaf_publish r s) = scores_log s"
  "signals_log (publish_redirection leaf_publish r s) = signals_log s"
  "errors_log (publish_redirection leaf_publish r s) = errors_log s"
  by (simp_all add: publish_redirection_def leaf_publish_errors Let_def)

lemma publish_redirections_logs [simp]:
  "scores_log (fold (publish_redirection leaf_publish) rs s) = scores_log s"
  "signals_log (fold (publish_redirection leaf_publish) rs s) = signals_log s"
  "errors_log (fold (publish_redirection leaf_publish) rs s) = errors_log s"
  by (induction rs arbitrary: s) simp_all

lemma publish_nudges_logs [simp]:
  "scores_log (fold (\<lambda>n. leaf_publish (FanNudgeMsg n)) ns s) = scores_log s"
  "signals_log (fold (\<lambda>n. leaf_publish (FanNudgeMsg n)) ns s) = signals_log s"
  "errors_log (fold (\<lambda>n. leaf_publish (FanNudgeMsg n)) ns s) = errors_log s"
  by (induction ns arbitrary: s) (simp_all add: leaf_publish_errors)

lemma generate_nudges_logs [simp]:
  "scores_log (generate_nudges cfg leaf_publish gate now s) = scores_log s"
  "signals_log (generate_nudges cfg leaf_publish gate now s) = signals_log s"
  "errors_log (generate_nudges cfg leaf_publish gate now s) = errors_log s"
  by (simp_all add: generate_nudges_def Let_def split: prod.splits)

section \<open>One score update\<close>

lemma generateRecommendations_ok: "scores forecast = p # ps \<Longrightarrow> \<exists>acts. generateRecommendations lc t gate forecast window = Inr acts"
  by (simp add: generateRecommendations_def Let_def)

text \<open>The alert a score update raises, if any.\<close>

definition risk_alert :: "PipelineConfig \<Rightarrow> GateId \<Rightarrow> RiskLevel \<Rightarrow> PipelineState \<Rightarrow> Alert option" where
  "risk_alert cfg g newLevel s = map_option va_alert
     (checkRiskLevelTransition (cfg_uuid cfg (p_draws s)) g (get_or (previousRiskLevelByGate s) g LOW) newLevel (p_clock s))"

lemma note_forecast_effect:
  assumes "scores result = p # ps"
  shows "forecastsByGate (note_forecast cfg gate result (p_clock s) s) = AList.update (gate_id gate) result (forecastsByGate s)"
    "previousRiskLevelByGate (note_forecast cfg gate result (p_clock s) s) =
       AList.update (gate_id gate) (riskLevel p) (previousRiskLevelByGate s)"
    "alertStore (note_forecast cfg gate result (p_clock s) s) =
       (case risk_alert cfg (gate_id gate) (riskLevel p) s of Some a \<Rightarrow> addAlert a (alertStore s) | None \<Rightarrow> alertStore s)"
    "p_draws (note_forecast cfg gate result (p_clock s) s) = Suc (p_draws s)"
  using assms by (simp_all add: note_forecast_def Let_def risk_alert_def raiseRiskLevelAlertIfTransitioned_def
      publishAlert_def draw_def split: option.splits)

lemma update_actions_effect:
  assumes "scores result = p # ps"
  obtains acts s' where "update_actions cfg leaf_publish gate result s = (Inr acts, s')"
    "generateRecommendations (cfg_lc cfg) (p_clock s) gate result (getWindowForGate (gate_id gate) s) = Inr acts"
    "activeActionsStore s' = setActiveActions (gate_id gate) acts (activeActionsStore s)"
    "activeActionsSource s' = setSourceActions (gate_id gate) acts (activeActionsSource s)"
proof -
  obtain acts where "generateRecommendations (cfg_lc cfg) (p_clock s) gate result (getWindowForGate (gate_id gate) s) = Inr acts"
    using generateRecommendations_ok [OF assms] by blast
  then show thesis
    by (intro that [of acts "snd (update_actions cfg leaf_publish gate result s)"])
      (simp_all add: update_actions_def onScoreUpdate_def publishActions_def)
qed

lemma window_frame: "signalWindowByGate s = signalWindowByGate s' \<Longrightarrow> getWindowForGate g s = getWindowForGate g s'"
  by (simp add: getWindowForGate_def)

text \<open>The handler on a forecast with points never fails; its state before the score is audited.\<close>

definition score_body :: "PipelineConfig \<Rightarrow> Gate \<Rightarrow> ForecastResult \<Rightarrow> PipelineState \<Rightarrow> PipelineState" where
  "score_body cfg gate result s =
     (let s1 = note_forecast cfg gate result (p_clock s) s;
          r = update_actions cfg leaf_publish gate result s1;
          s3 = pipe_broadcast (ActionListUpdate (gate_id gate) (projr (fst r))) (snd r)
      in generate_nudges cfg leaf_publish gate (p_clock s)
           (fold (publish_redirection leaf_publish)
              (generateRedirections (cfg_lc cfg) gate (forecastsByGate s3) (cfg_routes cfg) (getRecentRejections s3) (p_clock s)) s3))"

lemma score_effect_eq:
  assumes "scores result = p # ps" "p_subscribed s"
  shows "score_effect cfg \<lparr>csm_gate = gate, csm_result = result\<rparr> s =
    audit_message (AuditScore (score_audit gate p (getWindowForGate (gate_id gate) s))) (score_body cfg gate result s)"
proof -
  let ?s1 = "note_forecast cfg gate result (p_clock s) s"
  obtain acts s2 where u: "update_actions cfg leaf_publish gate result ?s1 = (Inr acts, s2)"
    using update_actions_effect [OF assms(1)] by metis
  have "onCongestionScores cfg leaf_publish (CongestionScoreMsg \<lparr>csm_gate = gate, csm_result = result\<rparr>) s =
    (None, score_body cfg gate result s)"
    by (simp add: u score_body_def Let_def del: update_actions_frame)
  moreover have "signalWindowByGate s2 = signalWindowByGate s"
    using update_actions_frame(4) [of cfg gate result ?s1] by (simp add: u)
  then have "getWindowForGate g (score_body cfg gate result s) = getWindowForGate g s" for g
    by (intro window_frame) (simp add: score_body_def u Let_def)
  ultimately show ?thesis
    using assms by (simp add: score_effect_def del: onCongestionScores.simps)
qed

lemma score_body_frame [simp]:
  "p_clock (score_body cfg gate result s) = p_clock s"
  "signalWindowByGate (score_body cfg gate result s) = signalWindowByGate s"
  "fansByGate (score_body cfg gate result s) = fansByGate s"
  "forecastStore (score_body cfg gate result s) = forecastStore s"
  "gateScoreSource (score_body cfg gate result s) = gateScoreSource s"
  "recentRejections (score_body cfg gate result s) = recentRejections s"
  "dataQualitySource (score_body cfg gate result s) = dataQualitySource s"
  "dashboardHub (score_body cfg gate result s) = dashboardHub s"
  "p_scheduler (score_body cfg gate result s) = p_scheduler s"
  "p_subscribed (score_body cfg gate result s) = p_subscribed s"
  "p_workers (score_body cfg gate result s) = p_workers s" "p_errors (score_body cfg gate result s) = p_errors s"
  "p_unhandled (score_body cfg gate result s) = p_unhandled s"
  "nw_query (p_nudges (score_body cfg gate result s)) = nw_query (p_nudges s)"
  by (simp_all add: score_body_def Let_def)

lemma score_body_logs [simp]:
  "scores_log (score_body cfg gate result s) = scores_log s"
  "signals_log (score_body cfg gate result s) = signals_log s"
  "errors_log (score_body cfg gate result s) = errors_log s"
  by (simp_all add: score_body_def Let_def)

lemma score_body_effect:
  assumes "scores result = p # ps"
  shows "forecastsByGate (score_body cfg gate result s) = AList.update (gate_id gate) result (forecastsByGate s)"
    "previousRiskLevelByGate (score_body cfg gate result s) = AList.update (gate_id gate) (riskLevel p) (previousRiskLevelByGate s)"
    "alertStore (score_body cfg gate result s) =
       (case risk_alert cfg (gate_id gate) (riskLevel p) s of Some a \<Rightarrow> addAlert a (alertStore s) | None \<Rightarrow> alertStore s)"
    "p_draws (score_body cfg gate result s) = Suc (p_draws s)"
  by (simp_all add: score_body_def Let_def note_forecast_effect [OF assms])

lemma score_body_actions:
  assumes "scores result = p # ps"
  obtains acts where
    "generateRecommendations (cfg_lc cfg) (p_clock s) gate result (getWindowForGate (gate_id gate) s) = Inr acts"
    "activeActionsStore (score_body cfg gate result s) = setActiveActions (gate_id gate) acts (activeActionsStore s)"
    "activeActionsSource (score_body cfg gate result s) = setSourceActions (gate_id gate) acts (activeActionsSource s)"
proof -
  let ?s1 = "note_forecast cfg gate result (p_clock s) s"
  obtain acts s' where u: "update_actions cfg leaf_publish gate result ?s1 = (Inr acts, s')"
    "generateRecommendations (cfg_lc cfg) (p_clock ?s1) gate result (getWindowForGate (gate_id gate) ?s1) = Inr acts"
    "activeActionsStore s' = setActiveActions (gate_id gate) acts (activeActionsStore ?s1)"
    "activeActionsSource s' = setSourceActions (gate_id gate) acts (activeActionsSource ?s1)"
    using update_actions_effect [OF assms] by metis
  then show thesis
    by (intro that [of acts]) (simp_all add: score_body_def Let_def getWindowForGate_def)
qed

section \<open>One recompute\<close>

lemma computeForecast_points: "computeForecast gate window now = Inr r \<Longrightarrow> scores r \<noteq> []"
  by (auto simp: computeForecast_def FORECAST_OFFSETS_MINUTES_def Let_def split: sum.splits)

lemma fallback_points: "computeForecastWithFallback race gate window now redis = (Inr r, redis') \<Longrightarrow> scores r \<noteq> []"
  by (auto simp: computeForecastWithFallback_def Let_def dest: computeForecast_points
      split: race_outcome.splits option.splits sum.splits)

definition store_forecast :: "Gate \<Rightarrow> ForecastResult \<Rightarrow> PipelineState \<Rightarrow> PipelineState" where
  "store_forecast gate result s =
     (let s1 = s\<lparr>forecastStore := setForecast (gate_id gate) (scores result) (forecastStore s)\<rparr>
      in case head_opt (scores result) of
           Some p \<Rightarrow> s1\<lparr>gateScoreSource := setScore (gate_id gate) p (gateScoreSource s1)\<rparr>
         | None \<Rightarrow> s1)"

lemma store_forecast_frame [simp]:
  "p_clock (store_forecast gate result s) = p_clock s" "p_draws (store_forecast gate result s) = p_draws s"
  "p_redis (store_forecast gate result s) = p_redis s"
  "signalWindowByGate (store_forecast gate result s) = signalWindowByGate s"
  "fansByGate (store_forecast gate result s) = fansByGate s"
  "forecastsByGate (store_forecast gate result s) = forecastsByGate s"
  "previousRiskLevelByGate (store_forecast gate result s) = previousRiskLevelByGate s"
  "activeActionsStore (store_forecast gate result s) = activeActionsStore s"
  "activeActionsSource (store_forecast gate result s) = activeActionsSource s"
  "redirectionStore (store_forecast gate result s) = redirectionStore s"
  "recentRejections (store_forecast gate result s) = recentRejections s"
  "p_nudges (store_forecast gate result s) = p_nudges s" "alertStore (store_forecast gate result s) = alertStore s"
  "dataQualitySource (store_forecast gate result s) = dataQualitySource s"
  "dashboardHub (store_forecast gate result s) = dashboardHub s" "p_sent (store_forecast gate result s) = p_sent s"
  "p_scheduler (store_forecast gate result s) = p_scheduler s"
  "p_subscribed (store_forecast gate result s) = p_subscribed s"
  "p_workers (store_forecast gate result s) = p_workers s" "p_errors (store_forecast gate result s) = p_errors s"
  "p_unhandled (store_forecast gate result s) = p_unhandled s"
  by (simp_all add: store_forecast_def Let_def split: option.splits)

lemma run_recompute_eq:
  "run_recompute cfg (score_publish cfg) gate s =
    (case computeForecastWithFallback (cfg_race cfg (p_draws s)) gate (getWindowForGate (gate_id gate) s) (p_clock s) (p_redis s) of
       (Inl e, r) \<Rightarrow> (Some e, (draw s)\<lparr>p_redis := r\<rparr>)
     | (Inr result, r) \<Rightarrow>
         (None, score_effect cfg \<lparr>csm_gate = gate, csm_result = result\<rparr> (store_forecast gate result ((draw s)\<lparr>p_redis := r\<rparr>))))"
proof -
  have w: "getWindowForGate g (draw s) = getWindowForGate g s" for g by (rule window_frame) simp
  have p: "publishForecast (score_publish cfg) gate result s1 =
      score_effect cfg \<lparr>csm_gate = gate, csm_result = result\<rparr> (store_forecast gate result s1)" for result s1
    by (simp add: publishForecast_def store_forecast_def score_publish_def Let_def)
  have id: "(s2 :: PipelineState)\<lparr>p_redis := p_redis s2\<rparr> = s2" for s2 by simp
  show ?thesis
    by (simp add: run_recompute_def onSignalEventForGate_def recompute_def w p id Let_def split: prod.splits sum.splits)
qed

lemma fallback_cooldowns:
  "computeForecastWithFallback race gate window now redis = (res, r) \<Longrightarrow> cooldownStore r = cooldownStore redis"
  by (auto simp: computeForecastWithFallback_def setLastKnownScore_def Let_def
      split: race_outcome.splits option.splits sum.splits)

text \<open>A recompute either fails and leaves all but the redis client and the draw counter alone, or publishes a
  forecast with points.\<close>

lemma run_recompute_cases:
  obtains (failed) e r where "run_recompute cfg (score_publish cfg) gate s = (Some e, (draw s)\<lparr>p_redis := r\<rparr>)"
      "cooldownStore r = cooldownStore (p_redis s)"
  | (published) result r p ps where "scores result = p # ps" "cooldownStore r = cooldownStore (p_redis s)"
      "computeForecastWithFallback (cfg_race cfg (p_draws s)) gate (getWindowForGate (gate_id gate) s) (p_clock s) (p_redis s) = (Inr result, r)"
      "run_recompute cfg (score_publish cfg) gate s =
        (None, score_effect cfg \<lparr>csm_gate = gate, csm_result = result\<rparr> (store_forecast gate result ((draw s)\<lparr>p_redis := r\<rparr>)))"
proof (cases "computeForecastWithFallback (cfg_race cfg (p_draws s)) gate (getWindowForGate (gate_id gate) s) (p_clock s) (p_redis s)")
  case (Pair res r)
  show thesis
  proof (cases res)
    case (Inl e)
    with Pair show thesis by (intro failed [of e r]) (simp_all add: run_recompute_eq fallback_cooldowns)
  next
    case (Inr result)
    with Pair fallback_points obtain p ps where "scores result = p # ps" by (metis neq_Nil_conv)
    with Pair Inr show thesis by (intro published [of result p ps r]) (simp_all add: run_recompute_eq fallback_cooldowns)
  qed
qed

end
