(* ===== verification/ServerInvariants.thy ===== *)
theory ServerInvariants
  imports Server Effects
begin

text \<open>
  Invariants of the whole server. The locale \<open>server_invariant\<close> lists the elementary changes every
  operation of the server is made of; a predicate that each of them preserves holds in every state
  the server reaches, whatever requests, timers, connections and passing of time it sees. The
  interpretations are the invariants of the development.
\<close>

section \<open>Elementary changes\<close>

text \<open>The timers of the scheduler are consistent, belong to configured gates, and run only while the
  pipeline is subscribed.\<close>

definition timers_inv :: "PipelineConfig \<Rightarrow> ForecastScheduler \<Rightarrow> bool \<Rightarrow> bool" where
  "timers_inv cfg sched subscribed = (scheduler_inv sched \<and>
     (\<forall>h t. map_of (running_timers sched) h = Some t \<longrightarrow> gate_id (timer_gate t) \<in> gate_id ` set (cfg_gates cfg)) \<and>
     (subscribed \<or> running_timers sched = []))"

definition timers_ok :: "PipelineConfig \<Rightarrow> PipelineState \<Rightarrow> bool" where
  "timers_ok cfg s = timers_inv cfg (p_scheduler s) (p_subscribed s)"

definition known_gate :: "PipelineConfig \<Rightarrow> Gate \<Rightarrow> bool" where
  "known_gate cfg gate = (gate_id gate \<in> gate_id ` set (cfg_gates cfg))"

text \<open>The scores are published for gates of the configuration, and only a score update writes a cooldown.\<close>

lemma gatesById_member: "map_of (gatesById gates) g = Some gate \<Longrightarrow> gate \<in> set gates \<and> gate_id gate = g"
proof -
  have "map_of (fold (\<lambda>g m. AList.update (gate_id g) g m) gates m) g = Some gate \<Longrightarrow>
      map_of m g = Some gate \<or> gate \<in> set gates \<and> gate_id gate = g" for m
    by (induction gates arbitrary: m) (fastforce simp: store_simps split: if_splits)+
  then show "map_of (gatesById gates) g = Some gate \<Longrightarrow> ?thesis" by (fastforce simp: gatesById_def)
qed

lemma status_cooldowns: "getStatus i t r = (statuses, r') \<Longrightarrow> cooldownStore r' = cooldownStore r"
proof -
  have "cooldownStore (snd (statuses_of ss i t r)) = cooldownStore r" for ss
    by (induction ss arbitrary: r) (simp_all add: isDegraded_def isSourceDegraded_def case_prod_beta Let_def)
  then show "getStatus i t r = (statuses, r') \<Longrightarrow> cooldownStore r' = cooldownStore r"
    by (metis getStatus_def snd_conv)
qed

locale server_invariant =
  fixes sc :: ServerConfig and P :: "PipelineState \<Rightarrow> bool"
  assumes clock_ok: "P s \<Longrightarrow> P (s\<lparr>p_clock := p_clock s + int ms\<rparr>)"
    and draw_ok: "P s \<Longrightarrow> P (draw s)"
    and redis_ok: "P s \<Longrightarrow> cooldownStore r = cooldownStore (p_redis s) \<Longrightarrow> P (s\<lparr>p_redis := r\<rparr>)"
    and sent_ok: "P s \<Longrightarrow> P (s\<lparr>p_sent := sent\<rparr>)"
    and hub_ok: "P s \<Longrightarrow> P (s\<lparr>dashboardHub := h\<rparr>)"
    and error_ok: "P s \<Longrightarrow> P (console_error t err s)"
    and unhandled_ok: "P s \<Longrightarrow> P (s\<lparr>p_unhandled := u\<rparr>)"
    and rejections_ok: "P s \<Longrightarrow> P (s\<lparr>recentRejections := recentRejections s @ rs\<rparr>)"
    and fans_ok: "P s \<Longrightarrow> P (s\<lparr>fansByGate := f\<rparr>)"
    and window_ok: "P s \<Longrightarrow> gateId e = Some g \<Longrightarrow> P (appendToWindow g e (p_clock s) s)"
    and publish_ok: "P s \<Longrightarrow> p_subscribed s \<Longrightarrow> scores result = p # ps \<Longrightarrow> known_gate (sc_pipeline sc) gate \<Longrightarrow>
      P (score_effect (sc_pipeline sc) \<lparr>csm_gate = gate, csm_result = result\<rparr> (store_forecast gate result s))"
    and audit_signal_ok: "P s \<Longrightarrow> P (audit_message (AuditSignalEvent e) s)"
    and audit_error_ok: "P s \<Longrightarrow> P (audit_message (AuditValidationError v) s)"
    and worker_ok: "P s \<Longrightarrow> P (s\<lparr>p_nudges := process_world (forecastsByGate s) (p_clock s) (p_nudges s)\<rparr>)"
    and quality_ok: "P s \<Longrightarrow> P (check_gate_quality (sc_pipeline sc) gate s)"
    and stop_ok: "P s \<Longrightarrow> P (stop (sc_pipeline sc) s)"
    and execute_ok: "P s \<Longrightarrow> P (s\<lparr>activeActionsStore := actions\<rparr>)"
    and decide_ok: "P s \<Longrightarrow> P (s\<lparr>redirectionStore := updateRecommendation rec (redirectionStore s)\<rparr>)"
    and acknowledge_ok: "P s \<Longrightarrow> getAlert i (alertStore s) = Some a \<Longrightarrow>
      P (s\<lparr>alertStore := updateAlert (a\<lparr>acknowledgedAt := x, acknowledgedByUserId := y\<rparr>) (alertStore s)\<rparr>)"
begin

lemma recompute_ok:
  assumes "P s" "p_subscribed s" "known_gate (sc_pipeline sc) gate"
  shows "P (snd (run_recompute (sc_pipeline sc) (score_publish (sc_pipeline sc)) gate s))"
  by (cases rule: run_recompute_cases [of "sc_pipeline sc" gate s])
    (simp_all add: assms redis_ok draw_ok publish_ok)

lemma gatesById_known: "map_of (gatesById (cfg_gates cfg)) g = Some gate \<Longrightarrow> known_gate cfg gate"
  using gatesById_member [of "cfg_gates cfg" g gate] by (auto simp: known_gate_def)

lemma settle_ok: "P (snd r) \<Longrightarrow> P (settle t r)"
  by (simp add: settle_def error_ok split: option.splits)

lemma track_ok: "P s \<Longrightarrow> P (trackFansForEvent e s)"
  by (simp add: trackFansForEvent_def add_fans_def Let_def fans_ok split: SignalEventPayloadBody.splits option.splits)

lemma track_subscribed: "p_subscribed (trackFansForEvent e s) = p_subscribed s" "p_clock (trackFansForEvent e s) = p_clock s"
  by (simp_all add: trackFansForEvent_def add_fans_def Let_def split: SignalEventPayloadBody.splits option.splits)

lemma append_subscribed: "p_subscribed (appendToWindow g e t s) = p_subscribed s"
  by (simp add: appendToWindow_def Let_def)

lemma signal_ok:
  assumes "P s"
  shows "P (publishSignalEvent (sc_pipeline sc) e s)"
proof -
  have "P (snd (onSignalEvent (sc_pipeline sc) (score_publish (sc_pipeline sc)) (SignalEventMsg e) s))" if "p_subscribed s"
  proof (cases "truthy_str (gateId e)")
    case True
    then obtain g where g: "gateId e = Some g" by (cases "gateId e") simp_all
    let ?s2 = "appendToWindow g e (p_clock s) (trackFansForEvent e s)"
    have "P ?s2" using window_ok [OF track_ok [OF assms] g] by (simp add: track_subscribed)
    moreover have "p_subscribed ?s2" using that by (simp add: append_subscribed track_subscribed)
    ultimately show ?thesis
      using True recompute_ok gatesById_known by (simp add: g Let_def split: option.splits)
  next
    case False
    then show ?thesis by (simp add: track_ok assms)
  qed
  then show ?thesis
    using assms by (simp add: publishSignalEvent_def bus_publish_simps audit_signal_ok settle_ok del: onSignalEvent.simps)
qed

lemma invalid_ok: "P s \<Longrightarrow> P (publishValidationError (sc_pipeline sc) err s)"
  by (simp add: publishValidationError_def Let_def bus_publish_simps is_leaf_def leaf_publish_def audit_error_ok draw_ok)

lemma post_signal_ok: "P s \<Longrightarrow> P (snd (post_signal sc body s))"
  by (simp add: post_signal_def handleSignal_def mark_source_def markActive_def touchSource_def Let_def signal_ok invalid_ok draw_ok redis_ok
      split: sum.splits prod.splits SignalIngestionResult.splits)

lemma reject_frame:
  "rejectRedirection r i d t c st = (res, store, redis) \<Longrightarrow>
    (store = fst st \<or> (\<exists>rec. store = updateRecommendation rec (fst st))) \<and> cooldownStore redis = cooldownStore (snd st)"
  by (auto simp: rejectRedirection_def suppression_record_def recordRejection_def Let_def split: option.splits)

lemma route_ok:
  assumes "P s"
  shows "P (snd (route_handler sc ep s))"
proof (cases ep)
  case (PostAccept r i d)
  then show ?thesis
    using assms by (auto simp: post_accept_def acceptRedirection_def Let_def decide_ok split: option.splits)
next
  case (PostReject r i d)
  obtain res store redis where rj: "rejectRedirection r i d (p_clock s) (p_clock s) (redirectionStore s, p_redis s) = (res, store, redis)"
    by (metis prod_cases3)
  have "P (s\<lparr>redirectionStore := store\<rparr>)"
    using reject_frame [OF rj] assms decide_ok by auto
  then have "P (s\<lparr>redirectionStore := store, p_redis := redis\<rparr>)"
    by (rule redis_ok) (use reject_frame [OF rj] in simp)
  note kept = this rejections_ok [OF this]
  show ?thesis
    unfolding PostReject route_handler.simps post_reject_def rj Let_def prod.case
    using kept by (cases res) simp_all
next
  case (PostAcknowledge i u)
  then show ?thesis
    using assms acknowledge_ok [OF assms] by (auto simp: post_acknowledge_def acknowledgeAlert_def Let_def split: option.splits)
next
  case (PostExecute g i u)
  then show ?thesis using assms by (simp add: post_execute_def execute_ok split: prod.splits)
next
  case (GetSourceStatus i)
  then show ?thesis using assms by (simp add: get_source_status_def redis_ok status_cooldowns split: prod.splits)
qed (use assms in \<open>simp_all add: post_signal_ok get_handler_defs Let_def\<close>)

lemma request_ok: "P s \<Longrightarrow> P (snd (handle_request sc req ep s))"
  by (simp add: handle_request_def route_ok del: route_handler.simps split: option.splits auth_result.splits)

lemma shutdown_ok: "P s \<Longrightarrow> P (shutdownServer sc s)"
  by (simp add: shutdownServer_def Let_def hub_ok stop_ok)

lemma gate_tick_ok:
  assumes "P s" "timers_ok (sc_pipeline sc) s"
  shows "P (gate_tick (sc_pipeline sc) h s)"
proof (cases "map_of (running_timers (p_scheduler s)) h")
  case None
  with assms show ?thesis by (simp add: gate_tick_def)
next
  case (Some t)
  with assms(2) have "p_subscribed s" "known_gate (sc_pipeline sc) (timer_gate t)"
    by (auto simp: timers_ok_def timers_inv_def known_gate_def)
  then have "P (snd (run_recompute (sc_pipeline sc) (bus_publish (sc_pipeline sc)) (timer_gate t) s))"
    using recompute_ok [OF assms(1)] by (simp add: run_recompute_bus)
  then show ?thesis
    by (cases "run_recompute (sc_pipeline sc) (bus_publish (sc_pipeline sc)) (timer_gate t) s"; cases "fst
        (run_recompute (sc_pipeline sc) (bus_publish (sc_pipeline sc)) (timer_gate t) s)")
      (simp_all add: gate_tick_def Some unhandled_ok)
qed

lemma step_ok:
  assumes "P s" "timers_ok (sc_pipeline sc) s"
  shows "P (snd (server_step sc op s))"
proof (cases op)
  case DataQualityTick
  have "P (fold (check_gate_quality (sc_pipeline sc)) gs s)" for gs
    using assms(1) by (induction gs arbitrary: s) (simp_all add: quality_ok)
  with DataQualityTick assms show ?thesis by (simp add: data_quality_tick_def)
next
  case (GateTick h)
  with gate_tick_ok [OF assms, of h] show ?thesis by (simp add: Let_def shutdown_ok)
next
  case (Request req ep)
  then show ?thesis using assms by (simp add: case_prod_beta Let_def request_ok)
next
  case (OpenStream c target)
  then show ?thesis using assms by (simp add: open_stream_def hub_ok shutdown_ok split: upgrade_result.splits)
qed (use assms in \<open>simp_all add: clock_ok nudge_worker_tick_def worker_ok hub_tick_def sent_ok close_stream_def hub_ok shutdown_ok\<close>)

end

section \<open>The timers\<close>

lemma stop_timers:
  assumes "map_of (running_timers (stopScheduledTicks g s)) h = Some t"
  shows "map_of (running_timers s) h = Some t"
  using assms by (auto simp: stopScheduledTicks_def clearInterval_def Let_def store_simps split: option.splits if_splits)

lemma stop_all:
  "scheduler_inv s \<Longrightarrow> scheduler_inv (fold stopScheduledTicks gs s) \<and>
    (\<forall>h t. map_of (running_timers (fold stopScheduledTicks gs s)) h = Some t \<longrightarrow>
      map_of (running_timers s) h = Some t \<and> gate_id (timer_gate t) \<notin> set gs)"
proof (induction gs arbitrary: s)
  case Nil
  then show ?case by simp
next
  case (Cons g gs)
  note IH = Cons.IH [OF stop_inv [OF Cons.prems, of g]]
  have "gate_id (timer_gate t) \<noteq> g" if "map_of (running_timers (stopScheduledTicks g s)) h = Some t" for h t
    using stop_inv [OF Cons.prems, of g] stop_removes [of g s] that unfolding scheduler_inv_def by (metis option.distinct(1))
  then have "map_of (running_timers s) h = Some t \<and> gate_id (timer_gate t) \<notin> set (g # gs)"
    if "map_of (running_timers (fold stopScheduledTicks gs (stopScheduledTicks g s))) h = Some t" for h t
    using IH that stop_timers [of g s h t] by (metis set_ConsD)
  with IH show ?case by simp
qed

lemma start_timers:
  assumes "map_of (running_timers (startScheduledTicks gate ms s)) h = Some t"
  shows "map_of (running_timers s) h = Some t \<or> t = \<lparr>timer_gate = gate, timer_ms = ms\<rparr>"
  using assms by (auto simp: startScheduledTicks_def setInterval_def Let_def store_simps split: if_splits dest: stop_timers)

lemma start_all:
  assumes "scheduler_inv s"
  shows "scheduler_inv (fold (\<lambda>g. startScheduledTicks g ms) gs s) \<and>
    (\<forall>h t. map_of (running_timers (fold (\<lambda>g. startScheduledTicks g ms) gs s)) h = Some t \<longrightarrow>
      map_of (running_timers s) h = Some t \<or> timer_gate t \<in> set gs)"
  using assms
proof (induction gs arbitrary: s)
  case (Cons g gs)
  have "timer_gate t = g" if "t = \<lparr>timer_gate = g, timer_ms = ms\<rparr>" for t using that by simp
  then show ?case
    using Cons.IH [OF start_inv [OF Cons.prems]] start_timers [of g ms s] by (simp only: fold_simps list.set insert_iff) blast
qed simp

lemma stop_timers_ok:
  assumes "timers_ok cfg s"
  shows "timers_ok cfg (stop cfg s)"
proof -
  have f: "fold (\<lambda>g. stopScheduledTicks (gate_id g)) (cfg_gates cfg) (p_scheduler s) =
      fold stopScheduledTicks (map gate_id (cfg_gates cfg)) (p_scheduler s)" by (simp add: fold_map comp_def)
  have i: "scheduler_inv (p_scheduler s)" using assms by (simp add: timers_ok_def timers_inv_def)
  have "map_of (running_timers (fold stopScheduledTicks (map gate_id (cfg_gates cfg)) (p_scheduler s))) h = None" for h
  proof (cases "map_of (running_timers (fold stopScheduledTicks (map gate_id (cfg_gates cfg)) (p_scheduler s))) h")
    case (Some t)
    with stop_all [OF i] have "map_of (running_timers (p_scheduler s)) h = Some t"
      "gate_id (timer_gate t) \<notin> set (map gate_id (cfg_gates cfg))" by blast+
    with assms show ?thesis by (force simp: timers_ok_def timers_inv_def)
  qed
  then have "running_timers (fold stopScheduledTicks (map gate_id (cfg_gates cfg)) (p_scheduler s)) = []"
    by (metis ext map_of_eq_empty_iff)
  then show ?thesis
    using stop_all [OF i, of "map gate_id (cfg_gates cfg)"] by (simp add: timers_ok_def timers_inv_def stop_def f)
qed

lemma score_effect_frame:
  assumes "scores (csm_result m) = p # ps"
  shows "p_scheduler (score_effect cfg m s) = p_scheduler s" "p_subscribed (score_effect cfg m s) = p_subscribed s"
proof -
  obtain gate result where m: "m = \<lparr>csm_gate = gate, csm_result = result\<rparr>" by (cases m) simp
  have "p_scheduler (score_effect cfg m s) = p_scheduler s \<and> p_subscribed (score_effect cfg m s) = p_subscribed s"
  proof (cases "p_subscribed s")
    case True
    then show ?thesis using assms by (simp add: m score_effect_eq)
  qed (simp add: score_effect_def)
  then show "p_scheduler (score_effect cfg m s) = p_scheduler s" "p_subscribed (score_effect cfg m s) = p_subscribed s" by blast+
qed

lemma check_gate_frame:
  "p_scheduler (check_gate_quality cfg g s) = p_scheduler s" "p_subscribed (check_gate_quality cfg g s) = p_subscribed s"
  by (simp_all add: check_gate_quality_def raiseDataQualityAlertIfAllDegraded_def Let_def split: prod.splits)

interpretation timers: server_invariant sc "timers_ok (sc_pipeline sc)" for sc
  by unfold_locales
    (simp_all add: stop_timers_ok, simp_all add: timers_ok_def score_effect_frame check_gate_frame appendToWindow_def Let_def)

lemma timers_startup: "timers_ok (sc_pipeline sc) (startup sc now)"
proof -
  have "scheduler_inv new_scheduler" by (rule reachable_inv [OF scheduler_reachable.init])
  from start_all [OF this] show ?thesis
    by (auto simp: timers_ok_def timers_inv_def startup_def initial_def Let_def new_scheduler_def)
qed

context server_invariant
begin

text \<open>The invariant holds in every state of every run.\<close>

lemma run_from:
  assumes "P s" "timers_ok (sc_pipeline sc) s"
  shows "P (snd (run_server sc ops s))"
proof -
  have "P (snd (run_server sc ops s)) \<and> timers_ok (sc_pipeline sc) (snd (run_server sc ops s))"
  proof (rule run_server_invariant)
    fix op s
    assume "P s \<and> timers_ok (sc_pipeline sc) s"
    then have "P s" "timers_ok (sc_pipeline sc) s" by auto
    then show "P (snd (server_step sc op s)) \<and> timers_ok (sc_pipeline sc) (snd (server_step sc op s))"
      using step_ok timers.step_ok by blast
  qed (simp add: assms)
  then show ?thesis ..
qed

lemma run_ok: "P (startup sc now) \<Longrightarrow> P (snd (run_server sc ops (startup sc now)))"
  by (rule run_from [OF _ timers_startup])

end

end
