(* ===== verification/Guarantees.thy ===== *)
theory Guarantees
  imports ServerInvariants
begin

text \<open>
  What the server as a whole promises, over every run: the views of a gate agree, the alerts match the
  audit log, and the periodic check reports the gates whose sources are all silent.
\<close>

abbreviation reached :: "ServerConfig \<Rightarrow> int \<Rightarrow> server_op list \<Rightarrow> PipelineState" where
  "reached sc now ops \<equiv> snd (run_server sc ops (startup sc now))"

section \<open>The views of a gate agree\<close>

definition gate_scores_log :: "GateId \<Rightarrow> PipelineState \<Rightarrow> ScoreAuditRecord list" where
  "gate_scores_log g s = filter (\<lambda>r. sa_gateId r = g) (scores_log s)"

definition audited_as :: "ScoreAuditRecord list \<Rightarrow> CongestionScorePoint option \<Rightarrow> bool" where
  "audited_as rs p = (case p of None \<Rightarrow> rs = []
     | Some p \<Rightarrow> rs \<noteq> [] \<and> sa_score (last rs) = score p \<and> sa_riskLevel (last rs) = riskLevel p
         \<and> sa_timestamp (last rs) = forecastTime p)"

definition gate_views :: "GateId \<Rightarrow> ForecastResult option \<Rightarrow> ForecastStoreState \<Rightarrow> GateScoreState \<Rightarrow> (GateId, RiskLevel) jsmap
    \<Rightarrow> ScoreAuditRecord list \<Rightarrow> bool" where
  "gate_views g f store current previous rs =
     (getLatestForecast g store = map_option scores f \<and>
      getCurrentScore g current = Option.bind f (\<lambda>r. head_opt (scores r)) \<and>
      map_of previous g = map_option (\<lambda>r. currentRiskLevel (Some r)) f \<and>
      (\<forall>r. f = Some r \<longrightarrow> scores r \<noteq> []) \<and>
      audited_as (filter (\<lambda>r. sa_gateId r = g) rs) (Option.bind f (\<lambda>r. head_opt (scores r))))"

definition views_inv :: "(GateId, ForecastResult) jsmap \<Rightarrow> ForecastStoreState \<Rightarrow> GateScoreState \<Rightarrow> (GateId, RiskLevel) jsmap
    \<Rightarrow> ScoreAuditRecord list \<Rightarrow> bool" where
  "views_inv forecasts store current previous rs = (\<forall>g. gate_views g (map_of forecasts g) store current previous rs)"

definition views_ok :: "PipelineState \<Rightarrow> bool" where
  "views_ok s = views_inv (forecastsByGate s) (forecastStore s) (gateScoreSource s) (previousRiskLevelByGate s) (scores_log s)"

lemma currentRiskLevel_head: "scores r = p # ps \<Longrightarrow> currentRiskLevel (Some r) = riskLevel p"
  by (simp add: currentRiskLevel_def)

lemma score_effect_fields:
  fixes cfg :: PipelineConfig and gate :: Gate
  assumes "scores result = p # ps" "p_subscribed s"
  defines "s' \<equiv> score_effect cfg \<lparr>csm_gate = gate, csm_result = result\<rparr> (store_forecast gate result s)"
  shows "forecastStore s' = setForecast (gate_id gate) (scores result) (forecastStore s)"
    "gateScoreSource s' = setScore (gate_id gate) p (gateScoreSource s)"
    "previousRiskLevelByGate s' = AList.update (gate_id gate) (riskLevel p) (previousRiskLevelByGate s)"
    "forecastsByGate s' = AList.update (gate_id gate) result (forecastsByGate s)"
    "scores_log s' = scores_log s @ [score_audit gate p (getWindowForGate (gate_id gate) s)]"
    "signals_log s' = signals_log s" "errors_log s' = errors_log s"
    "signalWindowByGate s' = signalWindowByGate s"
    "alertStore s' = (case risk_alert cfg (gate_id gate) (riskLevel p) s of Some a \<Rightarrow> addAlert a (alertStore s) | None \<Rightarrow> alertStore s)"
    "p_draws s' = Suc (p_draws s)"
proof -
  have "risk_alert cfg g l (store_forecast gate result s) = risk_alert cfg g l s"
    "getWindowForGate g (store_forecast gate result s) = getWindowForGate g s" for g l
    by (simp_all add: risk_alert_def getWindowForGate_def)
  moreover have "forecastStore (store_forecast gate result s) = setForecast (gate_id gate) (scores result) (forecastStore s)"
    "gateScoreSource (store_forecast gate result s) = setScore (gate_id gate) p (gateScoreSource s)"
    using assms(1) by (simp_all add: store_forecast_def)
  ultimately show "forecastStore s' = setForecast (gate_id gate) (scores result) (forecastStore s)"
    "gateScoreSource s' = setScore (gate_id gate) p (gateScoreSource s)"
    "previousRiskLevelByGate s' = AList.update (gate_id gate) (riskLevel p) (previousRiskLevelByGate s)"
    "forecastsByGate s' = AList.update (gate_id gate) result (forecastsByGate s)"
    "scores_log s' = scores_log s @ [score_audit gate p (getWindowForGate (gate_id gate) s)]"
    "signals_log s' = signals_log s" "errors_log s' = errors_log s"
    "signalWindowByGate s' = signalWindowByGate s"
    "alertStore s' = (case risk_alert cfg (gate_id gate) (riskLevel p) s of Some a \<Rightarrow> addAlert a (alertStore s) | None \<Rightarrow> alertStore s)"
    "p_draws s' = Suc (p_draws s)"
    using assms(2) by (simp_all add: s'_def score_effect_eq [OF assms(1)] score_body_effect [OF assms(1)] split: option.splits)
qed

lemma views_update:
  assumes "views_inv forecasts store current previous rs" "scores result = p # ps" "sa_gateId r = g"
    "sa_score r = score p" "sa_riskLevel r = riskLevel p" "sa_timestamp r = forecastTime p"
  shows "views_inv (AList.update g result forecasts) (setForecast g (scores result) store) (setScore g p current)
    (AList.update g (riskLevel p) previous) (rs @ [r])"
  unfolding views_inv_def
proof
  fix g'
  show "gate_views g' (map_of (AList.update g result forecasts) g') (setForecast g (scores result) store) (setScore g p current)
    (AList.update g (riskLevel p) previous) (rs @ [r])"
    using assms currentRiskLevel_head [OF assms(2)]
    by (cases "g' = g") (auto simp: views_inv_def gate_views_def store_simps audited_as_def)
qed

lemma views_publish:
  assumes "views_ok s" "p_subscribed s" "scores result = p # ps"
  shows "views_ok (score_effect cfg \<lparr>csm_gate = gate, csm_result = result\<rparr> (store_forecast gate result s))"
  using assms(1) unfolding views_ok_def score_effect_fields [OF assms(3,2)]
  by (rule views_update) (simp_all add: assms(3) score_audit_def)

text \<open>The delivery worker writes to the audited nudges alone.\<close>

lemma process_world_logs [simp]:
  "audit_scores (nw_audit (process_world forecasts now w)) = audit_scores (nw_audit w)"
  "audit_signalEvents (nw_audit (process_world forecasts now w)) = audit_signalEvents (nw_audit w)"
  "audit_validationErrors (nw_audit (process_world forecasts now w)) = audit_validationErrors (nw_audit w)"
  "audit_actions (nw_audit (process_world forecasts now w)) = audit_actions (nw_audit w)"
  "audit_shuttle (nw_audit (process_world forecasts now w)) = audit_shuttle (nw_audit w)"
proof -
  let ?logs = "\<lambda>w. (audit_scores (nw_audit w), audit_signalEvents (nw_audit w), audit_validationErrors (nw_audit w),
    audit_actions (nw_audit w), audit_shuttle (nw_audit w))"
  have "?logs (fold (deliver_one world_update recordDelivery recordCancellation forecasts now) ns w) = ?logs w" for ns
    by (induction ns arbitrary: w) (simp_all add: deliver_one_eq writeNudgeAudit_def)
  then show "audit_scores (nw_audit (process_world forecasts now w)) = audit_scores (nw_audit w)"
    "audit_signalEvents (nw_audit (process_world forecasts now w)) = audit_signalEvents (nw_audit w)"
    "audit_validationErrors (nw_audit (process_world forecasts now w)) = audit_validationErrors (nw_audit w)"
    "audit_actions (nw_audit (process_world forecasts now w)) = audit_actions (nw_audit w)"
    "audit_shuttle (nw_audit (process_world forecasts now w)) = audit_shuttle (nw_audit w)"
    by (simp_all add: processQueue_def)
qed

lemma check_gate_logs [simp]:
  "forecastsByGate (check_gate_quality cfg g s) = forecastsByGate s" "forecastStore (check_gate_quality cfg g s) = forecastStore s"
  "gateScoreSource (check_gate_quality cfg g s) = gateScoreSource s"
  "previousRiskLevelByGate (check_gate_quality cfg g s) = previousRiskLevelByGate s" "p_nudges (check_gate_quality cfg g s) = p_nudges s"
  "signalWindowByGate (check_gate_quality cfg g s) = signalWindowByGate s"
  by (simp_all add: check_gate_quality_def raiseDataQualityAlertIfAllDegraded_def Let_def split: prod.splits)

interpretation views: server_invariant sc views_ok for sc
  by unfold_locales (simp_all add: views_publish, simp_all add: views_ok_def appendToWindow_def Let_def stop_def)

lemma views_startup: "views_ok (startup sc now)"
  by (simp add: views_ok_def views_inv_def gate_views_def audited_as_def startup_def initial_def Let_def
      getLatestForecast_def getCurrentScore_def empty_audit_def)

text \<open>C3. In every state the server reaches, the views of a gate agree: the forecast endpoint, the
  dashboard, the level that alerts, redirections and nudges go by, and the last audited score of
  the gate are those of the same forecast, and a gate without a forecast has none of them and
  shows as score 0, \<open>LOW\<close>.\<close>

theorem views_agree:
  "let s = reached sc now ops; snap = hd (dashboard_snapshot [g] s) in
    (case getForecast (\<lambda>g. getLatestForecast g (forecastStore s)) g of
       None \<Rightarrow> snap_score snap = Fin 0 \<and> snap_riskLevel snap = LOW \<and>
         currentRiskLevel (map_of (forecastsByGate s) g) = LOW \<and> gate_scores_log g s = []
     | Some resp \<Rightarrow> (\<exists>p ps. resp_scores resp = p # ps \<and>
         snap_score snap = score p \<and> snap_riskLevel snap = riskLevel p \<and> snap_riskLevel snap = resp_riskLevel resp \<and>
         snap_lowConfidence snap = point_lowConfidence p \<and> snap_outdated snap = outdated p \<and>
         currentRiskLevel (map_of (forecastsByGate s) g) = riskLevel p \<and>
         get_or (previousRiskLevelByGate s) g LOW = riskLevel p \<and>
         gate_scores_log g s \<noteq> [] \<and> sa_score (last (gate_scores_log g s)) = score p \<and>
         sa_riskLevel (last (gate_scores_log g s)) = riskLevel p))"
proof -
  define s where "s = reached sc now ops"
  have v: "gate_views g (map_of (forecastsByGate s) g) (forecastStore s) (gateScoreSource s) (previousRiskLevelByGate s) (scores_log s)"
    using views.run_ok [OF views_startup] by (simp add: s_def views_ok_def views_inv_def)
  show ?thesis
  proof (cases "map_of (forecastsByGate s) g")
    case None
    with v show ?thesis
      by (simp add: s_def [symmetric] Let_def getForecast_def gate_views_def audited_as_def gate_scores_log_def dashboard_snapshot_def getSnapshot_def)
  next
    case (Some r)
    with v obtain p ps where "scores r = p # ps" by (auto simp: gate_views_def neq_Nil_conv)
    with v Some show ?thesis
      by (simp add: s_def [symmetric] Let_def getForecast_def gate_views_def audited_as_def gate_scores_log_def dashboard_snapshot_def
          getSnapshot_def currentRiskLevel_head get_or_def)
  qed
qed

section \<open>Alerts match the audit log\<close>

text \<open>The levels at which a gate rises from below \<open>HIGH\<close> to \<open>HIGH\<close> or \<open>CRITICAL\<close>.\<close>

fun rising :: "RiskLevel \<Rightarrow> RiskLevel list \<Rightarrow> RiskLevel list" where
  "rising prev [] = []"
| "rising prev (l # ls) = (if \<not> high_or_critical prev \<and> high_or_critical l then [l] else []) @ rising l ls"

definition risk_levels :: "GateId \<Rightarrow> AlertState \<Rightarrow> RiskLevel option list" where
  "risk_levels g alerts = map alert_riskLevel (filter (\<lambda>a. alertType a = RISK_LEVEL \<and> alert_gateId a = g) (map snd alerts))"

definition audited_levels :: "GateId \<Rightarrow> ScoreAuditRecord list \<Rightarrow> RiskLevel list" where
  "audited_levels g rs = map sa_riskLevel (filter (\<lambda>r. sa_gateId r = g) rs)"

lemma rising_append: "rising p (ls @ [l]) = rising p ls @ (if \<not> high_or_critical (last (p # ls)) \<and> high_or_critical l then [l] else [])"
  by (induction ls arbitrary: p) auto

definition alert_ids_ok :: "(nat \<Rightarrow> string) \<Rightarrow> AlertState \<Rightarrow> nat \<Rightarrow> bool" where
  "alert_ids_ok uuid alerts n = (distinct (map fst alerts) \<and> (\<forall>(i, a) \<in> set alerts. alertId a = i \<and> i \<in> uuid ` {..<n}))"

definition alerts_inv :: "(nat \<Rightarrow> string) \<Rightarrow> AlertState \<Rightarrow> (GateId, RiskLevel) jsmap \<Rightarrow> ScoreAuditRecord list \<Rightarrow> nat \<Rightarrow> bool" where
  "alerts_inv uuid alerts previous rs n = (alert_ids_ok uuid alerts n \<and>
     (\<forall>g. risk_levels g alerts = map Some (rising LOW (audited_levels g rs)) \<and>
          get_or previous g LOW = last (LOW # audited_levels g rs)))"

lemma ids_mono: "alert_ids_ok uuid alerts n \<Longrightarrow> alert_ids_ok uuid alerts (Suc n)"
  by (auto simp: alert_ids_ok_def lessThan_Suc)

lemma add_fresh:
  assumes "alert_ids_ok uuid alerts n" "inj uuid" "alertId a = uuid n"
  shows "addAlert a alerts = alerts @ [(alertId a, a)]" "alert_ids_ok uuid (addAlert a alerts) (Suc n)"
proof -
  have "uuid n \<notin> uuid ` {..<n}" using assms(2) by (simp add: inj_image_mem_iff)
  then have fresh: "alertId a \<notin> fst ` set alerts" using assms(1,3) by (auto simp: alert_ids_ok_def)
  then show "addAlert a alerts = alerts @ [(alertId a, a)]" by (simp add: addAlert_def update_fresh)
  then show "alert_ids_ok uuid (addAlert a alerts) (Suc n)"
    using assms(1,3) fresh by (auto simp: alert_ids_ok_def lessThan_Suc)
qed

lemma update_keeps:
  assumes "map_of m i = Some a" "\<pi> a' = \<pi> a" "distinct (map fst m)"
  shows "map \<pi> (map snd (AList.update i a' m)) = map \<pi> (map snd m)"
  using assms by (induction m) auto

definition alert_core :: "Alert \<Rightarrow> AlertType \<times> GateId \<times> RiskLevel option" where
  "alert_core a = (alertType a, alert_gateId a, alert_riskLevel a)"

lemma risk_levels_core: "risk_levels g alerts =
    map (snd \<circ> snd) (filter (\<lambda>c. fst c = RISK_LEVEL \<and> fst (snd c) = g) (map alert_core (map snd alerts)))"
  by (simp add: risk_levels_def filter_map comp_def alert_core_def)

lemma acknowledge_keeps:
  fixes x y :: "string option"
  assumes "alert_ids_ok uuid alerts n" "getAlert i alerts = Some a"
  defines "a' \<equiv> a\<lparr>acknowledgedAt := x, acknowledgedByUserId := y\<rparr>"
  shows "risk_levels g (updateAlert a' alerts) = risk_levels g alerts" "alert_ids_ok uuid (updateAlert a' alerts) n"
proof -
  have d: "distinct (map fst alerts)" and id: "alertId a = i" "map_of alerts i = Some a"
    using assms(1,2) by (auto simp: alert_ids_ok_def getAlert_def dest: map_of_SomeD)
  have "alert_core a' = alert_core a" by (simp add: a'_def alert_core_def)
  from update_keeps [OF id(2) this d] show "risk_levels g (updateAlert a' alerts) = risk_levels g alerts"
    unfolding risk_levels_core by (simp add: updateAlert_def a'_def id(1))
  have el: "\<forall>(j, b) \<in> set alerts. alertId b = j \<and> j \<in> uuid ` {..<n}" "(i, a) \<in> set alerts"
    using assms(1) id by (auto simp: alert_ids_ok_def dest: map_of_SomeD)
  then have "i \<in> uuid ` {..<n}" by blast
  moreover have "alertId a' = i" by (simp add: a'_def id(1))
  ultimately have "\<forall>(j, b) \<in> set (AList.update i a' alerts). alertId b = j \<and> j \<in> uuid ` {..<n}"
    using el(1) set_AList_update [of i a' alerts] by blast
  then show "alert_ids_ok uuid (updateAlert a' alerts) n"
    using d by (simp add: alert_ids_ok_def updateAlert_def distinct_update \<open>alertId a' = i\<close>)
qed

lemma alerts_update:
  assumes "alerts_inv uuid alerts previous rs n" "inj uuid" "sa_gateId r = g" "sa_riskLevel r = l"
    and "a = map_option va_alert (checkRiskLevelTransition (uuid n) g (get_or previous g LOW) l t)"
  shows "alerts_inv uuid (case a of Some a \<Rightarrow> addAlert a alerts | None \<Rightarrow> alerts) (AList.update g l previous) (rs @ [r]) (Suc n)"
proof -
  have ids: "alert_ids_ok uuid alerts n" using assms(1) by (simp add: alerts_inv_def)
  have lv: "audited_levels g' (rs @ [r]) = audited_levels g' rs @ (if g' = g then [l] else [])" for g'
    using assms(3,4) by (simp add: audited_levels_def)
  have prev: "get_or previous g' LOW = last (LOW # audited_levels g' rs)"
    "risk_levels g' alerts = map Some (rising LOW (audited_levels g' rs))" for g'
    using assms(1) by (simp_all add: alerts_inv_def)
  show ?thesis
  proof (cases a)
    case None
    then have "\<not> (\<not> high_or_critical (get_or previous g LOW) \<and> high_or_critical l)"
      using assms(5) by (auto simp: checkRiskLevelTransition_def Let_def split: if_splits)
    then show ?thesis
      using None ids_mono [OF ids] prev by (simp add: alerts_inv_def lv rising_append store_simps)
  next
    case (Some x)
    then have x: "alertId x = uuid n" "alertType x = RISK_LEVEL" "alert_gateId x = g" "alert_riskLevel x = Some l"
      "\<not> high_or_critical (get_or previous g LOW) \<and> high_or_critical l"
      using assms(5) by (auto simp: checkRiskLevelTransition_def Let_def split: if_splits)
    note add = add_fresh [OF ids assms(2) x(1)]
    have "risk_levels g' (addAlert x alerts) = risk_levels g' alerts @ (if g' = g then [Some l] else [])" for g'
      using x by (simp add: add(1) risk_levels_def)
    then show ?thesis
      using Some add(2) prev x(5) by (simp add: alerts_inv_def lv rising_append store_simps)
  qed
qed

definition alerts_match :: "PipelineConfig \<Rightarrow> PipelineState \<Rightarrow> bool" where
  "alerts_match cfg s = alerts_inv (cfg_uuid cfg) (alertStore s) (previousRiskLevelByGate s) (scores_log s) (p_draws s)"

lemma check_gate_alerts:
  "p_draws (check_gate_quality cfg g s) = Suc (p_draws s)"
  "alertStore (check_gate_quality cfg g s) =
    (if fst (allSourcesDegraded (gate_id g) (p_clock s) (p_redis s))
     then addAlert (buildDataQualityAlert (cfg_uuid cfg (p_draws s)) (gate_id g) ALL_SOURCE_TYPES (p_clock s)) (alertStore s)
     else alertStore s)"
proof -
  have st: "map sourceType (fst (getStatus i t r)) = ALL_SOURCE_TYPES" "fst (getStatus i t r) \<noteq> []" for i t r
    unfolding getStatus_def statuses_of_eq by (simp_all add: ALL_SOURCE_TYPES_def)
  have "fst (allSourcesDegraded i t r) = list_all is_degraded (fst (getStatus i t r))" for i t r
    by (simp add: allSourcesDegraded_def case_prod_beta)
  then show "p_draws (check_gate_quality cfg g s) = Suc (p_draws s)"
    "alertStore (check_gate_quality cfg g s) =
      (if fst (allSourcesDegraded (gate_id g) (p_clock s) (p_redis s))
       then addAlert (buildDataQualityAlert (cfg_uuid cfg (p_draws s)) (gate_id g) ALL_SOURCE_TYPES (p_clock s)) (alertStore s)
       else alertStore s)"
    by (simp_all add: check_gate_quality_def raiseDataQualityAlertIfAllDegraded_def case_prod_beta Let_def st publishAlert_def draw_def)
qed

lemma alerts_quality:
  assumes "alerts_match cfg s" "inj (cfg_uuid cfg)"
  shows "alerts_match cfg (check_gate_quality cfg g s)"
proof -
  have ids: "alert_ids_ok (cfg_uuid cfg) (alertStore s) (p_draws s)" using assms(1) by (simp add: alerts_match_def alerts_inv_def)
  let ?a = "buildDataQualityAlert (cfg_uuid cfg (p_draws s)) (gate_id g) ALL_SOURCE_TYPES (p_clock s)"
  have "alertId ?a = cfg_uuid cfg (p_draws s)" "alertType ?a = DATA_QUALITY" by (simp_all add: buildDataQualityAlert_def)
  note add = add_fresh [OF ids assms(2) this(1)] this(2)
  have "risk_levels g' (addAlert ?a (alertStore s)) = risk_levels g' (alertStore s)" for g'
    by (simp add: add(1,3) risk_levels_def)
  then show ?thesis
    using assms(1) add(2) ids_mono [OF ids] by (simp add: alerts_match_def alerts_inv_def check_gate_alerts)
qed

lemma alerts_publish:
  assumes "alerts_match cfg s" "p_subscribed s" "scores result = p # ps" "inj (cfg_uuid cfg)"
  shows "alerts_match cfg (score_effect cfg \<lparr>csm_gate = gate, csm_result = result\<rparr> (store_forecast gate result s))"
  using assms(1) unfolding alerts_match_def score_effect_fields [OF assms(3,2)]
  by (rule alerts_update [OF _ assms(4)]) (simp_all add: score_audit_def risk_alert_def)

lemma alerts_invariant:
  assumes "inj (cfg_uuid (sc_pipeline sc))"
  shows "server_invariant sc (alerts_match (sc_pipeline sc))"
proof
  fix s i a x y
  assume s: "alerts_match (sc_pipeline sc) s" and a: "getAlert i (alertStore s) = Some a"
  from s have ids: "alert_ids_ok (cfg_uuid (sc_pipeline sc)) (alertStore s) (p_draws s)" by (simp add: alerts_match_def alerts_inv_def)
  from s acknowledge_keeps [OF ids a]
  show "alerts_match (sc_pipeline sc) (s\<lparr>alertStore := updateAlert (a\<lparr>acknowledgedAt := x, acknowledgedByUserId := y\<rparr>) (alertStore s)\<rparr>)"
    by (simp add: alerts_match_def alerts_inv_def)
next
  show "alerts_match (sc_pipeline sc) (draw s)" if "alerts_match (sc_pipeline sc) s" for s
    using that by (simp add: alerts_match_def alerts_inv_def draw_def ids_mono)
qed (simp_all add: alerts_publish alerts_quality assms, simp_all add: alerts_match_def appendToWindow_def Let_def stop_def)

lemma alerts_startup: "alerts_match (sc_pipeline sc) (startup sc now)"
  by (simp add: alerts_match_def alerts_inv_def alert_ids_ok_def risk_levels_def audited_levels_def startup_def initial_def Let_def
      empty_audit_def)

text \<open>C4. Alerts and audit, in every state the server reaches, when no two drawn ids are equal: the risk alerts
  stored for a gate are, in order, exactly the rises from below \<open>HIGH\<close> to \<open>HIGH\<close> or \<open>CRITICAL\<close> in the
  levels of the scores audited for it, counting from \<open>LOW\<close>. None is missing, none is duplicated
  by another, and acknowledging removes none; a rise from \<open>HIGH\<close> to \<open>CRITICAL\<close> raises none.\<close>

theorem alerts_match_audit:
  assumes "inj (cfg_uuid (sc_pipeline sc))"
  shows "risk_levels g (alertStore (reached sc now ops)) =
      map Some (rising LOW (map sa_riskLevel (gate_scores_log g (reached sc now ops)))) \<and>
    distinct (map (alertId \<circ> snd) (alertStore (reached sc now ops)))"
proof -
  let ?s = "reached sc now ops"
  have "alerts_match (sc_pipeline sc) ?s"
    using server_invariant.run_ok [OF alerts_invariant [OF assms] alerts_startup] .
  then have i: "alerts_inv (cfg_uuid (sc_pipeline sc)) (alertStore ?s) (previousRiskLevelByGate ?s) (scores_log ?s) (p_draws ?s)"
    by (simp add: alerts_match_def)
  then have e: "map (alertId \<circ> snd) (alertStore ?s) = map fst (alertStore ?s)" and d: "distinct (map fst (alertStore ?s))"
    by (auto simp: alerts_inv_def alert_ids_ok_def)
  show ?thesis unfolding e using i d by (simp add: alerts_inv_def audited_levels_def gate_scores_log_def)
qed

text \<open>A server of the demo topology, for the examples.\<close>

definition demo_uuid :: "nat \<Rightarrow> string" where
  "demo_uuid n = replicate n CHR ''u'' @ ''-''"

text \<open>The two slashes alone name no host; the demo requests have no other query parameter than the key.\<close>

definition demo_parse_url :: "string \<Rightarrow> (string \<times> string option) option" where
  "demo_parse_url target =
     (if target = ''//'' then None
      else
        (let query = dropWhile (\<lambda>c. c \<noteq> CHR ''?'') target
         in Some (takeWhile (\<lambda>c. c \<noteq> CHR ''?'') target,
              if take 8 query = ''?apiKey='' then Some (drop 8 query) else None)))"

definition demo_server :: ServerConfig where
  "demo_server = \<lparr>sc_pipeline = \<lparr>cfg_gates = DEMO_GATES, cfg_routes = DEMO_ROUTES, cfg_lc = code_unit_compare,
       cfg_uuid = demo_uuid, cfg_race = (\<lambda>n. Computed)\<rparr>,
     sc_apiKeys = [(''k1'', [INGESTION_SOURCE]), (''k2'', [VENUE_OPS_MANAGER])],
     sc_safeParse = reference_safe_parse (\<lambda>s. date_parse s \<noteq> None), sc_allowedOrigins = [], sc_parseUrl = demo_parse_url\<rparr>"

lemma demo_uuid_inj: "inj demo_uuid"
proof (rule injI)
  fix a b :: nat
  assume "demo_uuid a = demo_uuid b"
  then have "length (demo_uuid a) = length (demo_uuid b)" by simp
  then show "a = b" by (simp add: demo_uuid_def)
qed

lemma alerts_match_audit_witness:
  "risk_levels ''gate-a'' (alertStore (reached demo_server 0 [Elapse 30000, GateTick 0, DataQualityTick, NudgeWorkerTick, GateTick 1])) =
    map Some (rising LOW (map sa_riskLevel (gate_scores_log ''gate-a''
      (reached demo_server 0 [Elapse 30000, GateTick 0, DataQualityTick, NudgeWorkerTick, GateTick 1]))))"
proof -
  have "inj (cfg_uuid (sc_pipeline demo_server))" using demo_uuid_inj by (simp add: demo_server_def)
  from alerts_match_audit [OF this] show ?thesis by blast
qed

section \<open>Data quality\<close>

definition all_degraded :: "GateId \<Rightarrow> PipelineState \<Rightarrow> bool" where
  "all_degraded g s = (\<forall>src. fst (isDegraded src g (p_clock s) (p_redis s)))"

lemma degraded_after_status:
  "fst (isDegraded src i t (snd (statuses_of ss j t r))) = fst (isDegraded src i t r)"
  by (induction ss arbitrary: r) (simp_all add: case_prod_beta isDegraded_twice)

lemma degraded_after_all: "fst (isDegraded src i t (snd (allSourcesDegraded j t r))) = fst (isDegraded src i t r)"
  by (simp add: allSourcesDegraded_def getStatus_def case_prod_beta degraded_after_status)

lemma check_gate_fields:
  "p_clock (check_gate_quality cfg g s) = p_clock s"
  "all_degraded i (check_gate_quality cfg g s) = all_degraded i s"
  "dataQualitySource (check_gate_quality cfg g s) = setDegraded (gate_id g) (all_degraded (gate_id g) s) (dataQualitySource s)"
  by (simp_all add: check_gate_quality_def raiseDataQualityAlertIfAllDegraded_def case_prod_beta Let_def all_degraded_def
      degraded_after_all degraded_after_status getStatus_def allSourcesDegraded_iff)

definition quality_alerts :: "Gate list \<Rightarrow> PipelineState \<Rightarrow> (GateId \<times> AlertType \<times> SignalSource list option \<times> string) list" where
  "quality_alerts gates s = map (\<lambda>g. (gate_id g, DATA_QUALITY, Some [GATE_COUNTER, TICKET_SCANNER, TRANSIT_FEED], toISOString (p_clock s)))
     (filter (\<lambda>g. all_degraded (gate_id g) s) gates)"

definition alert_facts :: "Alert \<Rightarrow> GateId \<times> AlertType \<times> SignalSource list option \<times> string" where
  "alert_facts a = (alert_gateId a, alertType a, affectedSources a, raisedAt a)"

lemma check_gates:
  assumes "alert_ids_ok (cfg_uuid cfg) (alertStore s) (p_draws s)" "inj (cfg_uuid cfg)"
  shows "(\<forall>i. hasDegradedSource i (dataQualitySource (fold (check_gate_quality cfg) gs s)) =
      (if i \<in> gate_id ` set gs then all_degraded i s else hasDegradedSource i (dataQualitySource s))) \<and>
    (\<exists>new. map snd (alertStore (fold (check_gate_quality cfg) gs s)) = map snd (alertStore s) @ new \<and>
      map alert_facts new = quality_alerts gs s)"
  using assms(1)
proof (induction gs arbitrary: s)
  case Nil
  then show ?case by (simp add: quality_alerts_def)
next
  case (Cons g gs)
  let ?s1 = "check_gate_quality cfg g s"
  let ?a = "buildDataQualityAlert (cfg_uuid cfg (p_draws s)) (gate_id g) ALL_SOURCE_TYPES (p_clock s)"
  have a: "alertId ?a = cfg_uuid cfg (p_draws s)" by (simp add: buildDataQualityAlert_def)
  note add = add_fresh [OF Cons.prems assms(2) a]
  have "alert_ids_ok (cfg_uuid cfg) (alertStore ?s1) (p_draws ?s1)"
    using add(2) ids_mono [OF Cons.prems] by (simp add: check_gate_alerts)
  note IH = Cons.IH [OF this]
  then obtain new where new: "map snd (alertStore (fold (check_gate_quality cfg) gs ?s1)) = map snd (alertStore ?s1) @ new"
    "map alert_facts new = quality_alerts gs ?s1" by blast
  have q: "quality_alerts gs ?s1 = quality_alerts gs s" by (simp add: quality_alerts_def check_gate_fields)
  have all: "all_degraded (gate_id g) s = fst (allSourcesDegraded (gate_id g) (p_clock s) (p_redis s))"
    by (simp add: all_degraded_def allSourcesDegraded_iff)
  have "\<exists>new. map snd (alertStore (fold (check_gate_quality cfg) gs ?s1)) = map snd (alertStore s) @ new \<and>
      map alert_facts new = quality_alerts (g # gs) s"
  proof (cases "all_degraded (gate_id g) s")
    case True
    then have "map snd (alertStore ?s1) = map snd (alertStore s) @ [?a]" by (simp add: check_gate_alerts all [symmetric] add(1))
    moreover have "alert_facts ?a = (gate_id g, DATA_QUALITY, Some [GATE_COUNTER, TICKET_SCANNER, TRANSIT_FEED], toISOString (p_clock s))"
      by (simp add: alert_facts_def buildDataQualityAlert_def ALL_SOURCE_TYPES_def)
    ultimately show ?thesis
      using new q True by (intro exI [of _ "?a # new"]) (simp add: quality_alerts_def)
  next
    case False
    then have "alertStore ?s1 = alertStore s" by (simp add: check_gate_alerts all [symmetric])
    with new q False show ?thesis by (intro exI [of _ new]) (simp add: quality_alerts_def)
  qed
  moreover have "hasDegradedSource i (dataQualitySource (fold (check_gate_quality cfg) gs ?s1)) =
      (if i \<in> gate_id ` set (g # gs) then all_degraded i s else hasDegradedSource i (dataQualitySource s))" for i
    using IH data_quality.get_modify [of i "gate_id g" "\<lambda>_. all_degraded (gate_id g) s" "dataQualitySource s"]
    by (auto simp: check_gate_fields)
  ultimately show ?case by simp
qed

text \<open>C36. One data quality check of a running server: the indicator of every configured gate becomes true
  exactly when all three of its sources are degraded at that moment, and the other indicators stay.
  For exactly these gates one alert that names the three sources is added, in the order of the
  gates, after the alerts stored before, none of which changes; a gate that stays degraded gets
  another alert at every check.\<close>

theorem data_quality_check:
  assumes "inj (cfg_uuid (sc_pipeline sc))" "s = reached sc now ops" "p_workers s"
    "s' = snd (server_step sc DataQualityTick s)"
  shows "(\<forall>i. hasDegradedSource i (dataQualitySource s') =
      (if i \<in> gate_id ` set (cfg_gates (sc_pipeline sc)) then \<forall>src. fst (isDegraded src i (p_clock s) (p_redis s))
       else hasDegradedSource i (dataQualitySource s))) \<and>
    (\<exists>new. map snd (alertStore s') = map snd (alertStore s) @ new \<and>
      map (\<lambda>a. (alert_gateId a, alertType a, affectedSources a, raisedAt a)) new =
      map (\<lambda>g. (gate_id g, DATA_QUALITY, Some [GATE_COUNTER, TICKET_SCANNER, TRANSIT_FEED], toISOString (p_clock s)))
        (filter (\<lambda>g. \<forall>src. fst (isDegraded src (gate_id g) (p_clock s) (p_redis s))) (cfg_gates (sc_pipeline sc))))"
proof -
  have "alerts_match (sc_pipeline sc) s"
    using server_invariant.run_ok [OF alerts_invariant [OF assms(1)] alerts_startup] assms(2) by simp
  then have "alert_ids_ok (cfg_uuid (sc_pipeline sc)) (alertStore s) (p_draws s)" by (simp add: alerts_match_def alerts_inv_def)
  from check_gates [OF this assms(1), of "cfg_gates (sc_pipeline sc)"] show ?thesis
    unfolding all_degraded_def quality_alerts_def alert_facts_def using assms(3,4) by (simp add: data_quality_tick_def)
qed

lemma fresh_degraded: "fst (isDegraded src g t empty_redis)"
  using degraded_untouched [of "[]" t src g] by (simp add: run_tracker_def)

lemma data_quality_check_witness:
  "map (\<lambda>a. (alert_gateId a, alertType a, affectedSources a)) (map snd (alertStore (snd (server_step demo_server DataQualityTick (reached demo_server 0 []))))) =
    map (\<lambda>g. (g, DATA_QUALITY, Some [GATE_COUNTER, TICKET_SCANNER, TRANSIT_FEED])) [''gate-a'', ''gate-b'', ''gate-c'']"
proof -
  have i: "inj (cfg_uuid (sc_pipeline demo_server))" using demo_uuid_inj by (simp add: demo_server_def)
  let ?s = "reached demo_server 0 []"
  have w: "p_workers ?s" "alertStore ?s = []" "p_redis ?s = empty_redis" by (simp_all add: startup_def initial_def Let_def)
  obtain new where new: "map snd (alertStore (snd (server_step demo_server DataQualityTick ?s))) = new"
    "map (\<lambda>a. (alert_gateId a, alertType a, affectedSources a, raisedAt a)) new =
      map (\<lambda>g. (gate_id g, DATA_QUALITY, Some [GATE_COUNTER, TICKET_SCANNER, TRANSIT_FEED], toISOString (p_clock ?s))) DEMO_GATES"
    using data_quality_check [OF i refl w(1) refl] w by (auto simp: fresh_degraded demo_server_def)
  have "map (\<lambda>(g, t, a, r). (g, t, a)) (map (\<lambda>a. (alert_gateId a, alertType a, affectedSources a, raisedAt a)) new) =
      map (\<lambda>a. (alert_gateId a, alertType a, affectedSources a)) new" by simp
  then show ?thesis unfolding new by (simp add: DEMO_GATES_def)
qed

end
