(* ===== verification/Endpoints.thy ===== *)
theory Endpoints
  imports Guarantees
begin

text \<open>
  What the endpoints of the server promise their clients: who may do what, and what executing an action,
  rejecting a redirection and posting a signal change.
\<close>

section \<open>Access control\<close>

text \<open>The roles a request's key is configured with.\<close>

definition key_roles :: "ServerConfig \<Rightarrow> string option \<Rightarrow> Role list option" where
  "key_roles sc key = (if truthy_str key then map_of (sc_apiKeys sc) (the key) else None)"

fun permitted :: "ServerConfig \<Rightarrow> server_op \<Rightarrow> bool" where
  "permitted sc (Request req ep) =
     (case allowed_roles ep of None \<Rightarrow> True
      | Some roles \<Rightarrow> (case key_roles sc (extractApiKey req) of None \<Rightarrow> False | Some granted \<Rightarrow> \<exists>r \<in> set granted. r \<in> set roles))"
| "permitted sc (OpenStream c target) =
     (case sc_parseUrl sc target of None \<Rightarrow> False
      | Some (path, key) \<Rightarrow> path = ''/v1/dashboard/stream'' \<and>
          (case key_roles sc key of None \<Rightarrow> False | Some granted \<Rightarrow> \<exists>r \<in> set granted. r \<in> set DASHBOARD_STREAM_ROLES))"
| "permitted sc op = True"

text \<open>The requests that only read.\<close>

fun reading :: "server_op \<Rightarrow> bool" where
  "reading (Request req ep) = (case ep of
       PostSignal b \<Rightarrow> False | GetSourceStatus i \<Rightarrow> False | PostExecute g i u \<Rightarrow> False | PostAccept r i d \<Rightarrow> False
     | PostReject r i d \<Rightarrow> False | PostAcknowledge i u \<Rightarrow> False | _ \<Rightarrow> True)"
| "reading op = False"

definition keys_ok :: "ServerConfig \<Rightarrow> bool" where
  "keys_ok sc = (distinct (map fst (sc_apiKeys sc)) \<and> (\<forall>k \<in> fst ` set (sc_apiKeys sc). short_key k))"

lemma extract_truthy: "extractApiKey req = Some key \<Longrightarrow> key \<noteq> []"
  by (auto simp: extractApiKey_def bearer_match_def Let_def split: if_splits option.splits)

lemma guarded:
  assumes "keys_ok sc" "allowed_roles ep = Some roles"
  shows "handle_request sc req ep s = (case key_roles sc (extractApiKey req) of
      None \<Rightarrow> ((401, ErrorBody ''Unauthorized''), s)
    | Some granted \<Rightarrow> if \<exists>r \<in> set granted. r \<in> set roles then route_handler sc ep s else ((403, ErrorBody ''Forbidden''), s))"
proof -
  have e: "(filter (\<lambda>r. r \<in> set roles) granted = []) = (\<not> (\<exists>r \<in> set granted. r \<in> set roles))" for granted
    by (auto simp: filter_empty_conv)
  have c: "(case filter (\<lambda>r. r \<in> set roles) granted of [] \<Rightarrow> a | r # rs \<Rightarrow> b) =
      (if \<exists>r \<in> set granted. r \<in> set roles then b else a)" for granted a and b :: "response \<times> PipelineState"
    using e [of granted] by (cases "filter (\<lambda>r. r \<in> set roles) granted") (simp_all only: list.case list.distinct if_True if_False simp_thms)
  note r = requireRole_spec [of "sc_apiKeys sc" roles req]
  show ?thesis
  proof (cases "extractApiKey req")
    case None
    then show ?thesis using assms r by (simp add: handle_request_def keys_ok_def key_roles_def)
  next
    case (Some key)
    then have k: "key_roles sc (extractApiKey req) = map_of (sc_apiKeys sc) key"
      using extract_truthy by (simp add: key_roles_def)
    show ?thesis
    proof (cases "map_of (sc_apiKeys sc) key")
      case None
      then show ?thesis using assms r Some k by (simp add: handle_request_def keys_ok_def)
    next
      case (Some granted)
      have "handle_request sc req ep s = (case filter (\<lambda>r. r \<in> set roles) granted of
          [] \<Rightarrow> ((403, ErrorBody ''Forbidden''), s) | r # rs \<Rightarrow> route_handler sc ep s)"
        using assms r Some \<open>extractApiKey req = Some key\<close>
        by (simp add: handle_request_def keys_ok_def split: list.splits del: route_handler.simps)
      then show ?thesis unfolding k Some c by simp
    qed
  qed
qed

lemma upgrade_permitted:
  assumes "keys_ok sc"
  shows "(upgrade (sc_parseUrl sc) (sc_apiKeys sc) target = Upgraded) = permitted sc (OpenStream c target)"
proof -
  have "verifyApiKey (sc_apiKeys sc) key = key_roles sc key" for key
    using assms verify_short [of "sc_apiKeys sc" "the key"]
    by (cases key) (auto simp: keys_ok_def key_roles_def verifyApiKey_def)
  then show ?thesis by (auto simp: upgrade_def list_ex_iff Let_def split: option.splits)
qed

lemma refused_frame:
  assumes "keys_ok sc" "\<not> permitted sc op \<or> reading op" "\<not> stops sc op"
  shows "snd (server_step sc op s) = s"
proof (cases op)
  case (Request req ep)
  have "snd (handle_request sc req ep s) = s"
  proof (cases "allowed_roles ep")
    case None
    with assms(2) Request show ?thesis by (cases ep) (simp_all add: handle_request_def)
  next
    case (Some roles)
    have "snd (route_handler sc ep s) = s" if "reading op"
      using that Request by (cases ep) (simp_all add: get_handler_defs Let_def)
    with assms(2) Some Request show ?thesis
      by (auto simp: guarded [OF assms(1) Some] simp del: route_handler.simps reading.simps split: option.splits)
  qed
  with Request show ?thesis by (simp add: case_prod_beta Let_def)
next
  case (OpenStream c target)
  with assms show ?thesis
    using upgrade_permitted [OF assms(1), of target c]
    by (auto simp: open_stream_def upgrade_thrown simp del: permitted.simps split: upgrade_result.splits)
qed (use assms(2) in simp_all)

lemma run_refused:
  assumes "keys_ok sc"
  shows "snd (run_server sc (filter (\<lambda>op. stops sc op \<or> permitted sc op \<and> \<not> reading op) ops) s) = snd (run_server sc ops s)"
proof (induction ops arbitrary: s)
  case (Cons op ops)
  show ?case
    using Cons.IH refused_frame [OF assms, of op s]
    by (cases "stops sc op \<or> permitted sc op \<and> \<not> reading op") (auto simp add: case_prod_beta Let_def simp del: server_step.simps permitted.simps reading.simps)
qed simp

lemma auditor_frame:
  assumes "keys_ok sc" "key_roles sc (extractApiKey req) = Some granted" "set granted \<subseteq> {AUDITOR}"
  shows "(snd (server_step sc (Request req ep) s))\<lparr>p_redis := p_redis s\<rparr> = s"
proof (cases "\<not> permitted sc (Request req ep) \<or> reading (Request req ep)")
  case True
  then show ?thesis using refused_frame [OF assms(1) True, of s] by simp
next
  case False
  then obtain i where ep: "ep = GetSourceStatus i"
    using assms(2,3) by (cases ep) (auto split: option.splits)
  have "(snd (get_source_status i s))\<lparr>p_redis := p_redis s\<rparr> = s" by (simp add: get_source_status_def case_prod_beta)
  moreover have "snd (server_step sc (Request req ep) s) \<in> {s, snd (get_source_status i s)}"
    using assms(2) guarded [OF assms(1), of ep _ req s] by (simp add: ep case_prod_beta Let_def)
  ultimately show ?thesis by auto
qed

text \<open>C12. Access control, for a configuration of distinct keys of at most 256 bytes. Over every run, requests
  without a key of a fitting role, unauthorised attempts to open the stream whose target is a URL, and the reading requests
  leave no trace: the final state is the one of the run without them. An attempt whose target is no URL
  is not refused but, with whatever key, ends the service: the exception is thrown before the key is looked at. A refused request is answered 401 when its
  key is absent or unknown and 403 when its roles do not fit. A key with no role but \<open>AUDITOR\<close> changes nothing at all, save that reading
  the status of a source drops expired entries of the redis store.\<close>

theorem access_control:
  assumes "keys_ok sc"
  shows "snd (run_server sc (filter (\<lambda>op. stops sc op \<or> permitted sc op \<and> \<not> reading op) ops) s) = snd (run_server sc ops s) \<and>
    (\<forall>c target. server_step sc (OpenStream c target) s =
      (None, if sc_parseUrl sc target = None then shutdownServer sc s
        else if permitted sc (OpenStream c target) then s\<lparr>dashboardHub := register c (dashboardHub s)\<rparr> else s)) \<and>
    (\<forall>req ep. permitted sc (Request req ep) \<or> server_step sc (Request req ep) s =
      (Some (if key_roles sc (extractApiKey req) = None then (401, ErrorBody ''Unauthorized'') else (403, ErrorBody ''Forbidden'')), s)) \<and>
    (\<forall>req ep granted. key_roles sc (extractApiKey req) = Some granted \<and> set granted \<subseteq> {AUDITOR} \<longrightarrow>
      (snd (server_step sc (Request req ep) s))\<lparr>p_redis := p_redis s\<rparr> = s)"
proof (intro conjI allI impI)
  fix c target
  show "server_step sc (OpenStream c target) s =
      (None, if sc_parseUrl sc target = None then shutdownServer sc s
        else if permitted sc (OpenStream c target) then s\<lparr>dashboardHub := register c (dashboardHub s)\<rparr> else s)"
    using upgrade_permitted [OF assms, of target c] upgrade_thrown [of "sc_parseUrl sc" "sc_apiKeys sc" target]
    by (cases "upgrade (sc_parseUrl sc) (sc_apiKeys sc) target") (auto simp: open_stream_def simp del: permitted.simps)
next
  fix req ep
  show "permitted sc (Request req ep) \<or> server_step sc (Request req ep) s =
      (Some (if key_roles sc (extractApiKey req) = None then (401, ErrorBody ''Unauthorized'') else (403, ErrorBody ''Forbidden'')), s)"
    using guarded [OF assms, of ep _ req s]
    by (cases "allowed_roles ep"; cases "key_roles sc (extractApiKey req)") (auto simp: case_prod_beta Let_def)
qed (simp_all only: run_refused [OF assms], elim conjE, rule auditor_frame [OF assms])

text \<open>A server with an ingesting and an auditing client.\<close>

definition guarded_server :: ServerConfig where
  "guarded_server = demo_server\<lparr>sc_apiKeys := [(''k0'', [INGESTION_SOURCE]), (''k1'', [AUDITOR])]\<rparr>"

lemma guarded_keys: "keys_ok guarded_server"
  by (simp add: keys_ok_def guarded_server_def short_key_def utf8_char_def MAX_KEY_LENGTH_def)

definition demo_request :: http_request where
  "demo_request = \<lparr>header_Authorization = Some ''bearer  k1'', header_X_API_Key = None\<rparr>"

lemma demo_request_key: "extractApiKey demo_request = Some ''k1''"
  by (simp add: extractApiKey_def demo_request_def bearer_match_def trim_def is_space_def to_lower_def char_of_def)

lemma access_control_witness:
  "snd (run_server guarded_server [Request demo_request (PostAcknowledge ''u-'' ''eve''), Request demo_request (PostSignal JNull)] (startup guarded_server 0))
    = startup guarded_server 0 \<and>
   server_step guarded_server (Request demo_request (PostSignal JNull)) (startup guarded_server 0)
    = (Some (403, ErrorBody ''Forbidden''), startup guarded_server 0) \<and>
   server_step guarded_server (OpenStream 1 ''//'') (startup guarded_server 0) = (None, shutdownServer guarded_server (startup guarded_server 0))"
proof -
  have k: "key_roles guarded_server (extractApiKey demo_request) = Some [AUDITOR]"
    by (simp add: key_roles_def demo_request_key guarded_server_def)
  then have "\<not> permitted guarded_server (Request demo_request (PostAcknowledge i u))"
    "\<not> permitted guarded_server (Request demo_request (PostSignal b))" for i u b by simp_all
  note n = this
  let ?s = "startup guarded_server 0" and ?ack = "Request demo_request (PostAcknowledge ''u-'' ''eve'')"
  let ?sig = "Request demo_request (PostSignal JNull)"
  note ac = access_control [OF guarded_keys, of "[?ack, ?sig]" ?s]
  have "filter (\<lambda>op. stops guarded_server op \<or> permitted guarded_server op \<and> \<not> reading op) [?ack, ?sig] = []"
    using n by (simp del: permitted.simps)
  with ac [THEN conjunct1] have "snd (run_server guarded_server [?ack, ?sig] ?s) = ?s"
    by (simp only: run_server.simps(1) snd_conv)
  moreover have "server_step guarded_server ?sig ?s = (Some (403, ErrorBody ''Forbidden''), ?s)"
    using ac [THEN conjunct2, THEN conjunct2, THEN conjunct1, rule_format, of demo_request "PostSignal JNull"] n(2) [of JNull]
    by (simp only: k simp_thms option.distinct if_False)
  moreover have "server_step guarded_server (OpenStream 1 ''//'') ?s = (None, shutdownServer guarded_server ?s)"
    using ac [THEN conjunct2, THEN conjunct1, rule_format, of 1 "''//''"]
    by (simp add: guarded_server_def demo_server_def demo_parse_url_def del: server_step.simps)
  ultimately show ?thesis by blast
qed

section \<open>Executing an action\<close>

definition unexecuted :: "RecommendedAction \<Rightarrow> bool" where
  "unexecuted a = (executedAt a = None \<and> executedByUserId a = None)"

definition plain_audit :: "AuditState \<Rightarrow> bool" where
  "plain_audit w = (\<forall>a \<in> set (map snd (audit_actions w)). unexecuted a)"

lemma generated_unexecuted: "generateRecommendations lc t gate result window = Inr acts \<Longrightarrow> a \<in> set acts \<Longrightarrow> unexecuted a"
  by (auto simp: generateRecommendations_def action_of_def unexecuted_def Let_def split: sum.splits option.splits if_splits)

lemma plain_handle:
  assumes "plain_audit w" "\<forall>a. m = AuditAction a \<longrightarrow> unexecuted a"
  shows "plain_audit (handleMessage memory_repository m w)"
proof (cases m)
  case (AuditAction a)
  have "snd ` set (AList.update (actionId a) a (audit_actions w)) \<subseteq> insert a (snd ` set (audit_actions w))"
    using set_AList_update [of "actionId a" a "audit_actions w"] by force
  then have "b \<in> insert a (snd ` set (audit_actions w))" if "b \<in> snd ` set (AList.update (actionId a) a (audit_actions w))" for b
    using that by blast
  with assms AuditAction show ?thesis by (fastforce simp: handle_memory plain_audit_def)
qed (use assms in \<open>simp_all add: handle_memory writeShuttleRecommendation_def plain_audit_def\<close>)

lemma plain_leaf:
  assumes "plain_audit (nw_audit (p_nudges s))" "\<forall>m'. m = RecommendedActionsMsg m' \<longrightarrow> (\<forall>a \<in> set (ram_actions m'). unexecuted a)"
  shows "plain_audit (nw_audit (p_nudges (leaf_publish m s)))"
proof -
  have "plain_audit (fold (handleMessage memory_repository) ms w)"
    if "plain_audit w" "\<forall>a. AuditAction a \<in> set ms \<longrightarrow> unexecuted a" for ms w
    using that by (induction ms arbitrary: w) (simp_all add: plain_handle)
  moreover have "\<forall>a. AuditAction a \<in> set (leaf_audits m) \<longrightarrow> unexecuted a" using assms(2) by (cases m) auto
  ultimately show ?thesis using assms(1) by (simp add: leaf_publish_def fold_audit_log)
qed

lemma plain_score_body:
  assumes "plain_audit (nw_audit (p_nudges s))" "scores result = p # ps"
  shows "plain_audit (nw_audit (p_nudges (score_body cfg gate result s)))"
proof -
  let ?s1 = "note_forecast cfg gate result (p_clock s) s"
  let ?P = "\<lambda>s. plain_audit (nw_audit (p_nudges s))"
  have "?P (snd (update_actions cfg leaf_publish gate result ?s1))"
    using assms(1) generated_unexecuted
    by (auto simp: update_actions_def onScoreUpdate_def publishActions_def Let_def intro!: plain_leaf split: sum.splits)
  moreover have "?P (publish_redirection leaf_publish r s)" if "?P s" for r s
    using that by (simp add: publish_redirection_def plain_leaf Let_def)
  then have "?P (fold (publish_redirection leaf_publish) rs s)" if "?P s" for rs s
    using that by (induction rs arbitrary: s) simp_all
  moreover have "?P (fold (\<lambda>n. leaf_publish (FanNudgeMsg n)) ns s)" if "?P s" for ns s
    using that by (induction ns arbitrary: s) (simp_all add: plain_leaf)
  ultimately show ?thesis
    by (simp add: score_body_def generate_nudges_def Let_def split: prod.splits)
qed

text \<open>Neither the audit log nor the dashboard's source of actions holds an executed action.\<close>

definition none_executed :: "PipelineState \<Rightarrow> bool" where
  "none_executed s = (plain_audit (nw_audit (p_nudges s)) \<and> (\<forall>g. \<forall>a \<in> set (sourceActions g (activeActionsSource s)). unexecuted a))"

lemma none_executed_publish:
  assumes "none_executed s" "p_subscribed s" "scores result = p # ps"
  shows "none_executed (score_effect cfg \<lparr>csm_gate = gate, csm_result = result\<rparr> (store_forecast gate result s))"
proof -
  let ?s = "store_forecast gate result s"
  obtain acts where "\<forall>a \<in> set acts. unexecuted a"
    "activeActionsSource (score_body cfg gate result ?s) = setSourceActions (gate_id gate) acts (activeActionsSource ?s)"
    using score_body_actions [OF assms(3)] generated_unexecuted by metis
  moreover have "plain_audit (nw_audit (p_nudges (score_body cfg gate result ?s)))"
    using assms(1) by (intro plain_score_body [OF _ assms(3)]) (simp add: none_executed_def)
  ultimately show ?thesis
    using assms(1,2) by (simp add: none_executed_def score_effect_eq [OF assms(3)] audit_message_log plain_handle
        sourceActions_def setSourceActions_def store_simps del: handleMessage.simps)
qed

lemma check_gate_source: "activeActionsSource (check_gate_quality cfg g s) = activeActionsSource s"
  by (simp add: check_gate_quality_def raiseDataQualityAlertIfAllDegraded_def Let_def split: prod.splits)

interpretation unexecuted: server_invariant sc none_executed for sc
  by unfold_locales (simp_all add: none_executed_publish, simp_all add: none_executed_def plain_audit_def appendToWindow_def
      Let_def stop_def audit_message_log handle_memory writeValidationError_def check_gate_source)

lemma unexecuted_startup: "none_executed (startup sc now)"
  by (simp add: none_executed_def plain_audit_def startup_def initial_def Let_def empty_audit_def sourceActions_def get_or_def)

lemma execute_cases:
  obtains (missing) "i \<notin> actionId ` set (getActiveActions g (activeActionsStore s))"
      "post_execute g i u s = ((404, ErrorBody ''Action not found''), s)"
  | (found) a b xs ys s' where "getActiveActions g (activeActionsStore s) = xs @ b # ys" "actionId b = i"
      "a = b\<lparr>executedAt := Some (toISOString (p_clock s)), executedByUserId := Some u\<rparr>"
      "post_execute g i u s = ((200, ActionBody a), s\<lparr>activeActionsStore := s'\<rparr>)"
      "getActiveActions g s' = xs @ a # ys"
proof -
  note spec = engine_actions.execute_spec [where g = g and i = i and u = u and now = "p_clock s" and s = "activeActionsStore s"]
  obtain r s' where e: "executeAction getActiveActions setActiveActions g i u (p_clock s) (activeActionsStore s) = (r, s')"
    by fastforce
  show thesis
  proof (cases r)
    case None
    with spec e have "i \<notin> actionId ` set (getActiveActions g (activeActionsStore s))" "s' = activeActionsStore s" by auto
    with None e show thesis by (intro missing) (simp_all add: post_execute_def found_or_404_def)
  next
    case (Some a)
    with spec e obtain xs b ys where "getActiveActions g (activeActionsStore s) = xs @ b # ys" "actionId b = i"
      "a = b\<lparr>executedAt := Some (toISOString (p_clock s)), executedByUserId := Some u\<rparr>" "getActiveActions g s' = xs @ a # ys"
      by auto
    with Some e show thesis by (intro found [of xs b ys a s']) (simp_all add: post_execute_def found_or_404_def)
  qed
qed

text \<open>C16. Executing an action, in every state the server reaches: the action of that id gets the time and the
  user in the list the actions endpoint reads, the answer is the updated action, or 404 when the gate has none
  of that id. Nothing else changes, and so neither the dashboard nor the audit log ever shows
  an action as executed, for any gate, range or history.\<close>

theorem execution_not_recorded:
  "let s = reached sc now ops; (resp, s') = post_execute g i u s in
    (if i \<in> actionId ` set (getActiveActions g (activeActionsStore s))
     then (\<exists>xs a b ys. getActiveActions g (activeActionsStore s) = xs @ b # ys \<and> actionId b = i \<and>
         a = b\<lparr>executedAt := Some (toISOString (p_clock s)), executedByUserId := Some u\<rparr> \<and>
         resp = (200, ActionBody a) \<and> getActiveActions g (activeActionsStore s') = xs @ a # ys)
     else resp = (404, ErrorBody ''Action not found'')) \<and>
    s'\<lparr>activeActionsStore := activeActionsStore s\<rparr> = s \<and>
    list_all (\<lambda>snap. list_all (\<lambda>a. executedAt a = None) (snap_activeActions snap)) (dashboard_snapshot gs s') \<and>
    list_all (\<lambda>a. executedAt a = None) (getAuditActions queryActions rg (nw_audit (p_nudges s')))"
proof -
  define s where "s = reached sc now ops"
  have n: "none_executed s" unfolding s_def by (rule unexecuted.run_ok [OF unexecuted_startup])
  have views: "list_all (\<lambda>snap. list_all (\<lambda>a. executedAt a = None) (snap_activeActions snap)) (dashboard_snapshot gs s')"
    "list_all (\<lambda>a. executedAt a = None) (getAuditActions queryActions rg (nw_audit (p_nudges s')))"
    if "none_executed s'" for s'
    using that by (auto simp: none_executed_def plain_audit_def unexecuted_def list_all_iff dashboard_snapshot_def getSnapshot_def
        getAuditActions_def queryActions_def Let_def)
  show ?thesis
  proof (cases rule: execute_cases [of i g s u])
    case missing
    with views [OF n] show ?thesis unfolding s_def [symmetric] Let_def by simp
  next
    case (found a b xs ys s')
    have "none_executed (s\<lparr>activeActionsStore := s'\<rparr>)" using n by (simp add: none_executed_def)
    with found views [OF this] show ?thesis unfolding s_def [symmetric] Let_def by auto
  qed
qed

end
