(* ===== verification/EndToEnd.thy ===== *)
theory EndToEnd
  imports Guarantees
begin

text \<open>
  The path of a signal through the whole server: no recompute ever fails, every gate's timer keeps
  recomputing its forecast until the shutdown, and an accepted signal is in its gate's forecast before the next
  request is served.
\<close>

section \<open>What the ticks and the subscribers leave alone\<close>

definition core :: "PipelineState \<Rightarrow> (GateId, SignalEvent list) jsmap \<times> (Topic \<times> js_error) list \<times> js_error list \<times> ForecastScheduler \<times> bool" where
  "core s = (signalWindowByGate s, p_errors s, p_unhandled s, p_scheduler s, p_subscribed s)"

lemma core_simps [simp]:
  "core (draw s) = core s" "core (s\<lparr>p_redis := r\<rparr>) = core s" "core (audit_message m s) = core s"
  "core (s\<lparr>p_clock := t\<rparr>) = core s" "core (s\<lparr>p_nudges := n\<rparr>) = core s" "core (s\<lparr>p_sent := sent\<rparr>) = core s"
  "core (s\<lparr>dashboardHub := h\<rparr>) = core s" "core (s\<lparr>activeActionsStore := a\<rparr>) = core s"
  "core (s\<lparr>redirectionStore := rs\<rparr>) = core s" "core (s\<lparr>recentRejections := rj\<rparr>) = core s"
  "core (s\<lparr>alertStore := al\<rparr>) = core s" "core (s\<lparr>fansByGate := f\<rparr>) = core s"
  by (simp_all add: core_def)

lemma core_score:
  assumes "scores result = p # ps" "p_subscribed s"
  shows "core (score_effect cfg \<lparr>csm_gate = gate, csm_result = result\<rparr> (store_forecast gate result s)) = core s"
  using assms(2) by (simp add: score_effect_eq [OF assms(1)] core_def)

lemma core_window: "core s = core s' \<Longrightarrow> getWindowForGate g s = getWindowForGate g s'"
  by (simp add: core_def getWindowForGate_def)

lemma core_track: "core (trackFansForEvent e s) = core s"
  by (simp add: trackFansForEvent_def add_fans_def Let_def split: SignalEventPayloadBody.splits option.splits)

lemma core_check: "core (check_gate_quality cfg g s) = core s"
  by (simp add: check_gate_quality_def raiseDataQualityAlertIfAllDegraded_def publishAlert_def core_def Let_def split: prod.splits)

section \<open>A recompute never fails\<close>

definition windows_typed :: "PipelineState \<Rightarrow> bool" where
  "windows_typed s = (\<forall>g. \<forall>e \<in> set (getWindowForGate g s). well_typed_event e)"

lemma fallback_total:
  assumes "proper_capacity gate" "\<forall>e \<in> set window. well_typed_event e"
  obtains r p ps redis' where "computeForecastWithFallback race gate window now redis = (Inr r, redis')" "scores r = p # ps"
    "race = Computed \<longrightarrow> computeForecast gate window now = Inr r"
proof -
  have e: "\<forall>e \<in> set []. well_typed_event e" by simp
  have "\<exists>r redis'. computeForecastWithFallback race gate window now redis = (Inr r, redis') \<and>
      (race = Computed \<longrightarrow> computeForecast gate window now = Inr r)"
    using computeForecast_eq [OF assms, of now] computeForecast_eq [OF assms(1) e, of now]
    by (cases race; cases "getLastKnownScore (gate_id gate) redis")
      (simp_all add: computeForecastWithFallback_def FORECAST_OFFSETS_MINUTES_def Let_def)
  then obtain r redis' where r: "computeForecastWithFallback race gate window now redis = (Inr r, redis')"
    "race = Computed \<longrightarrow> computeForecast gate window now = Inr r" by blast
  moreover obtain p ps where "scores r = p # ps" using fallback_points [OF r(1)] by (auto simp: neq_Nil_conv)
  ultimately show thesis by (intro that)
qed

lemma recompute_total:
  assumes "windows_typed s" "proper_capacity gate" "p_subscribed s"
  obtains r p ps s' where "run_recompute cfg (score_publish cfg) gate s = (None, s')" "scores r = p # ps" "core s' = core s"
    "getLatestForecast (gate_id gate) (forecastStore s') = Some (scores r)"
    "cfg_race cfg (p_draws s) = Computed \<longrightarrow> computeForecast gate (getWindowForGate (gate_id gate) s) (p_clock s) = Inr r"
    "\<And>g. g \<noteq> gate_id gate \<Longrightarrow> getLatestForecast g (forecastStore s') = getLatestForecast g (forecastStore s)"
    "scores_log s' = scores_log s @ [score_audit gate p (getWindowForGate (gate_id gate) s)]"
    "signals_log s' = signals_log s" "errors_log s' = errors_log s"
proof -
  have "\<forall>e \<in> set (getWindowForGate (gate_id gate) s). well_typed_event e" using assms(1) by (simp add: windows_typed_def)
  then obtain r p ps redis' where
    f: "computeForecastWithFallback (cfg_race cfg (p_draws s)) gate (getWindowForGate (gate_id gate) s) (p_clock s) (p_redis s) = (Inr r, redis')"
    "scores r = p # ps"
    "cfg_race cfg (p_draws s) = Computed \<longrightarrow> computeForecast gate (getWindowForGate (gate_id gate) s) (p_clock s) = Inr r"
    by (rule fallback_total [OF assms(2), where race = "cfg_race cfg (p_draws s)" and now = "p_clock s" and redis = "p_redis s"])
  let ?s1 = "(draw s)\<lparr>p_redis := redis'\<rparr>"
  let ?s' = "score_effect cfg \<lparr>csm_gate = gate, csm_result = r\<rparr> (store_forecast gate r ?s1)"
  have sub: "p_subscribed ?s1" using assms(3) by simp
  note fields = score_effect_fields [OF f(2) sub, of cfg gate]
  have w: "getWindowForGate g ?s1 = getWindowForGate g s" for g by (rule core_window) simp
  show thesis
  proof (rule that [of ?s' r p ps])
    show "run_recompute cfg (score_publish cfg) gate s = (None, ?s')" by (simp add: run_recompute_eq f(1))
    show "core ?s' = core s" using core_score [OF f(2) sub, of cfg gate] by simp
  qed (use f(2,3) in \<open>simp_all add: fields w store_simps\<close>)
qed

section \<open>The server stays healthy\<close>

text \<open>What is assumed of the configuration: the validation library keeps its contract, and capacities are
  finite numbers.\<close>

definition config_ok :: "(string \<Rightarrow> bool) \<Rightarrow> ServerConfig \<Rightarrow> bool" where
  "config_ok dt sc = (zod_contract dt (sc_safeParse sc) \<and> (\<forall>gate \<in> set (cfg_gates (sc_pipeline sc)). proper_capacity gate))"

definition first_timers :: "ServerConfig \<Rightarrow> ForecastScheduler" where
  "first_timers sc = fold (\<lambda>g. startScheduledTicks g SCHEDULED_TICK_INTERVAL_MS) (cfg_gates (sc_pipeline sc)) new_scheduler"

text \<open>The timers are those of the start, until the pipeline is stopped and has none.\<close>

definition healthy :: "ServerConfig \<Rightarrow> PipelineState \<Rightarrow> bool" where
  "healthy sc s = (windows_typed s \<and> p_errors s = [] \<and> p_unhandled s = [] \<and>
     (if p_subscribed s then p_scheduler s = first_timers sc else running_timers (p_scheduler s) = []))"

lemma healthy_core: "core s = core s' \<Longrightarrow> healthy sc s = healthy sc s'"
  using core_window [of s s'] by (simp add: healthy_def windows_typed_def) (simp add: core_def)

lemma first_timers_gates:
  "map_of (running_timers (first_timers sc)) h = Some t \<Longrightarrow> timer_gate t \<in> set (cfg_gates (sc_pipeline sc))"
  using start_all [OF reachable_inv [OF scheduler_reachable.init], of SCHEDULED_TICK_INTERVAL_MS "cfg_gates (sc_pipeline sc)"]
  by (auto simp: first_timers_def new_scheduler_def)

lemma append_typed:
  assumes "windows_typed s" "well_typed_event e"
  shows "windows_typed (appendToWindow g e t s)"
  using assms by (auto simp: windows_typed_def appendToWindow_def getWindowForGate_def Let_def store_simps)

lemma window_appended: "getWindowForGate g (appendToWindow g e t s) = filter (within_retention t) (getWindowForGate g s) @ [e]"
  by (simp add: appendToWindow_def getWindowForGate_def Let_def store_simps)

lemma healthy_append:
  "healthy sc s \<Longrightarrow> well_typed_event e \<Longrightarrow> healthy sc (appendToWindow g e t s)"
  using append_typed [of s e g t] by (simp add: healthy_def) (simp add: appendToWindow_def Let_def)

lemma publish_signal_eq:
  "p_subscribed s \<Longrightarrow> publishSignalEvent cfg e s = audit_message (AuditSignalEvent e)
     (settle SIGNAL_EVENTS (onSignalEvent cfg (score_publish cfg) (SignalEventMsg e) s))"
  by (simp add: publishSignalEvent_def bus_publish_simps del: onSignalEvent.simps)

lemma healthy_signal:
  assumes "healthy sc s" "well_typed_event e" "config_ok dt sc"
  shows "healthy sc (publishSignalEvent (sc_pipeline sc) e s) \<and>
    p_subscribed (publishSignalEvent (sc_pipeline sc) e s) = p_subscribed s"
proof (cases "p_subscribed s")
  case False
  then show ?thesis using assms(1) by (simp add: publishSignalEvent_def bus_publish_simps)
next
  case True
  let ?cfg = "sc_pipeline sc" and ?s1 = "trackFansForEvent e s"
  have s1: "healthy sc ?s1" "p_subscribed ?s1"
    using assms(1) healthy_core [OF core_track] True core_track [of e s] by (simp_all add: core_def)
  let ?s' = "settle SIGNAL_EVENTS (onSignalEvent ?cfg (score_publish ?cfg) (SignalEventMsg e) s)"
  have "healthy sc ?s' \<and> p_subscribed ?s'"
  proof (cases "truthy_str (gateId e)")
    case False
    then show ?thesis using s1 by simp
  next
    case tr: True
    define g where "g = the (gateId e)"
    let ?s2 = "appendToWindow g e (p_clock s) ?s1"
    have s2: "healthy sc ?s2" "p_subscribed ?s2"
      using healthy_append [OF s1(1) assms(2)] s1(2) by (simp_all add: appendToWindow_def Let_def)
    show ?thesis
    proof (cases "map_of (gatesById (cfg_gates ?cfg)) g")
      case None
      then show ?thesis using tr s2 by (simp add: g_def Let_def)
    next
      case (Some gate)
      then have "proper_capacity gate" using gatesById_member assms(3) by (auto simp: config_ok_def)
      moreover have "windows_typed ?s2" using s2 by (simp add: healthy_def)
      ultimately obtain s' where "run_recompute ?cfg (score_publish ?cfg) gate ?s2 = (None, s')" "core s' = core ?s2"
        using recompute_total [of ?s2 gate ?cfg] s2(2) by metis
      moreover from this(2) have "healthy sc s'" "p_subscribed s'"
        using healthy_core [of s' ?s2 sc] s2 by (simp_all add: core_def)
      ultimately show ?thesis using tr Some by (simp add: g_def Let_def)
    qed
  qed
  then show ?thesis
    using healthy_core [of "audit_message (AuditSignalEvent e) ?s'" ?s' sc] True by (simp add: publish_signal_eq [OF True])
qed

lemma parsed_typed:
  assumes "config_ok dt sc" "parseSignalEvent (sc_safeParse sc) j = Inr v"
  shows "event_ok dt v" "well_typed_event (v\<lparr>isStale := a, lateArrivalFlag := b\<rparr>)"
proof -
  obtain w where w: "sc_safeParse sc SignalEventPayloadSchema j = Inr w" "v = event_of_json w"
    using assms(2) by (auto simp: parseSignalEvent_def simp: Let_def split: sum.splits)
  then have acc: "zod_accepts dt SignalEventPayloadSchema j" "json_equiv w j"
    using assms(1) unfolding config_ok_def zod_contract_def by (metis (no_types, lifting) old.sum.simps(6))+
  then show ok: "event_ok dt v" using accepts_event_read(1) by (simp add: w(2) event_of_json_equiv)
  then show "well_typed_event (v\<lparr>isStale := a, lateArrivalFlag := b\<rparr>)"
    by (intro event_ok_well_typed [of dt]) (simp add: event_ok_def)
qed

lemma core_invalid: "core (publishValidationError cfg err s) = core s"
  by (simp add: publishValidationError_def bus_publish_simps is_leaf_def leaf_publish_def Let_def)

lemma healthy_post_signal:
  assumes "healthy sc s" "config_ok dt sc"
  shows "healthy sc (snd (post_signal sc body s)) \<and> p_subscribed (snd (post_signal sc body s)) = p_subscribed s"
proof -
  have h: "healthy sc (draw s)" "healthy sc (publishValidationError (sc_pipeline sc) err (draw s))" for err
    using assms(1) healthy_core [OF core_invalid, of sc "sc_pipeline sc" err "draw s"] healthy_core [of "draw s" s] by simp_all
  have m: "healthy sc (mark_source src i t s') = healthy sc s'" "p_subscribed (mark_source src i t s') = p_subscribed s'" for src i t s'
    by (rule healthy_core, simp_all add: mark_source_def)
  have p: "p_subscribed (publishValidationError (sc_pipeline sc) err (draw s)) = p_subscribed s" for err
    using core_invalid [of "sc_pipeline sc" err "draw s"] by (simp add: core_def)
  show ?thesis
    using h healthy_signal [OF h(1) parsed_typed(2) [OF assms(2)] assms(2)]
    by (simp add: post_signal_def handleSignal_def Let_def m p split: sum.splits SignalIngestionResult.splits prod.splits)
qed

lemma core_route:
  assumes "\<And>b. ep \<noteq> PostSignal b"
  shows "core (snd (route_handler sc ep s)) = core s"
proof (cases ep)
  case (PostSignal b)
  with assms show ?thesis by blast
qed (simp_all add: get_handler_defs get_source_status_def post_execute_def post_accept_def post_reject_def post_acknowledge_def
    Let_def split: prod.splits option.splits)

lemma healthy_request:
  assumes "healthy sc s" "config_ok dt sc"
  shows "healthy sc (snd (handle_request sc req ep s)) \<and> p_subscribed (snd (handle_request sc req ep s)) = p_subscribed s"
proof -
  have "healthy sc (snd (route_handler sc ep s)) \<and> p_subscribed (snd (route_handler sc ep s)) = p_subscribed s"
  proof (cases "\<exists>b. ep = PostSignal b")
    case True
    then show ?thesis using healthy_post_signal [OF assms] by auto
  next
    case False
    then have c: "core (snd (route_handler sc ep s)) = core s" by (intro core_route) blast
    then show ?thesis using assms(1) healthy_core [OF c] by (simp add: core_def)
  qed
  then show ?thesis
    using assms(1) by (simp add: handle_request_def del: route_handler.simps split: option.splits auth_result.splits)
qed

lemma healthy_gate_tick:
  assumes "healthy sc s" "config_ok dt sc"
  shows "core (gate_tick (sc_pipeline sc) h s) = core s"
proof (cases "map_of (running_timers (p_scheduler s)) h")
  case None
  then show ?thesis by (simp add: gate_tick_def)
next
  case (Some t)
  then have sub: "p_subscribed s" "p_scheduler s = first_timers sc"
    using assms(1) by (auto simp: healthy_def split: if_splits)
  then have "proper_capacity (timer_gate t)"
    using first_timers_gates [of sc h t] Some assms(2) by (auto simp: config_ok_def)
  moreover have "windows_typed s" using assms(1) by (simp add: healthy_def)
  ultimately obtain s' where "run_recompute (sc_pipeline sc) (score_publish (sc_pipeline sc)) (timer_gate t) s = (None, s')" "core s' = core s"
    using recompute_total [of s "timer_gate t" "sc_pipeline sc"] sub(1) by metis
  then show ?thesis using Some by (simp add: gate_tick_def run_recompute_bus)
qed

lemma healthy_shutdown:
  assumes "healthy sc s" "timers_ok (sc_pipeline sc) s"
  shows "healthy sc (shutdownServer sc s)"
proof -
  have "timers_ok (sc_pipeline sc) (shutdownServer sc s)" by (rule timers.shutdown_ok [OF assms(2)])
  then have "running_timers (p_scheduler (shutdownServer sc s)) = []"
    by (simp add: timers_ok_def timers_inv_def shutdownServer_def stop_def Let_def)
  then show ?thesis
    using assms(1) by (simp add: healthy_def shutdownServer_def stop_def Let_def windows_typed_def getWindowForGate_def)
qed

lemma healthy_step:
  assumes "healthy sc s" "timers_ok (sc_pipeline sc) s" "config_ok dt sc"
  shows "healthy sc (snd (server_step sc op s))"
    "\<not> stops sc op \<Longrightarrow> p_subscribed (snd (server_step sc op s)) = p_subscribed s"
proof -
  have c: "healthy sc s' \<and> p_subscribed s' = p_subscribed s" if "core s' = core s" for s'
    using that assms(1) healthy_core [OF that] by (simp add: core_def)
  have "core (fold (check_gate_quality (sc_pipeline sc)) gs s') = core s'" for gs s'
    by (induction gs arbitrary: s') (simp_all add: core_check)
  then have q: "core (data_quality_tick (sc_pipeline sc) s) = core s" by (simp add: data_quality_tick_def)
  have g: "core (gate_tick (sc_pipeline sc) h s) = core s" for h by (rule healthy_gate_tick [OF assms(1,3)])
  then have "p_unhandled (gate_tick (sc_pipeline sc) h s) = p_unhandled s" for h by (simp add: core_def)
  then have t: "snd (server_step sc (GateTick h) s) = gate_tick (sc_pipeline sc) h s" for h by (simp add: Let_def)
  have "healthy sc (snd (server_step sc op s)) \<and> (\<not> stops sc op \<longrightarrow> p_subscribed (snd (server_step sc op s)) = p_subscribed s)"
  proof (cases op)
    case (GateTick h)
    then show ?thesis using c [OF g] t by simp
  next
    case (Request req ep)
    then show ?thesis using healthy_request [OF assms(1,3)] by (simp add: case_prod_beta Let_def)
  next
    case DataQualityTick
    then show ?thesis using c [OF q] by simp
  next
    case Shutdown
    then show ?thesis using healthy_shutdown [OF assms(1,2)] by simp
  next
    case (OpenStream i target)
    then show ?thesis
      using c [of "s\<lparr>dashboardHub := register i (dashboardHub s)\<rparr>"] healthy_shutdown [OF assms(1,2)] assms(1)
      by (simp add: open_stream_def upgrade_thrown split: upgrade_result.splits)
  next
    case NudgeWorkerTick
    then show ?thesis using c [of "nudge_worker_tick s"] by (simp add: nudge_worker_tick_def)
  next
    case HeartbeatTick
    then show ?thesis using c [of "hub_tick s"] by (simp add: hub_tick_def)
  next
    case (CloseStream i)
    then show ?thesis using c [of "close_stream i s"] by (simp add: close_stream_def)
  next
    case (Elapse ms)
    then show ?thesis using c [of "s\<lparr>p_clock := p_clock s + int ms\<rparr>"] by simp
  qed
  then show "healthy sc (snd (server_step sc op s))" "\<not> stops sc op \<Longrightarrow> p_subscribed (snd (server_step sc op s)) = p_subscribed s"
    by blast+
qed

lemma healthy_run:
  assumes "config_ok dt sc"
  shows "healthy sc (reached sc now ops)" "\<not> list_ex (stops sc) ops \<Longrightarrow> p_subscribed (reached sc now ops)"
proof -
  let ?s0 = "startup sc now"
  have start: "healthy sc ?s0" "p_subscribed ?s0"
    by (simp_all add: healthy_def windows_typed_def getWindowForGate_def startup_def initial_def first_timers_def get_or_def Let_def)
  let ?P = "\<lambda>s. healthy sc s \<and> timers_ok (sc_pipeline sc) s \<and> (\<not> list_ex (stops sc) ops \<longrightarrow> p_subscribed s)"
  have "?P (reached sc now ops)"
  proof (rule run_server_invariant)
    fix op s
    assume "op \<in> set ops" and P: "?P s"
    then have "\<not> list_ex (stops sc) ops \<Longrightarrow> \<not> stops sc op" by (auto simp: list_ex_iff)
    moreover have "timers_ok (sc_pipeline sc) (snd (server_step sc op s))"
      using P timers.step_ok by blast
    ultimately show "?P (snd (server_step sc op s))"
      using P healthy_step [OF conjunct1 [OF P] _ assms, of op] by blast
  qed (simp add: start timers_startup)
  then show "healthy sc (reached sc now ops)" "\<not> list_ex (stops sc) ops \<Longrightarrow> p_subscribed (reached sc now ops)" by blast+
qed

text \<open>C11. No failure: with a validation library that keeps its contract and gates of finite capacity, in
  every state the server reaches no subscriber of the bus has thrown, no promise was left
  rejected, and every window holds well-typed events only; so the service ends by a
  signal or an upgrade request that is no URL or not at all, and until then the pipeline stays subscribed.\<close>

theorem no_failures:
  assumes "config_ok dt sc"
  shows "p_errors (reached sc now ops) = [] \<and> p_unhandled (reached sc now ops) = [] \<and>
    list_all well_typed_event (getWindowForGate g (reached sc now ops)) \<and>
    (p_subscribed (reached sc now ops) \<or> list_ex (stops sc) ops)"
  using healthy_run [OF assms, where now = now and ops = ops] by (auto simp: healthy_def windows_typed_def list_all_iff)

lemma demo_config: "config_ok (\<lambda>s. date_parse s \<noteq> None) demo_server"
proof -
  have "proper_capacity gate" if "gate \<in> set DEMO_GATES" for gate
    using that by (auto simp: DEMO_GATES_def proper_capacity_def)
  then show ?thesis using reference_meets_contract by (simp add: config_ok_def demo_server_def)
qed

lemma no_failures_witness:
  "p_unhandled (reached demo_server 0 [GateTick 0, Elapse 30000, GateTick 1, Request \<lparr>header_Authorization = None, header_X_API_Key = Some ''k1''\<rparr> (PostSignal JNull)]) = []"
  using no_failures [OF demo_config] by blast

section \<open>The timers keep the forecasts fresh\<close>

lemma start_keeps:
  assumes "scheduler_inv s" "map_of (running_timers s) h = Some t" "gate_id (timer_gate t) \<noteq> gate_id g"
  shows "map_of (running_timers (startScheduledTicks g ms s)) h = Some t"
proof -
  have "map_of (intervalHandles s) (gate_id g) \<noteq> Some h"
    using assms unfolding scheduler_inv_def by (metis option.inject)
  then have "map_of (running_timers (stopScheduledTicks (gate_id g) s)) h = Some t"
    using assms(2) by (auto simp: stopScheduledTicks_def clearInterval_def store_simps Let_def split: option.splits)
  moreover have "h < next_handle (stopScheduledTicks (gate_id g) s)"
    using stop_inv [OF assms(1)] calculation unfolding scheduler_inv_def by blast
  ultimately show ?thesis by (simp add: startScheduledTicks_def setInterval_def store_simps Let_def)
qed

lemma start_new: "\<exists>h. map_of (running_timers (startScheduledTicks g ms s)) h = Some \<lparr>timer_gate = g, timer_ms = ms\<rparr>"
  by (rule exI [of _ "next_handle (stopScheduledTicks (gate_id g) s)"])
    (simp add: startScheduledTicks_def setInterval_def store_simps Let_def)

lemma start_each:
  assumes "distinct (map gate_id gs)" "scheduler_inv s" "gate \<in> set gs"
  shows "\<exists>h. map_of (running_timers (fold (\<lambda>g. startScheduledTicks g ms) gs s)) h = Some \<lparr>timer_gate = gate, timer_ms = ms\<rparr>"
proof -
  have keep: "map_of (running_timers (fold (\<lambda>g. startScheduledTicks g ms) gs s)) h = Some t"
    if "scheduler_inv s" "map_of (running_timers s) h = Some t" "gate_id (timer_gate t) \<notin> gate_id ` set gs" for gs s h t
    using that by (induction gs arbitrary: s) (simp_all add: start_inv start_keeps)
  show ?thesis
    using assms
  proof (induction gs arbitrary: s)
    case (Cons g gs)
    show ?case
    proof (cases "gate = g")
      case True
      then show ?thesis using start_new [of g ms s] keep [OF start_inv [OF Cons.prems(2)]] Cons.prems(1) by fastforce
    next
      case False
      then show ?thesis using Cons start_inv by simp
    qed
  qed simp
qed

lemma gatesById_lookup:
  assumes "distinct (map gate_id gates)" "gate \<in> set gates"
  shows "map_of (gatesById gates) (gate_id gate) = Some gate"
proof -
  have "map_of (fold (\<lambda>g m. AList.update (gate_id g) g m) gates m) (gate_id gate) =
      (if gate \<in> set gates then Some gate else map_of m (gate_id gate))"
    if "distinct (map gate_id gates)" "gate \<in> set gates \<or> gate_id gate \<notin> gate_id ` set gates" for m
    using that by (induction gates arbitrary: m) (fastforce simp: store_simps)+
  then show ?thesis using assms by (simp add: gatesById_def)
qed

text \<open>What the theorems below ask of a configuration; the deadline of a recompute is always met, since the
  computation has no step at which its timer could fire.\<close>

definition timely :: "ServerConfig \<Rightarrow> bool" where
  "timely sc = (distinct (map gate_id (cfg_gates (sc_pipeline sc))) \<and> (\<forall>n. cfg_race (sc_pipeline sc) n = Computed))"

text \<open>C5. The forecasts stay fresh: in every state reached before the service ends, by a signal or an upgrade request that is no URL, each configured gate has
  a running timer of 30 seconds, and its next tick stores the forecast of the gate's window at
  that time, shows it on every view, and audits it with the signals of that window; no other
  gate's forecast changes.\<close>

theorem forecasts_refreshed:
  assumes "config_ok dt sc" "timely sc" "gate \<in> set (cfg_gates (sc_pipeline sc))" "\<not> list_ex (stops sc) ops" "s = reached sc now ops"
  shows "\<exists>h r p ps. map_of (running_timers (p_scheduler s)) h = Some \<lparr>timer_gate = gate, timer_ms = 30000\<rparr> \<and>
    computeForecast gate (getWindowForGate (gate_id gate) s) (p_clock s) = Inr r \<and> scores r = p # ps \<and>
    (let s' = snd (server_step sc (GateTick h) s) in
      getLatestForecast (gate_id gate) (forecastStore s') = Some (scores r) \<and>
      scores_log s' = scores_log s @ [score_audit gate p (getWindowForGate (gate_id gate) s)] \<and>
      (\<forall>g. g = gate_id gate \<or> getLatestForecast g (forecastStore s') = getLatestForecast g (forecastStore s)))"
proof -
  have h: "healthy sc s" "p_subscribed s" using healthy_run [OF assms(1)] assms(4,5) by simp_all
  then have "windows_typed s" "p_scheduler s = first_timers sc" by (simp_all add: healthy_def)
  moreover have "\<exists>h. map_of (running_timers (first_timers sc)) h = Some \<lparr>timer_gate = gate, timer_ms = 30000\<rparr>"
    using start_each [OF _ reachable_inv [OF scheduler_reachable.init] assms(3)] assms(2)
    by (simp add: first_timers_def timely_def SCHEDULED_TICK_INTERVAL_MS_def)
  ultimately obtain h where t: "map_of (running_timers (p_scheduler s)) h = Some \<lparr>timer_gate = gate, timer_ms = 30000\<rparr>" by auto
  have "proper_capacity gate" using assms(1,3) by (simp add: config_ok_def)
  from recompute_total [OF \<open>windows_typed s\<close> this h(2), of "sc_pipeline sc"] obtain r p ps s' where
    r: "run_recompute (sc_pipeline sc) (score_publish (sc_pipeline sc)) gate s = (None, s')" "scores r = p # ps" "core s' = core s"
    "getLatestForecast (gate_id gate) (forecastStore s') = Some (scores r)"
    "computeForecast gate (getWindowForGate (gate_id gate) s) (p_clock s) = Inr r"
    "\<And>g. g \<noteq> gate_id gate \<Longrightarrow> getLatestForecast g (forecastStore s') = getLatestForecast g (forecastStore s)"
    "scores_log s' = scores_log s @ [score_audit gate p (getWindowForGate (gate_id gate) s)]"
    using assms(2) unfolding timely_def by metis
  have "p_unhandled s' = p_unhandled s" using r(3) by (simp add: core_def)
  then have "snd (server_step sc (GateTick h) s) = s'"
    using r(1) t by (simp add: gate_tick_def run_recompute_bus Let_def)
  with t r(2,4-7) show ?thesis by (intro exI [of _ h] exI [of _ r] exI [of _ p] exI [of _ ps]) auto
qed

lemma demo_timely: "timely demo_server"
  by (simp add: timely_def demo_server_def DEMO_GATES_def)

lemma forecasts_refreshed_witness:
  "\<exists>h p ps. map_of (running_timers (p_scheduler (reached demo_server 0 [Elapse 30000]))) h
      = Some \<lparr>timer_gate = hd DEMO_GATES, timer_ms = 30000\<rparr> \<and>
    getLatestForecast ''gate-a'' (forecastStore (snd (server_step demo_server (GateTick h) (reached demo_server 0 [Elapse 30000])))) = Some (p # ps)"
proof -
  have g: "hd DEMO_GATES \<in> set (cfg_gates (sc_pipeline demo_server))" "gate_id (hd DEMO_GATES) = ''gate-a''" "\<not> list_ex (stops demo_server) [Elapse 30000]"
    by (simp_all add: demo_server_def DEMO_GATES_def)
  note fresh = forecasts_refreshed [OF demo_config demo_timely g(1,3) refl, of 0, unfolded g(2) Let_def]
  then show ?thesis
  proof (elim exE conjE)
    fix h r p ps
    assume "map_of (running_timers (p_scheduler (reached demo_server 0 [Elapse 30000]))) h = Some \<lparr>timer_gate = hd DEMO_GATES, timer_ms = 30000\<rparr>"
      and "scores r = p # ps"
      and "getLatestForecast ''gate-a'' (forecastStore (snd (server_step demo_server (GateTick h) (reached demo_server 0 [Elapse 30000])))) = Some (scores r)"
    then show ?thesis by (intro exI [of _ h] exI [of _ p] exI [of _ ps] conjI) (simp_all only:)
  qed
qed

section \<open>From a signal to the forecast\<close>

lemma accepted_publish:
  assumes "healthy sc s" "p_subscribed s" "config_ok dt sc" "timely sc" "gate \<in> set (cfg_gates (sc_pipeline sc))"
    "gateId e = Some (gate_id gate)" "gate_id gate \<noteq> []" "well_typed_event e"
    "w = filter (within_retention (p_clock s)) (getWindowForGate (gate_id gate) s) @ [e]"
  obtains r p ps s' where "publishSignalEvent (sc_pipeline sc) e s = s'" "scores r = p # ps"
    "computeForecast gate w (p_clock s) = Inr r" "getWindowForGate (gate_id gate) s' = w"
    "getLatestForecast (gate_id gate) (forecastStore s') = Some (scores r)"
    "signals_log s' = signals_log s @ [e]" "errors_log s' = errors_log s"
    "scores_log s' = scores_log s @ [score_audit gate p w]"
    "\<And>g. g \<noteq> gate_id gate \<Longrightarrow> getWindowForGate g s' = getWindowForGate g s"
    "\<And>g. g \<noteq> gate_id gate \<Longrightarrow> getLatestForecast g (forecastStore s') = getLatestForecast g (forecastStore s)"
proof -
  let ?cfg = "sc_pipeline sc" and ?g = "gate_id gate"
  let ?s1 = "trackFansForEvent e s"
  let ?s2 = "appendToWindow ?g e (p_clock s) ?s1"
  have track: "forecastStore ?s1 = forecastStore s" "p_nudges ?s1 = p_nudges s" "p_clock ?s1 = p_clock s"
    by (simp_all add: trackFansForEvent_def add_fans_def Let_def split: SignalEventPayloadBody.splits option.splits)
  have tw: "getWindowForGate g ?s1 = getWindowForGate g s" for g by (rule core_window [OF core_track])
  have append: "forecastStore ?s2 = forecastStore s" "p_nudges ?s2 = p_nudges s" "p_clock ?s2 = p_clock s"
    by (simp_all add: appendToWindow_def track Let_def)
  have window: "getWindowForGate ?g ?s2 = w" by (simp only: window_appended tw assms(9))
  have others: "getWindowForGate g ?s2 = getWindowForGate g s" if "g \<noteq> ?g" for g
    using that tw [of g] by (simp add: getWindowForGate_def appendToWindow_def Let_def store_simps)
  have "healthy sc ?s1" "p_subscribed ?s1" using assms(1,2) healthy_core [OF core_track] core_track [of e s] by (simp_all add: core_def)
  then have s2: "windows_typed ?s2" "p_subscribed ?s2"
    using healthy_append [OF _ assms(8)] by (simp_all add: healthy_def) (simp add: appendToWindow_def Let_def)
  have "proper_capacity gate" using assms(3,5) by (simp add: config_ok_def)
  from recompute_total [OF s2(1) this s2(2), of ?cfg, unfolded append window] obtain r p ps s3 where
    r: "run_recompute ?cfg (score_publish ?cfg) gate ?s2 = (None, s3)" "scores r = p # ps" "core s3 = core ?s2"
    "getLatestForecast ?g (forecastStore s3) = Some (scores r)" "computeForecast gate w (p_clock s) = Inr r"
    "\<And>g. g \<noteq> ?g \<Longrightarrow> getLatestForecast g (forecastStore s3) = getLatestForecast g (forecastStore s)"
    "scores_log s3 = scores_log s @ [score_audit gate p w]" "signals_log s3 = signals_log s" "errors_log s3 = errors_log s"
    using assms(4) unfolding timely_def by metis
  have p: "publishSignalEvent ?cfg e s = audit_message (AuditSignalEvent e) s3"
    using assms(4-7) gatesById_lookup [of "cfg_gates ?cfg" gate] r(1) by (simp add: publish_signal_eq [OF assms(2)] timely_def Let_def)
  have "core (audit_message (AuditSignalEvent e) s3) = core ?s2" by (simp add: r(3))
  then have w: "getWindowForGate g (audit_message (AuditSignalEvent e) s3) = getWindowForGate g ?s2" for g by (rule core_window)
  show thesis
    by (rule that [OF p r(2,5)]) (simp_all only: w window others audit_message_frame audit_message_logs r(4,6-9) not_False_eq_True, simp_all)
qed

lemma active_after_mark: "\<not> fst (isDegraded src i t (markActive src i t r))"
proof -
  have "\<not> t + SOURCE_TIMEOUT_MS src \<le> t" by (cases src) (simp_all add: SOURCE_TIMEOUT_MS_def)
  then show ?thesis using degraded_after_touch [of "[]" t src i t r] by (simp add: run_tracker_def)
qed

text \<open>C1. From a signal to the forecast, in every state reached before the service ends, by a signal or an upgrade request that is no URL: a body that
  conforms, with the intake defaults, to a signal event of a configured gate is answered 202 with its id. Before
  the next request or timer is served, the event, with the timing flags computed from its timestamps, ends the
  gate's window, from which the events older than ten minutes are gone; the forecast of that very window is
  stored and audited with the ids of its events; the event is in the audit log and no error is; the
  source is active; and the windows and forecasts of other gates are as before.\<close>

theorem signal_to_forecast:
  assumes "config_ok dt sc" "timely sc" "gate \<in> set (cfg_gates (sc_pipeline sc))" "\<not> list_ex (stops sc) ops" "s = reached sc now ops"
    and "parseSignalEvent (sc_safeParse sc) (applyIntakeDefaults (cfg_uuid (sc_pipeline sc) (p_draws s)) body (p_clock s)) = Inr v"
    and "gateId v = Some (gate_id gate)"
  shows "\<exists>e r p ps s'. post_signal sc body s = ((202, SignalAccepted (signalId v)), s') \<and>
    (let t = classifyTiming (timestamp v) (receivedAt v) (p_clock s) DEFAULT_TIMING_CONFIG;
         window = filter (within_retention (p_clock s)) (getWindowForGate (gate_id gate) s) @ [e]
     in e = v\<lparr>isStale := tc_isStale t, lateArrivalFlag := tc_lateArrivalFlag t\<rparr> \<and>
      getWindowForGate (gate_id gate) s' = window \<and>
      computeForecast gate window (p_clock s) = Inr r \<and> scores r = p # ps \<and>
      getLatestForecast (gate_id gate) (forecastStore s') = Some (scores r) \<and>
      scores_log s' = scores_log s @ [score_audit gate p window]) \<and>
    signals_log s' = signals_log s @ [e] \<and> errors_log s' = errors_log s \<and>
    \<not> fst (isDegraded (source e) (gate_id gate) (p_clock s) (p_redis s')) \<and>
    (\<forall>g. g = gate_id gate \<or> getWindowForGate g s' = getWindowForGate g s \<and>
      getLatestForecast g (forecastStore s') = getLatestForecast g (forecastStore s))"
proof -
  have h: "healthy sc s" "p_subscribed s" using healthy_run [OF assms(1)] assms(4,5) by simp_all
  have d: "healthy sc (draw s)" "p_subscribed (draw s)" "p_clock (draw s) = p_clock s"
    using h healthy_core [of "draw s" s] by simp_all
  define t where "t = classifyTiming (timestamp v) (receivedAt v) (p_clock s) DEFAULT_TIMING_CONFIG"
  define e where "e = v\<lparr>isStale := tc_isStale t, lateArrivalFlag := tc_lateArrivalFlag t\<rparr>"
  define w where "w = filter (within_retention (p_clock s)) (getWindowForGate (gate_id gate) s) @ [e]"
  have e: "gateId e = Some (gate_id gate)" "signalId e = signalId v" "source e = source v" by (simp_all add: e_def assms(7))
  have "gate_id gate \<noteq> []" using parsed_typed(1) [OF assms(1,6)] assms(7) by (auto simp: event_ok_def)
  moreover have "well_typed_event e" unfolding e_def by (rule parsed_typed(2) [OF assms(1,6)])
  moreover have "w = filter (within_retention (p_clock (draw s))) (getWindowForGate (gate_id gate) (draw s)) @ [e]"
    by (simp add: w_def core_window [of "draw s" s])
  ultimately obtain r p ps s1 where
    s1: "publishSignalEvent (sc_pipeline sc) e (draw s) = s1" "scores r = p # ps"
    "computeForecast gate w (p_clock s) = Inr r" "getWindowForGate (gate_id gate) s1 = w"
    "getLatestForecast (gate_id gate) (forecastStore s1) = Some (scores r)"
    "signals_log s1 = signals_log s @ [e]" "errors_log s1 = errors_log s"
    "scores_log s1 = scores_log s @ [score_audit gate p w]"
    "\<And>g. g \<noteq> gate_id gate \<Longrightarrow> getWindowForGate g s1 = getWindowForGate g (draw s)"
    "\<And>g. g \<noteq> gate_id gate \<Longrightarrow> getLatestForecast g (forecastStore s1) = getLatestForecast g (forecastStore s)"
    using accepted_publish [OF d(1,2) assms(1-3) e(1), of w] unfolding d(3) by simp metis
  let ?s' = "mark_source (source e) (gate_id gate) (p_clock s) s1"
  have "post_signal sc body s = ((202, SignalAccepted (signalId v)), ?s')"
    using s1(1) e \<open>gate_id gate \<noteq> []\<close>
    by (simp add: post_signal_def handleSignal_def assms(6,7) Let_def t_def [symmetric] e_def [symmetric])
  moreover have "getWindowForGate g ?s' = getWindowForGate g s1" "getWindowForGate g (draw s) = getWindowForGate g s" for g
    by (rule core_window, simp add: mark_source_def)+
  moreover have "forecastStore ?s' = forecastStore s1" "p_nudges ?s' = p_nudges s1"
    "p_redis ?s' = markActive (source e) (gate_id gate) (p_clock s) (p_redis s1)"
    by (simp_all add: mark_source_def)
  ultimately show ?thesis
    using s1 active_after_mark
    by (intro exI [of _ e] exI [of _ r] exI [of _ p] exI [of _ ps] exI [of _ ?s'])
      (simp add: Let_def t_def [symmetric] e_def [symmetric] w_def [symmetric], blast)
qed

lemma demo_body_parses:
  assumes "uuid \<noteq> []"
  shows "\<exists>v. parseSignalEvent (sc_safeParse demo_server) (applyIntakeDefaults uuid (JObj demo_fields) 0) = Inr v \<and>
    gateId v = Some ''gate-a''"
proof -
  let ?dt = "\<lambda>s. date_parse s \<noteq> None" and ?d = "applyIntakeDefaults uuid (JObj demo_fields) 0"
  have iso: "?dt (toISOString 0)" by (simp add: date_parse_toISOString valid_time_def)
  then have "business_fields_ok ?dt TICKET_SCANNER demo_fields"
    by (simp add: business_fields_ok_def demo_fields_def accepts_optional accepts_string accepts_object TicketScanPayloadSchema_def)
  then have "zod_accepts ?dt SignalEventPayloadSchema ?d" using assms iso by (rule defaults_conform)
  then have "parseSignalEvent (sc_safeParse demo_server) ?d = Inr (event_of_json ?d)"
    by (simp add: parseSignalEvent_def demo_server_def reference_safe_parse_def)
  moreover have "gateId (event_of_json ?d) = Some ''gate-a''"
    using defaults_field [of uuid demo_fields 0 "''gateId''"] by (simp add: event_of_json_def demo_fields_def)
  ultimately show ?thesis by blast
qed

lemma signal_to_forecast_witness:
  "\<exists>i e s'. post_signal demo_server (JObj demo_fields) (reached demo_server 0 []) = ((202, SignalAccepted i), s') \<and>
    getWindowForGate ''gate-a'' s' = [e] \<and> signals_log s' = [e] \<and> length (scores_log s') = 1"
proof -
  let ?s = "reached demo_server 0 []"
  have g: "hd DEMO_GATES \<in> set (cfg_gates (sc_pipeline demo_server))" "gate_id (hd DEMO_GATES) = ''gate-a''"
    by (simp_all add: demo_server_def DEMO_GATES_def)
  have s: "p_clock ?s = 0" "getWindowForGate g ?s = []" "signals_log ?s = []" "scores_log ?s = []" for g
    by (simp_all add: startup_def initial_def Let_def getWindowForGate_def get_or_def empty_audit_def)
  have "cfg_uuid (sc_pipeline demo_server) (p_draws ?s) \<noteq> []" by (simp add: demo_server_def demo_uuid_def)
  from demo_body_parses [OF this] obtain v where
    v: "parseSignalEvent (sc_safeParse demo_server)
        (applyIntakeDefaults (cfg_uuid (sc_pipeline demo_server) (p_draws ?s)) (JObj demo_fields) (p_clock ?s)) = Inr v"
      "gateId v = Some (gate_id (hd DEMO_GATES))" unfolding g(2) s(1) by blast
  have none: "\<not> list_ex (stops demo_server) []" by simp
  from signal_to_forecast [OF demo_config demo_timely g(1) none refl v, unfolded g(2) s Let_def] show ?thesis
    by (elim exE conjE) (intro exI conjI, assumption, simp_all)
qed

end
