(* ===== verification/Dispatch.thy ===== *)
theory Dispatch
  imports Guarantees
begin

text \<open>
  A dispatcher's rejection over the rest of the run: for five minutes no forecast of any gate brings the rejected
  redirection back.
\<close>

abbreviation shuttle_log :: "PipelineState \<Rightarrow> ShuttleRedirectionRecommendation list" where
  "shuttle_log s \<equiv> audit_shuttle (nw_audit (p_nudges s))"

lemma audit_message_shuttle [simp]:
  "shuttle_log (audit_message m s) = shuttle_log s @ (case m of AuditShuttle r \<Rightarrow> [r] | _ \<Rightarrow> [])"
  by (cases m) (simp_all add: audit_message_log handle_memory writeShuttleRecommendation_def)

lemma leaf_publish_shuttle [simp]:
  "shuttle_log (leaf_publish m s) = shuttle_log s @ (if p_subscribed s then (case m of ShuttleMsg r \<Rightarrow> [r] | _ \<Rightarrow> []) else [])"
proof -
  have "shuttle_log (fold audit_message (map AuditAction as) s) = shuttle_log s" for as
    by (induction as arbitrary: s) simp_all
  then show ?thesis by (cases m) (simp_all add: leaf_publish_def)
qed

lemma publish_redirections_shuttle:
  "shuttle_log (fold (publish_redirection leaf_publish) rs s) = shuttle_log s @ (if p_subscribed s then rs else [])"
  by (induction rs arbitrary: s) (simp_all add: publish_redirection_def Let_def)

lemma publish_nudges_shuttle: "shuttle_log (fold (\<lambda>n. leaf_publish (FanNudgeMsg n)) ns s) = shuttle_log s"
  by (induction ns arbitrary: s) simp_all

lemma update_actions_shuttle: "shuttle_log (snd (update_actions cfg leaf_publish gate result s)) = shuttle_log s"
  by (simp add: update_actions_def onScoreUpdate_def publishActions_def Let_def split: sum.splits)

lemma recent_cong:
  "recentRejections s' = recentRejections s \<Longrightarrow> p_clock s' = p_clock s \<Longrightarrow> getRecentRejections s' = getRecentRejections s"
  by (simp add: getRecentRejections_def)

lemma recent_frame:
  "getRecentRejections (pipe_broadcast e s) = getRecentRejections s"
  "getRecentRejections (note_forecast cfg gate result t s) = getRecentRejections s"
  "getRecentRejections (snd (update_actions cfg leaf_publish gate result s)) = getRecentRejections s"
  by (rule recent_cong; simp)+

lemma score_body_shuttle:
  assumes "p_subscribed s"
  shows "shuttle_log (score_body cfg gate result s) = shuttle_log s @
    generateRedirections (cfg_lc cfg) gate (forecastsByGate (note_forecast cfg gate result (p_clock s) s)) (cfg_routes cfg)
      (getRecentRejections s) (p_clock s)"
  by (simp add: score_body_def generate_nudges_def Let_def publish_nudges_shuttle publish_redirections_shuttle
      update_actions_shuttle assms recent_frame split: prod.splits)

lemma generated_not_suppressed:
  assumes "r \<in> set (generateRedirections lc g forecasts routes rejections now)"
  shows "\<not> isSuppressed (redir_routeId r) (redir_alternativeGateId r) rejections now"
proof (cases "pickAlternativeGate lc (gate_id g) (currentRiskLevel (map_of forecasts (gate_id g))) forecasts")
  case None
  with assms show ?thesis by (simp add: generateRedirections_def loop_eq Let_def split: if_splits)
next
  case (Some alt)
  with assms show ?thesis by (auto simp: generateRedirections_def loop_eq redirection_for_def Let_def split: if_splits)
qed

section \<open>The invariant\<close>

definition matches :: "RouteId \<Rightarrow> GateId \<Rightarrow> ShuttleRedirectionRecommendation \<Rightarrow> bool" where
  "matches route alt r = (redir_routeId r = route \<and> redir_alternativeGateId r = alt)"

text \<open>Since \<open>since\<close>, when the log was \<open>base\<close>, nothing rejected has been generated, while the suppression lasts.\<close>

definition respected :: "RouteId \<Rightarrow> GateId \<Rightarrow> int \<Rightarrow> ShuttleRedirectionRecommendation list \<Rightarrow> PipelineState \<Rightarrow> bool" where
  "respected route alt since base s =
     (\<lparr>rej_routeId = route, rej_alternativeGateId = alt, rej_rejectedAt = toISOString since\<rparr> \<in> set (recentRejections s) \<and>
      since \<le> p_clock s \<and>
      (p_clock s < since + REJECTION_SUPPRESSION_MS \<longrightarrow>
        (\<exists>new. shuttle_log s = base @ new \<and> list_all (\<lambda>r. \<not> matches route alt r) new)))"

lemma respected_frame:
  assumes "respected route alt since base s" "set (recentRejections s) \<subseteq> set (recentRejections s')"
    "p_clock s \<le> p_clock s'" "shuttle_log s' = shuttle_log s"
  shows "respected route alt since base s'"
  using assms by (auto simp: respected_def)

lemma recent_suppresses:
  assumes "respected route alt since base s" "valid_time since" "p_clock s < since + REJECTION_SUPPRESSION_MS"
  shows "isSuppressed route alt (getRecentRejections s) (p_clock s)"
proof -
  let ?rej = "\<lparr>rej_routeId = route, rej_alternativeGateId = alt, rej_rejectedAt = toISOString since\<rparr>"
  have "?rej \<in> set (getRecentRejections s)" "rejection_applies route alt (p_clock s) ?rej"
    using assms by (simp_all add: respected_def getRecentRejections_def rejection_applies_def date_parse_toISOString)
  then show ?thesis by (auto simp: isSuppressed_def list_ex_iff)
qed

lemma respected_publish:
  assumes "respected route alt since base s" "valid_time since" "p_subscribed s" "scores result = p # ps"
  shows "respected route alt since base (score_effect cfg \<lparr>csm_gate = gate, csm_result = result\<rparr> (store_forecast gate result s))"
proof -
  let ?s = "store_forecast gate result s"
  let ?new = "generateRedirections (cfg_lc cfg) gate (forecastsByGate (note_forecast cfg gate result (p_clock ?s) ?s)) (cfg_routes cfg)
      (getRecentRejections ?s) (p_clock ?s)"
  let ?s' = "score_effect cfg \<lparr>csm_gate = gate, csm_result = result\<rparr> ?s"
  have s': "recentRejections ?s' = recentRejections s" "p_clock ?s' = p_clock s" "shuttle_log ?s' = shuttle_log s @ ?new"
    using assms(3) by (simp_all add: score_effect_eq [OF assms(4)] score_body_shuttle)
  have s: "respected route alt since base ?s"
    using assms(1) by (rule respected_frame) simp_all
  have "\<not> matches route alt r" if "r \<in> set ?new" "p_clock s < since + REJECTION_SUPPRESSION_MS" for r
    using generated_not_suppressed [OF that(1)] recent_suppresses [OF s assms(2)] that(2) by (auto simp: matches_def)
  then show ?thesis
    using assms(1) unfolding respected_def s' by (force simp: list_all_iff)
qed

lemma check_gate_rejections:
  "recentRejections (check_gate_quality cfg g s) = recentRejections s" "p_clock (check_gate_quality cfg g s) = p_clock s"
  by (simp_all add: check_gate_quality_def raiseDataQualityAlertIfAllDegraded_def Let_def split: prod.splits)

lemma respected_invariant:
  assumes "valid_time since"
  shows "server_invariant sc (respected route alt since base)"
  by unfold_locales
    (simp_all add: respected_publish assms, (erule respected_frame;
      simp add: appendToWindow_def Let_def stop_def check_gate_rejections)+)

lemma rejected_state:
  assumes "post_reject route i d s = ((200, RedirectionBody rec), s')"
  shows "respected (redir_routeId rec) (redir_alternativeGateId rec) (p_clock s) (shuttle_log s) s'" "redir_status rec = REJECTED"
    "p_clock s' = p_clock s" "shuttle_log s' = shuttle_log s" "p_scheduler s' = p_scheduler s" "p_subscribed s' = p_subscribed s"
proof -
  obtain r where r: "findRecommendation route i (redirectionStore s) = Some r"
    using assms by (cases "findRecommendation route i (redirectionStore s)")
      (simp_all add: post_reject_def rejectRedirection_def found_or_404_def)
  then have rec: "rec = r\<lparr>redir_status := REJECTED, rejectedAt := Some (toISOString (p_clock s)), rejectedByDispatcherId := Some d\<rparr>"
    and s': "recentRejections s' = recentRejections s @ [\<lparr>rej_routeId = redir_routeId rec,
        rej_alternativeGateId = redir_alternativeGateId rec, rej_rejectedAt = toISOString (p_clock s)\<rparr>]"
      "p_clock s' = p_clock s" "p_nudges s' = p_nudges s" "p_scheduler s' = p_scheduler s" "p_subscribed s' = p_subscribed s"
    using assms by (auto simp: post_reject_def rejectRedirection_def found_or_404_def Let_def)
  then show "respected (redir_routeId rec) (redir_alternativeGateId rec) (p_clock s) (shuttle_log s) s'" "redir_status rec = REJECTED"
    "p_clock s' = p_clock s" "shuttle_log s' = shuttle_log s" "p_scheduler s' = p_scheduler s" "p_subscribed s' = p_subscribed s"
    by (simp_all add: respected_def)
qed

text \<open>C22. A rejection is respected by the whole server: once a dispatcher's rejection is answered 200, whatever
  requests, signals, ticks and time follow, as long as less than five minutes have passed every redirection
  generated since, for any gate, differs from the rejected one in its route or its alternative
  gate. (The states the server reaches are among those with consistent timers.)\<close>

theorem rejection_respected:
  assumes "post_reject route i d s = ((200, RedirectionBody rec), s1)" "timers_ok (sc_pipeline sc) s" "valid_time (p_clock s)"
    and "s2 = snd (run_server sc later s1)" "p_clock s2 < p_clock s + 300000"
  shows "redir_status rec = REJECTED \<and> (\<exists>new. audit_shuttle (nw_audit (p_nudges s2)) = audit_shuttle (nw_audit (p_nudges s)) @ new \<and>
    list_all (\<lambda>r. redir_routeId r \<noteq> redir_routeId rec \<or> redir_alternativeGateId r \<noteq> redir_alternativeGateId rec) new)"
proof -
  note rejected = rejected_state [OF assms(1)]
  have "timers_ok (sc_pipeline sc) s1" using assms(2) by (simp add: timers_ok_def rejected)
  then have "respected (redir_routeId rec) (redir_alternativeGateId rec) (p_clock s) (shuttle_log s) s2"
    unfolding assms(4) using server_invariant.run_from [OF respected_invariant [OF assms(3)] rejected(1)] by blast
  with assms(5) show ?thesis
    by (simp add: respected_def matches_def REJECTION_SUPPRESSION_MS_def rejected(2))
qed

lemma tick_clock: "p_clock (snd (server_step sc (GateTick h) s)) = p_clock s"
proof -
  have e: "p_clock (score_effect cfg \<lparr>csm_gate = gate, csm_result = result\<rparr> s) = p_clock s" if "scores result = p # ps"
    for cfg gate result p ps s
    using that by (cases "p_subscribed s") (simp add: score_effect_eq, simp add: score_effect_def)
  have "p_clock (snd (run_recompute cfg (bus_publish cfg) gate s)) = p_clock s" for cfg gate s
    by (cases rule: run_recompute_cases [of cfg gate s]) (simp_all add: run_recompute_bus e)
  then have "p_clock (gate_tick cfg h s) = p_clock s" for cfg
    by (simp add: gate_tick_def split: option.splits prod.splits) (metis snd_conv)
  then show ?thesis by (simp add: Let_def shutdownServer_def stop_def)
qed

definition demo_redirection :: ShuttleRedirectionRecommendation where
  "demo_redirection = redirection_for (hd DEMO_GATES) CRITICAL (Fin 92) (toISOString 0) (hd DEMO_ROUTES) ''gate-c''"

lemma rejection_respected_witness:
  "\<exists>new. audit_shuttle (nw_audit (p_nudges (snd (run_server demo_server [GateTick 0, Elapse 299999, GateTick 0, GateTick 1]
      (snd (post_reject ''route-1'' (recommendationId demo_redirection) ''d''
        ((startup demo_server 0)\<lparr>redirectionStore := [(''route-1'', [demo_redirection])]\<rparr>)))))))
    = new \<and> list_all (\<lambda>r. redir_routeId r \<noteq> ''route-1'' \<or> redir_alternativeGateId r \<noteq> ''gate-c'') new"
proof -
  let ?s = "(startup demo_server 0)\<lparr>redirectionStore := [(''route-1'', [demo_redirection])]\<rparr>"
  let ?i = "recommendationId demo_redirection"
  obtain rec s1 where rj: "post_reject ''route-1'' ?i ''d'' ?s = ((200, RedirectionBody rec), s1)"
    "redir_routeId rec = ''route-1''" "redir_alternativeGateId rec = ''gate-c''"
    by (simp add: post_reject_def rejectRedirection_def findRecommendation_def getActiveRecommendations_def get_or_def
        found_or_404_def Let_def demo_redirection_def redirection_for_def DEMO_ROUTES_def)
  have t: "timers_ok (sc_pipeline demo_server) ?s" using timers_startup [of demo_server 0] by (simp add: timers_ok_def)
  have c: "p_clock ?s = 0" "shuttle_log ?s = []" by (simp_all add: startup_def initial_def Let_def empty_audit_def)
  have "p_clock s1 = 0" using rejected_state(3) [OF rj(1)] c(1) by simp
  then have "p_clock (snd (run_server demo_server [GateTick 0, Elapse 299999, GateTick 0, GateTick 1] s1)) = 299999"
    by (simp add: case_prod_beta Let_def tick_clock del: server_step.simps(2))
  then have "p_clock (snd (run_server demo_server [GateTick 0, Elapse 299999, GateTick 0, GateTick 1] s1)) < p_clock ?s + 300000"
    using c(1) by simp
  moreover have "valid_time (p_clock ?s)" by (simp only: c(1)) (simp add: valid_time_def)
  ultimately show ?thesis
    using rejection_respected [OF rj(1) t _ refl] unfolding rj c(2) by (simp only: snd_conv append_Nil)
qed

end
