(* ===== verification/Tasks.thy ===== *)
theory Tasks
  imports Prelude
begin

text \<open>
  Asynchronous functions as tasks: what runs between two \<open>await\<close>s is one step on the shared state.
  A step may start further work that runs on its own, a list of atomic actions, and ends with the
  rest of the task. The main lemma says when the order in which the steps of a task and the
  actions beside it are run does not matter: when every step commutes with them.
\<close>

section \<open>Tasks\<close>

datatype 's task = Done | Await "'s \<Rightarrow> 's \<times> ('s \<Rightarrow> 's) list \<times> 's task"

text \<open>The task on its own: the state at its end and the actions it started.\<close>

primrec alone :: "'s task \<Rightarrow> 's \<Rightarrow> 's \<times> ('s \<Rightarrow> 's) list" where
  "alone Done = (\<lambda>s. (s, []))"
| "alone (Await f) = (\<lambda>s. case map_prod id (map_prod id alone) (f s) of
     (s1, new, rest) \<Rightarrow> (case rest s1 of (s2, more) \<Rightarrow> (s2, new @ more)))"

lemma alone_Await: "alone (Await f) s = (case f s of (s1, new, t) \<Rightarrow> (case alone t s1 of (s2, more) \<Rightarrow> (s2, new @ more)))"
  by (simp split: prod.splits)

declare alone.simps(2) [simp del]

definition run_all :: "('s \<Rightarrow> 's) list \<Rightarrow> 's \<Rightarrow> 's" where
  "run_all hs s = fold (\<lambda>h. h) hs s"

lemma run_all_simps [simp]:
  "run_all [] s = s" "run_all (h # hs) s = run_all hs (h s)" "run_all (hs @ ks) s = run_all ks (run_all hs s)"
  by (simp_all add: run_all_def)

text \<open>The task first, then the actions beside it and those it started.\<close>

definition finish :: "'s task \<Rightarrow> ('s \<Rightarrow> 's) list \<Rightarrow> 's \<Rightarrow> 's" where
  "finish t hs s = (case alone t s of (s1, new) \<Rightarrow> run_all (hs @ new) s1)"

lemma finish_step: "f s = (s1, [], t) \<Longrightarrow> finish (Await f) hs s = finish t hs s1"
  by (simp add: finish_def alone_Await split: prod.splits)

lemma finish_Done [simp]: "finish Done hs s = run_all hs s"
  by (simp add: finish_def)

text \<open>A schedule: number \<open>n\<close> runs the \<open>n\<close>-th pending action, a larger one the next step of the task.
  What is left at the end of the schedule is run in the order above.\<close>

fun interleave :: "nat list \<Rightarrow> 's task \<Rightarrow> ('s \<Rightarrow> 's) list \<Rightarrow> 's \<Rightarrow> 's" where
  "interleave [] t hs s = finish t hs s"
| "interleave (n # ns) t hs s =
     (if n < length hs then interleave ns t (take n hs @ drop (Suc n) hs) ((hs ! n) s)
      else (case t of
              Done \<Rightarrow> interleave ns Done hs s
            | Await f \<Rightarrow> (case f s of (s1, new, t1) \<Rightarrow> interleave ns t1 (hs @ new) s1)))"

section \<open>When the order does not matter\<close>

definition commuting :: "('s \<Rightarrow> 's) set \<Rightarrow> bool" where
  "commuting H = (\<forall>h \<in> H. \<forall>k \<in> H. \<forall>s. h (k s) = k (h s))"

lemma commuting_mono: "commuting H \<Longrightarrow> H' \<subseteq> H \<Longrightarrow> commuting H'"
  by (auto simp: commuting_def)

text \<open>No step sees or disturbs the actions that may be pending when it runs.\<close>

inductive undisturbed :: "('s \<Rightarrow> 's) set \<Rightarrow> 's task \<Rightarrow> bool" where
  undisturbed_Done: "commuting H \<Longrightarrow> undisturbed H Done"
| undisturbed_Await: "commuting H \<Longrightarrow> (\<And>s. undisturbed (H \<union> set (fst (snd (f s)))) (snd (snd (f s)))) \<Longrightarrow>
     (\<And>s h. h \<in> H \<Longrightarrow> f (h s) = (h (fst (f s)), snd (f s))) \<Longrightarrow> undisturbed H (Await f)"

inductive_cases undisturbed_AwaitE: "undisturbed H (Await f)"

lemma undisturbed_step: "undisturbed H (Await f) \<Longrightarrow> undisturbed (H \<union> set (fst (snd (f s)))) (snd (snd (f s)))"
  by (elim undisturbed_AwaitE)

lemma undisturbed_commuting: "undisturbed H t \<Longrightarrow> commuting H"
  by (cases rule: undisturbed.cases)

lemma undisturbed_mono: "undisturbed H t \<Longrightarrow> H' \<subseteq> H \<Longrightarrow> undisturbed H' t"
proof (induction arbitrary: H' rule: undisturbed.induct)
  case (undisturbed_Done H)
  then show ?case by (auto intro: undisturbed.intros commuting_mono)
next
  case (undisturbed_Await H f)
  have "H' \<union> set (fst (snd (f s))) \<subseteq> H \<union> set (fst (snd (f s)))" for s using undisturbed_Await.prems by blast
  with undisturbed_Await show ?case by (auto intro!: undisturbed.intros intro: commuting_mono)
qed

lemma undisturbed_alone:
  assumes "undisturbed H t"
  shows "h \<in> H \<Longrightarrow> alone t (h s) = (h (fst (alone t s)), snd (alone t s))"
    and "commuting (H \<union> set (snd (alone t s)))"
  using assms
proof (induction arbitrary: s h rule: undisturbed.induct)
  case (undisturbed_Await H f)
  { case 1
    obtain s1 new t1 where f: "f s = (s1, new, t1)" by (cases "f s") auto
    have "f (h s) = (h (fst (f s)), snd (f s))" using undisturbed_Await.hyps(3) 1 by blast
    then have "f (h s) = (h s1, new, t1)" by (simp add: f)
    moreover have "alone t1 (h s1) = (h (fst (alone t1 s1)), snd (alone t1 s1))"
      using undisturbed_Await.IH(1) [of h s s1] 1 f by simp
    ultimately show ?case by (simp add: alone_Await f split: prod.splits) }
  { case 2
    obtain s1 new t1 where f: "f s = (s1, new, t1)" by (cases "f s") auto
    have "commuting ((H \<union> set new) \<union> set (snd (alone t1 s1)))"
      using undisturbed_Await.IH(2) [of s s1] f by simp
    then show ?case by (cases "alone t1 s1") (simp add: alone_Await f Un_assoc) }
qed simp_all

lemma run_all_pull:
  assumes "commuting (insert h (set hs))"
  shows "run_all hs (h s) = h (run_all hs s)"
  using assms
proof (induction hs arbitrary: s)
  case (Cons k hs)
  have "commuting (insert h (set hs))" using Cons.prems by (rule commuting_mono) auto
  moreover have "k (h s) = h (k s)" using Cons.prems unfolding commuting_def by (metis insertCI list.set_intros(1))
  ultimately show ?case using Cons.IH [of "k s"] by simp
qed simp

lemma run_all_pick:
  assumes "commuting (set hs)" "n < length hs"
  shows "run_all (take n hs @ drop (Suc n) hs) ((hs ! n) s) = run_all hs s"
proof -
  have "insert (hs ! n) (set (take n hs)) \<subseteq> set hs" using assms(2) by (auto dest: in_set_takeD)
  with assms(1) have "commuting (insert (hs ! n) (set (take n hs)))" by (rule commuting_mono)
  from run_all_pull [OF this, of s]
  have "run_all (take n hs @ drop (Suc n) hs) ((hs ! n) s) = run_all (take n hs @ hs ! n # drop (Suc n) hs) s" by simp
  then show ?thesis by (simp only: id_take_nth_drop [OF assms(2), symmetric])
qed

lemma finish_pick:
  assumes "undisturbed H t" "set hs \<subseteq> H" "n < length hs"
  shows "finish t (take n hs @ drop (Suc n) hs) ((hs ! n) s) = finish t hs s"
proof -
  obtain s1 new where a: "alone t s = (s1, new)" by fastforce
  have h: "hs ! n \<in> H" using assms(2,3) by auto
  have c: "commuting (set (hs @ new))"
    using undisturbed_alone(2) [OF assms(1), of s] assms(2) a by (auto intro: commuting_mono)
  have "alone t ((hs ! n) s) = ((hs ! n) s1, new)" using undisturbed_alone(1) [OF assms(1) h, of s] a by simp
  then have "finish t (take n hs @ drop (Suc n) hs) ((hs ! n) s) =
      run_all (take n (hs @ new) @ drop (Suc n) (hs @ new)) (((hs @ new) ! n) s1)"
    using assms(3) by (simp add: finish_def nth_append)
  also have "\<dots> = run_all (hs @ new) s1" using assms(3) by (intro run_all_pick [OF c]) simp
  also have "\<dots> = finish t hs s" using a by (simp add: finish_def)
  finally show ?thesis .
qed

theorem interleave_finish:
  assumes "undisturbed H t" "set hs \<subseteq> H"
  shows "interleave ns t hs s = finish t hs s"
  using assms
proof (induction ns arbitrary: H t hs s)
  case (Cons n ns)
  show ?case
  proof (cases "n < length hs")
    case True
    have "set (take n hs @ drop (Suc n) hs) \<subseteq> H" using Cons.prems(2) by (auto dest: in_set_takeD in_set_dropD)
    then show ?thesis using True Cons finish_pick [OF Cons.prems True] by simp
  next
    case False
    show ?thesis
    proof (cases t)
      case Done
      then show ?thesis using False Cons by simp
    next
      case (Await f)
      obtain s1 new t1 where f: "f s = (s1, new, t1)" by (cases "f s") auto
      have "undisturbed (H \<union> set new) t1"
        using undisturbed_step [of H f s] Cons.prems(1) f unfolding Await by simp
      moreover have "set (hs @ new) \<subseteq> H \<union> set new" using Cons.prems(2) by auto
      ultimately have "interleave ns t1 (hs @ new) s1 = finish t1 (hs @ new) s1" by (rule Cons.IH)
      then show ?thesis using False by (simp add: Await f finish_def alone_Await split: prod.splits)
    qed
  qed
qed simp

text \<open>So the actions beside the task may as well wait for its end.\<close>

lemma run_all_swap: "commuting (set hs \<union> set ks) \<Longrightarrow> run_all ks (run_all hs s) = run_all hs (run_all ks s)"
proof (induction hs arbitrary: s)
  case (Cons h hs)
  then have "commuting (set hs \<union> set ks)" "commuting (insert h (set ks))" by (auto intro: commuting_mono)
  then show ?case using Cons.IH [of "h s"] run_all_pull [of h ks s] by simp
qed simp

lemma finish_beside:
  assumes "undisturbed H t" "set hs \<subseteq> H"
  shows "finish t hs s = run_all hs (finish t [] s)"
proof -
  obtain s1 new where a: "alone t s = (s1, new)" by fastforce
  have "commuting (set hs \<union> set new)"
    using undisturbed_alone(2) [OF assms(1), of s] assms(2) a by (auto intro: commuting_mono)
  then show ?thesis using a by (simp add: finish_def run_all_swap)
qed

section \<open>Tasks that take turns\<close>

text \<open>Continuations are queued first in, first out, so tasks that are started together and await equally
  often take turns: one step of each, then the next step of each.\<close>

fun turn :: "'s task list \<Rightarrow> 's \<Rightarrow> 's task list \<times> 's" where
  "turn [] s = ([], s)"
| "turn (Done # ts) s = (case turn ts s of (ts', s') \<Rightarrow> (Done # ts', s'))"
| "turn (Await f # ts) s =
     (case f s of (s1, new, t) \<Rightarrow> (case turn ts (run_all new s1) of (ts', s') \<Rightarrow> (t # ts', s')))"

fun turns :: "nat \<Rightarrow> 's task list \<Rightarrow> 's \<Rightarrow> 's task list \<times> 's" where
  "turns 0 ts s = (ts, s)"
| "turns (Suc n) ts s = (case turn ts s of (ts', s') \<Rightarrow> turns n ts' s')"

text \<open>A turn in which each step changes the state by \<open>c x\<close> and its rest is known in advance.\<close>

lemma turn_map:
  assumes "\<And>x s. x \<in> set xs \<Longrightarrow> P s \<Longrightarrow> F x s = (c x s, [], G x) \<and> P (c x s)" and "P s"
  shows "turn (map (\<lambda>x. Await (F x)) xs) s = (map G xs, fold c xs s)"
  using assms by (induction xs arbitrary: s) auto

end
