(* ===== verification/Interleave.thy ===== *)
theory Interleave
  imports Tasks Server Effects
begin

text \<open>
  The asynchronous functions of the pipeline, split at their \<open>await\<close>s. A published signal starts the
  recompute of its gate and, beside it, the audit of the signal and the rest of the request that
  brought it; a published forecast starts the subscriber of the scores and, beside it, the audit
  of the score. The lemmas show that every order in which their steps can run ends in the state
  that the handlers of \<open>Pipeline\<close>, which run to completion, end in.
\<close>

section \<open>The tasks\<close>

text \<open>The end of a subscriber: a rejected promise reaches the log of the bus.\<close>

definition settle_task :: "Topic \<Rightarrow> js_error option \<Rightarrow> PipelineState task" where
  "settle_task t err = (case err of None \<Rightarrow> Done | Some e \<Rightarrow> Await (\<lambda>s. (console_error t e s, [], Done)))"

text \<open>The loop over the fans: read the cooldown, set it, enqueue. The nudges are published afterwards.\<close>

fun nudges_task :: "PipelineConfig \<Rightarrow> Gate \<Rightarrow> int \<Rightarrow> FanContext list \<Rightarrow> FanNudge list \<Rightarrow> PipelineState task" where
  "nudges_task cfg gate now [] generated =
     Await (\<lambda>s. (fold (\<lambda>nudge. leaf_publish (FanNudgeMsg nudge)) generated s, [], Done))"
| "nudges_task cfg gate now (fan # fans) generated =
     Await (\<lambda>s.
       case getLastNudgeAt (fan_fanId fan) (gate_id gate) (p_clock s) (p_redis s) of (lastNudgeAt, redis) \<Rightarrow>
       (s\<lparr>p_redis := redis\<rparr>, [],
        Await (\<lambda>s.
          case generateFanNudge (cfg_lc cfg) fan gate (forecastsByGate s) lastNudgeAt now of
            None \<Rightarrow> (s, [], nudges_task cfg gate now fans generated)
          | Some nudge \<Rightarrow>
              (s\<lparr>p_redis := setLastNudgeAt (fan_fanId fan) (gate_id gate) now COOLDOWN_PERIOD_MS (p_clock s) (p_redis s)\<rparr>, [],
               Await (\<lambda>s. (s\<lparr>p_nudges := (p_nudges s)\<lparr>nw_queue := enqueueNudge nudge (nw_queue (p_nudges s))\<rparr>\<rparr>, [],
                 nudges_task cfg gate now fans (generated @ [nudge])))))))"

text \<open>The loop over the redirections.\<close>

fun redirections_task :: "ShuttleRedirectionRecommendation list \<Rightarrow> PipelineState task \<Rightarrow> PipelineState task" where
  "redirections_task [] rest = rest"
| "redirections_task (redirection # redirections) rest =
     Await (\<lambda>s. (s\<lparr>redirectionStore := updateRecommendation redirection (redirectionStore s)\<rparr>, [],
       Await (\<lambda>s. (pipe_broadcast (RedirectionUpdate redirection) (leaf_publish (ShuttleMsg redirection) s), [],
         redirections_task redirections rest))))"

text \<open>The subscriber of the scores: what it does before its first \<open>await\<close>, and the rest, last part first.\<close>

definition score_start :: "PipelineConfig \<Rightarrow> Gate \<Rightarrow> ForecastResult \<Rightarrow> PipelineState \<Rightarrow> PipelineState" where
  "score_start cfg gate result s =
     (let newRiskLevel = coalesce (map_option riskLevel (head_opt (scores result))) LOW;
          previousRiskLevel = get_or (previousRiskLevelByGate s) (gate_id gate) LOW;
          s1 = s\<lparr>forecastsByGate := AList.update (gate_id gate) result (forecastsByGate s)\<rparr>
      in snd (raiseRiskLevelAlertIfTransitioned publishAlert (cfg_uuid cfg (p_draws s1)) (gate_id gate)
           previousRiskLevel newRiskLevel (p_clock s) (draw s1)))"

definition score_nudges :: "PipelineConfig \<Rightarrow> Gate \<Rightarrow> int \<Rightarrow> PipelineState task" where
  "score_nudges cfg gate now =
     Await (\<lambda>s. (s, [], nudges_task cfg gate now (map snd (get_or (fansByGate s) (gate_id gate) [])) []))"

definition score_redirections :: "PipelineConfig \<Rightarrow> Gate \<Rightarrow> int \<Rightarrow> PipelineState task" where
  "score_redirections cfg gate now =
     Await (\<lambda>s. (s, [],
       redirections_task
         (generateRedirections (cfg_lc cfg) gate (forecastsByGate s) (cfg_routes cfg) (getRecentRejections s) now)
         (score_nudges cfg gate now)))"

definition score_actions :: "PipelineConfig \<Rightarrow> Gate \<Rightarrow> ForecastResult \<Rightarrow> int \<Rightarrow> SignalEvent list \<Rightarrow> PipelineState task" where
  "score_actions cfg gate result now window =
     Await (\<lambda>s.
       case generateRecommendations (cfg_lc cfg) (p_clock s) gate result window of
         Inl e \<Rightarrow> (s, [], settle_task CONGESTION_SCORES (Some e))
       | Inr actions \<Rightarrow>
           (s\<lparr>activeActionsStore := setActiveActions (gate_id gate) actions (activeActionsStore s)\<rparr>, [],
            Await (\<lambda>s. (publishActions leaf_publish (gate_id gate) actions s, [],
              Await (\<lambda>s. (pipe_broadcast (ActionListUpdate (gate_id gate) actions) s, [],
                score_redirections cfg gate now))))))"

definition score_rest :: "PipelineConfig \<Rightarrow> Gate \<Rightarrow> ForecastResult \<Rightarrow> int \<Rightarrow> PipelineState task" where
  "score_rest cfg gate result now =
     Await (\<lambda>s.
       let newRiskLevel = coalesce (map_option riskLevel (head_opt (scores result))) LOW;
           s1 = s\<lparr>previousRiskLevelByGate := AList.update (gate_id gate) newRiskLevel (previousRiskLevelByGate s)\<rparr>;
           s2 = (case head_opt (scores result) of Some p \<Rightarrow> pipe_broadcast (ScoreUpdate p) s1 | None \<Rightarrow> s1)
       in (s2, [], score_actions cfg gate result now (getWindowForGate (gate_id gate) s2)))"

text \<open>Publishing a forecast: the stores are set, the subscriber of the scores starts, and the audit of
  the score is started beside it.\<close>

definition audit_score :: "Gate \<Rightarrow> ForecastResult \<Rightarrow> PipelineState \<Rightarrow> PipelineState" where
  "audit_score gate result = snd \<circ> auditScores (CongestionScoreMsg \<lparr>csm_gate = gate, csm_result = result\<rparr>)"

definition publish_forecast_task :: "PipelineConfig \<Rightarrow> Gate \<Rightarrow> ForecastResult \<Rightarrow> PipelineState task" where
  "publish_forecast_task cfg gate result =
     Await (\<lambda>s.
       let s1 = store_forecast gate result s
       in if p_subscribed s
          then (score_start cfg gate result s1, [audit_score gate result], score_rest cfg gate result (p_clock s))
          else (s1, [], Done))"

text \<open>A recompute: the window is taken, the race is run, redis is read or written, the forecast is
  published. \<open>failed\<close> is what happens when the computation throws.\<close>

definition recompute_task :: "PipelineConfig \<Rightarrow> (js_error \<Rightarrow> PipelineState \<Rightarrow> PipelineState) \<Rightarrow> Gate \<Rightarrow> SignalEvent list \<Rightarrow> PipelineState task" where
  "recompute_task cfg failed gate window =
     Await (\<lambda>s.
       let race = cfg_race cfg (p_draws s); now = p_clock s
       in (draw s, [],
         Await (\<lambda>s.
           case computeForecastWithFallback race gate window now (p_redis s) of
             (Inl e, redis) \<Rightarrow> (s\<lparr>p_redis := redis\<rparr>, [], Await (\<lambda>s. (failed e s, [], Done)))
           | (Inr result, redis) \<Rightarrow> (s\<lparr>p_redis := redis\<rparr>, [], publish_forecast_task cfg gate result))))"

text \<open>The subscriber of the signals.\<close>

definition signal_task :: "PipelineConfig \<Rightarrow> SignalEvent \<Rightarrow> PipelineState task" where
  "signal_task cfg event =
     Await (\<lambda>s.
       let s1 = trackFansForEvent event s
       in if \<not> truthy_str (gateId event) then (s1, [], Done)
          else
            (let g = the (gateId event); s2 = appendToWindow g event (p_clock s) s1
             in case map_of (gatesById (cfg_gates cfg)) g of
                  Some gate \<Rightarrow> (s2, [], recompute_task cfg (console_error SIGNAL_EVENTS) gate (getWindowForGate (gate_id gate) s2))
                | None \<Rightarrow> (s2, [], Done)))"

text \<open>What a published signal starts, with the request that brought it: the subscriber, the audit of the
  signal and, once publishing has returned, marking the source active.\<close>

definition audit_signal :: "SignalEvent \<Rightarrow> PipelineState \<Rightarrow> PipelineState" where
  "audit_signal event = snd \<circ> auditSignalEvent (SignalEventMsg event)"

definition mark_now :: "SignalSource \<Rightarrow> string \<Rightarrow> PipelineState \<Rightarrow> PipelineState" where
  "mark_now src i s = mark_source src i (p_clock s) s"

definition signal_tasks :: "PipelineConfig \<Rightarrow> SignalEvent \<Rightarrow> (SignalSource \<times> string) option \<Rightarrow> PipelineState
    \<Rightarrow> PipelineState task \<times> (PipelineState \<Rightarrow> PipelineState) list" where
  "signal_tasks cfg event target s =
     (let marks = (case target of Some (src, i) \<Rightarrow> [mark_now src i] | None \<Rightarrow> [])
      in if p_subscribed s then (signal_task cfg event, audit_signal event # marks)
         else (Done, marks))"

section \<open>A task on its own is the handler\<close>

lemma alone_nudges:
  "alone (nudges_task cfg gate now fans generated) s =
    (case nudge_onScoreUpdate (cfg_lc cfg) fans gate (forecastsByGate s) now (p_clock s) (p_redis s, nw_queue (p_nudges s)) of
       (nudges, redis, queue) \<Rightarrow>
         (fold (\<lambda>nudge. leaf_publish (FanNudgeMsg nudge)) (generated @ nudges)
            (s\<lparr>p_redis := redis, p_nudges := (p_nudges s)\<lparr>nw_queue := queue\<rparr>\<rparr>), []))"
proof (induction fans arbitrary: generated s)
  case Nil
  then show ?case by (simp add: alone_Await)
next
  case (Cons fan fans)
  then show ?case
    by (simp add: alone_Await nudge_fan_def Let_def split: prod.splits option.splits)
qed

lemma alone_score_nudges: "alone (score_nudges cfg gate now) s = (generate_nudges cfg leaf_publish gate now s, [])"
  by (simp add: score_nudges_def alone_Await alone_nudges generate_nudges_def Let_def split: prod.splits)

lemma alone_redirections:
  "alone (redirections_task rs rest) s = alone rest (fold (publish_redirection leaf_publish) rs s)"
  by (induction rs arbitrary: s) (simp_all add: alone_Await publish_redirection_def Let_def split: prod.splits)

lemma alone_settle: "alone (settle_task t err) s = (settle t (err, s), [])"
  by (simp add: settle_task_def alone_Await split: option.splits)

lemma alone_score_actions:
  "alone (score_actions cfg gate result now (getWindowForGate (gate_id gate) s)) s =
    (settle CONGESTION_SCORES (case update_actions cfg leaf_publish gate result s of
       (Inl e, s2) \<Rightarrow> (Some e, s2)
     | (Inr actions, s2) \<Rightarrow>
         (let s3 = pipe_broadcast (ActionListUpdate (gate_id gate) actions) s2;
              s4 = fold (publish_redirection leaf_publish) (generateRedirections (cfg_lc cfg) gate (forecastsByGate s3)
                (cfg_routes cfg) (getRecentRejections s3) now) s3
          in (None, generate_nudges cfg leaf_publish gate now s4))), [])"
  by (simp add: score_actions_def score_redirections_def alone_Await alone_settle alone_redirections alone_score_nudges
      update_actions_def onScoreUpdate_def Let_def split: sum.splits)

lemma alone_score:
  "alone (score_rest cfg gate result (p_clock s)) (score_start cfg gate result s) =
    (settle CONGESTION_SCORES (onCongestionScores cfg leaf_publish (CongestionScoreMsg \<lparr>csm_gate = gate, csm_result = result\<rparr>) s), [])"
proof -
  let ?rest = "\<lambda>s1. settle CONGESTION_SCORES (case update_actions cfg leaf_publish gate result s1 of
       (Inl e, s2) \<Rightarrow> (Some e, s2)
     | (Inr actions, s2) \<Rightarrow>
         (let s3 = pipe_broadcast (ActionListUpdate (gate_id gate) actions) s2;
              s4 = fold (publish_redirection leaf_publish) (generateRedirections (cfg_lc cfg) gate (forecastsByGate s3)
                (cfg_routes cfg) (getRecentRejections s3) (p_clock s)) s3
          in (None, generate_nudges cfg leaf_publish gate (p_clock s) s4)))"
  have n: "note_forecast cfg gate result (p_clock s) s =
      (let s1 = score_start cfg gate result s;
           s2 = s1\<lparr>previousRiskLevelByGate := AList.update (gate_id gate)
             (coalesce (map_option riskLevel (head_opt (scores result))) LOW) (previousRiskLevelByGate s1)\<rparr>
       in case head_opt (scores result) of Some p \<Rightarrow> pipe_broadcast (ScoreUpdate p) s2 | None \<Rightarrow> s2)"
    by (cases "head_opt (scores result)") (simp_all add: note_forecast_def score_start_def Let_def)
  have "alone (score_rest cfg gate result (p_clock s)) (score_start cfg gate result s) =
      (case alone (score_actions cfg gate result (p_clock s) (getWindowForGate (gate_id gate) (note_forecast cfg gate result (p_clock s) s)))
          (note_forecast cfg gate result (p_clock s) s) of (s2, later) \<Rightarrow> (s2, [] @ later))"
    by (simp only: score_rest_def alone_Await n Let_def prod.case)
  also have "\<dots> = (?rest (note_forecast cfg gate result (p_clock s) s), [])"
    by (simp only: alone_score_actions prod.case append_Nil)
  finally show ?thesis by (simp only: onCongestionScores.simps Let_def CongestionScoreMessage.select_convs)
qed

lemma settle_auditScores: "settle CONGESTION_SCORES (auditScores m s) = snd (auditScores m s)"
  by (cases m) (simp_all add: settle_def split: option.splits)

lemma finish_publish_forecast:
  "finish (publish_forecast_task cfg gate result) [] s =
    score_effect cfg \<lparr>csm_gate = gate, csm_result = result\<rparr> (store_forecast gate result s)"
  using alone_score [of cfg gate result "store_forecast gate result s"]
  by (simp add: finish_def publish_forecast_task_def alone_Await score_effect_def settle_auditScores audit_score_def Let_def
      del: onCongestionScores.simps auditScores.simps)

lemma finish_append: "finish t (hs @ ks) s = (case alone t (s) of (s1, new) \<Rightarrow> run_all (hs @ ks @ new) s1)"
  by (simp add: finish_def split: prod.splits)

lemma finish_recompute:
  assumes "window = getWindowForGate (gate_id gate) s"
  shows "finish (recompute_task cfg failed gate window) [] s =
    (case run_recompute cfg (score_publish cfg) gate s of (None, s1) \<Rightarrow> s1 | (Some e, s1) \<Rightarrow> failed e s1)"
proof (cases "computeForecastWithFallback (cfg_race cfg (p_draws s)) gate window (p_clock s) (p_redis s)")
  case (Pair res r)
  then show ?thesis
    using finish_publish_forecast [of cfg gate _ "(draw s)\<lparr>p_redis := r\<rparr>"]
    by (cases res) (simp_all add: run_recompute_eq assms finish_def recompute_task_def alone_Await Let_def split: prod.splits)
qed

section \<open>What runs beside a task\<close>

text \<open>An action that adds to the audit log, reading the windows at most, and to the liveness of a source.\<close>

definition beside :: "((GateId, SignalEvent list) jsmap \<Rightarrow> AuditState \<Rightarrow> AuditState)
    \<Rightarrow> (int \<Rightarrow> expiring_map \<Rightarrow> expiring_map) \<Rightarrow> PipelineState \<Rightarrow> PipelineState" where
  "beside a d s = s\<lparr>p_nudges := (p_nudges s)\<lparr>nw_audit := a (signalWindowByGate s) (nw_audit (p_nudges s))\<rparr>,
     p_redis := (p_redis s)\<lparr>degradedSourceStore := d (p_clock s) (degradedSourceStore (p_redis s))\<rparr>\<rparr>"

lemma beside_frame [simp]:
  "p_clock (beside a d s) = p_clock s" "p_draws (beside a d s) = p_draws s"
  "signalWindowByGate (beside a d s) = signalWindowByGate s" "fansByGate (beside a d s) = fansByGate s"
  "forecastsByGate (beside a d s) = forecastsByGate s"
  "previousRiskLevelByGate (beside a d s) = previousRiskLevelByGate s" "forecastStore (beside a d s) = forecastStore s"
  "gateScoreSource (beside a d s) = gateScoreSource s" "activeActionsStore (beside a d s) = activeActionsStore s"
  "activeActionsSource (beside a d s) = activeActionsSource s" "redirectionStore (beside a d s) = redirectionStore s"
  "recentRejections (beside a d s) = recentRejections s" "alertStore (beside a d s) = alertStore s"
  "dashboardHub (beside a d s) = dashboardHub s" "p_sent (beside a d s) = p_sent s"
  "p_subscribed (beside a d s) = p_subscribed s" "p_errors (beside a d s) = p_errors s"
  "nw_queue (p_nudges (beside a d s)) = nw_queue (p_nudges s)"
  by (simp_all add: beside_def)

lemma beside_reads [simp]:
  "getWindowForGate g (beside a d s) = getWindowForGate g s"
  "getRecentRejections (beside a d s) = getRecentRejections s"
  by (simp_all add: getWindowForGate_def getRecentRejections_def)

text \<open>The records a subscriber of the scores causes are of other kinds than those written beside it.\<close>

definition keeps_cascade :: "((GateId, SignalEvent list) jsmap \<Rightarrow> AuditState \<Rightarrow> AuditState) \<Rightarrow> bool" where
  "keeps_cascade a = ((\<forall>w A x. a w (writeActionAudit x A) = writeActionAudit x (a w A)) \<and>
     (\<forall>w A x. a w (writeShuttleRecommendation x A) = writeShuttleRecommendation x (a w A)) \<and>
     (\<forall>w A x. a w (writeNudgeAudit x A) = writeNudgeAudit x (a w A)))"

text \<open>Every operation of the tasks commutes with an action beside them.\<close>

lemma beside_audit:
  assumes "keeps_cascade a"
  shows "audit_message (AuditAction x) (beside a d s) = beside a d (audit_message (AuditAction x) s)"
    "audit_message (AuditShuttle r) (beside a d s) = beside a d (audit_message (AuditShuttle r) s)"
    "audit_message (AuditNudge n) (beside a d s) = beside a d (audit_message (AuditNudge n) s)"
  using assms by (simp_all add: keeps_cascade_def audit_message_def beside_def memory_repository_def)

lemma fold_beside:
  assumes "\<And>x s. g x (beside a d s) = beside a d (g x s)"
  shows "fold g xs (beside a d s) = beside a d (fold g xs s)"
  by (induction xs arbitrary: s) (simp_all add: assms)

lemma beside_leaf:
  assumes "keeps_cascade a"
  shows "leaf_publish (RecommendedActionsMsg m) (beside a d s) = beside a d (leaf_publish (RecommendedActionsMsg m) s)"
    "leaf_publish (ShuttleMsg r) (beside a d s) = beside a d (leaf_publish (ShuttleMsg r) s)"
    "leaf_publish (FanNudgeMsg n) (beside a d s) = beside a d (leaf_publish (FanNudgeMsg n) s)"
  by (simp_all add: leaf_publish_def beside_audit [OF assms] fold_map comp_def fold_beside [of "\<lambda>x. audit_message (AuditAction x)"])

lemma beside_steps:
  "pipe_broadcast e (beside a d s) = beside a d (pipe_broadcast e s)"
  "console_error t err (beside a d s) = beside a d (console_error t err s)"
  "draw (beside a d s) = beside a d (draw s)"
  "publishAlert alert (beside a d s) = beside a d (publishAlert alert s)"
  "store_forecast gate result (beside a d s) = beside a d (store_forecast gate result s)"
  by (simp_all add: pipe_broadcast_def console_error_def draw_def publishAlert_def store_forecast_def beside_def Let_def
      split: option.splits)

lemma beside_updates:
  "(beside a d s)\<lparr>forecastsByGate := x1\<rparr> = beside a d (s\<lparr>forecastsByGate := x1\<rparr>)"
  "(beside a d s)\<lparr>previousRiskLevelByGate := x2\<rparr> = beside a d (s\<lparr>previousRiskLevelByGate := x2\<rparr>)"
  "(beside a d s)\<lparr>activeActionsStore := x3\<rparr> = beside a d (s\<lparr>activeActionsStore := x3\<rparr>)"
  "(beside a d s)\<lparr>activeActionsSource := x4\<rparr> = beside a d (s\<lparr>activeActionsSource := x4\<rparr>)"
  "(beside a d s)\<lparr>redirectionStore := x5\<rparr> = beside a d (s\<lparr>redirectionStore := x5\<rparr>)"
  "(beside a d s)\<lparr>p_nudges := (p_nudges (beside a d s))\<lparr>nw_queue := x6\<rparr>\<rparr> =
     beside a d (s\<lparr>p_nudges := (p_nudges s)\<lparr>nw_queue := x6\<rparr>\<rparr>)"
  by (simp_all add: beside_def)

lemma beside_score_start: "score_start cfg gate result (beside a d s) = beside a d (score_start cfg gate result s)"
  by (simp add: score_start_def beside_updates beside_steps raiseRiskLevelAlertIfTransitioned_def Let_def split: option.splits)

lemma beside_publishActions:
  "keeps_cascade a \<Longrightarrow> publishActions leaf_publish g actions (beside a d s) = beside a d (publishActions leaf_publish g actions s)"
  by (simp add: publishActions_def beside_updates beside_leaf)

definition beside_redis :: "(int \<Rightarrow> expiring_map \<Rightarrow> expiring_map) \<Rightarrow> int \<Rightarrow> RedisState \<Rightarrow> RedisState" where
  "beside_redis d t r = r\<lparr>degradedSourceStore := d t (degradedSourceStore r)\<rparr>"

lemma beside_redis:
  "p_redis (beside a d s) = beside_redis d (p_clock s) (p_redis s)"
  "(beside a d s)\<lparr>p_redis := beside_redis d (p_clock s) r\<rparr> = beside a d (s\<lparr>p_redis := r\<rparr>)"
  by (simp_all add: beside_def beside_redis_def)

lemma beside_redis_ops:
  "getLastNudgeAt f g t (beside_redis d t' r) = (case getLastNudgeAt f g t r of (v, r') \<Rightarrow> (v, beside_redis d t' r'))"
  "setLastNudgeAt f g t p clock (beside_redis d t' r) = beside_redis d t' (setLastNudgeAt f g t p clock r)"
  "getLastKnownScore g (beside_redis d t' r) = getLastKnownScore g r"
  "setLastKnownScore g q (beside_redis d t' r) = beside_redis d t' (setLastKnownScore g q r)"
  by (simp_all add: beside_redis_def getLastNudgeAt_def setLastNudgeAt_def getLastKnownScore_def setLastKnownScore_def Let_def
      split: prod.splits)

lemma beside_fallback:
  "computeForecastWithFallback race gate window t (beside_redis d t' r) =
     (case computeForecastWithFallback race gate window t r of (v, r') \<Rightarrow> (v, beside_redis d t' r'))"
  by (cases race) (simp_all add: computeForecastWithFallback_def beside_redis_ops Let_def split: option.splits sum.splits)

lemmas beside_redis_steps = beside_redis_ops beside_fallback

section \<open>The tasks are undisturbed\<close>

definition is_beside :: "(PipelineState \<Rightarrow> PipelineState) \<Rightarrow> bool" where
  "is_beside h = (\<exists>a d. keeps_cascade a \<and> h = beside a d)"

definition besides :: "(PipelineState \<Rightarrow> PipelineState) set \<Rightarrow> bool" where
  "besides H = (commuting H \<and> (\<forall>h \<in> H. is_beside h))"

lemma undisturbed_beside:
  assumes "besides H"
    and "\<And>s. fst (snd (f s)) = []" "\<And>s. undisturbed H (snd (snd (f s)))"
    and "\<And>s a d. keeps_cascade a \<Longrightarrow> f (beside a d s) = (beside a d (fst (f s)), snd (f s))"
  shows "undisturbed H (Await f)"
  using assms by (intro undisturbed.intros) (auto simp: besides_def is_beside_def)

lemma undisturbed_nudges: "besides H \<Longrightarrow> undisturbed H (nudges_task cfg gate now fans generated)"
proof (induction fans arbitrary: generated)
  case Nil
  then show ?case
    by (auto simp: fold_beside beside_leaf intro!: undisturbed_beside undisturbed_Done simp: besides_def)
next
  case (Cons fan fans)
  show ?case
    unfolding nudges_task.simps
    by (intro undisturbed_beside Cons)
      (auto simp: beside_redis beside_redis_steps beside_updates Cons split: prod.splits option.splits
        intro!: undisturbed_beside)
qed

lemma undisturbed_redirections:
  assumes "besides H" "undisturbed H rest"
  shows "undisturbed H (redirections_task rs rest)"
  using assms
proof (induction rs)
  case (Cons r rs)
  then show ?case
    unfolding redirections_task.simps
    by (intro undisturbed_beside) (auto simp: beside_updates beside_steps beside_leaf intro!: undisturbed_beside)
qed simp

lemma undisturbed_settle: "besides H \<Longrightarrow> undisturbed H (settle_task t err)"
  unfolding settle_task_def
  by (cases err) (auto simp: beside_steps besides_def intro!: undisturbed_beside undisturbed_Done)

lemma undisturbed_score:
  assumes "besides H"
  shows "undisturbed H (score_rest cfg gate result now)"
proof -
  have nudges: "undisturbed H (score_nudges cfg gate now)"
    unfolding score_nudges_def using assms by (intro undisturbed_beside) (simp_all add: undisturbed_nudges del: nudges_task.simps)
  have redirections: "undisturbed H (score_redirections cfg gate now)"
    unfolding score_redirections_def using assms nudges
    by (intro undisturbed_beside undisturbed_redirections) (simp_all add: undisturbed_redirections)
  have actions: "undisturbed H (score_actions cfg gate result now window)" for window
    unfolding score_actions_def using assms redirections undisturbed_settle [OF assms]
    by (intro undisturbed_beside)
      (auto simp: beside_updates beside_steps beside_publishActions intro!: undisturbed_beside split: sum.splits)
  show ?thesis
    unfolding score_rest_def using assms actions
    by (intro undisturbed_beside) (auto simp: beside_updates beside_steps Let_def split: option.splits)
qed

text \<open>The actions beside a signal, and the audit of a score, which joins them.\<close>

lemma beside_actions:
  "audit_signal event = beside (\<lambda>w. writeSignalEvent event) (\<lambda>t m. m)"
  "mark_now src i = beside (\<lambda>w A. A) (\<lambda>t. setExpiring (join_key (source_string src) i) ''1'' (SOURCE_TIMEOUT_MS src) t)"
  "audit_score gate result = beside (\<lambda>w A. case head_opt (scores result) of None \<Rightarrow> A
     | Some p \<Rightarrow> writeScoreAudit (score_audit gate p (get_or w (gate_id gate) [])) A) (\<lambda>t m. m)"
  by (rule ext, simp add: audit_signal_def mark_now_def audit_score_def beside_def audit_message_def memory_repository_def
      mark_source_def markActive_def touchSource_def getWindowForGate_def Let_def split: option.splits)+

lemma keeps_actions:
  "keeps_cascade (\<lambda>w. writeSignalEvent event)" "keeps_cascade (\<lambda>w A. A)"
  "keeps_cascade (\<lambda>w A. case head_opt (scores result) of None \<Rightarrow> A
     | Some p \<Rightarrow> writeScoreAudit (score_audit gate p (get_or w (gate_id gate) [])) A)"
  by (auto simp: keeps_cascade_def audit_writes split: option.splits)

definition beside_signal :: "SignalEvent \<Rightarrow> SignalSource \<Rightarrow> string \<Rightarrow> (PipelineState \<Rightarrow> PipelineState) set" where
  "beside_signal event src i = {audit_signal event, mark_now src i}"

lemma beside_exists:
  "is_beside (audit_signal event)" "is_beside (mark_now src i)" "is_beside (audit_score gate result)"
  unfolding is_beside_def by (intro exI conjI, rule keeps_actions, rule beside_actions)+

lemma besides_signal: "besides (beside_signal event src i)" "besides (insert (audit_score gate result) (beside_signal event src i))"
proof -
  have c: "audit_signal event (mark_now src i s) = mark_now src i (audit_signal event s)"
    "audit_signal event (audit_score gate result s) = audit_score gate result (audit_signal event s)"
    "mark_now src i (audit_score gate result s) = audit_score gate result (mark_now src i s)" for s
    by (simp_all add: beside_actions beside_def audit_writes split: option.splits)
  then have "commuting (insert (audit_score gate result) (beside_signal event src i))"
    by (simp add: commuting_def beside_signal_def)
  then show "besides (insert (audit_score gate result) (beside_signal event src i))"
    "besides (beside_signal event src i)"
    by (simp_all add: besides_def beside_exists beside_signal_def) (auto intro: commuting_mono)
qed

lemma undisturbed_publish_forecast:
  assumes "besides H" "besides (insert (audit_score gate result) H)"
  shows "undisturbed H (publish_forecast_task cfg gate result)"
  unfolding publish_forecast_task_def
proof (rule undisturbed_Await)
  show "commuting H" using assms(1) by (simp add: besides_def)
next
  fix s h
  assume "h \<in> H"
  then obtain a d where "keeps_cascade a" "h = beside a d" using assms(1) by (auto simp: besides_def is_beside_def)
  then show "(let s1 = store_forecast gate result (h s) in if p_subscribed (h s)
        then (score_start cfg gate result s1, [audit_score gate result], score_rest cfg gate result (p_clock (h s)))
        else (s1, [], Done)) =
      (h (fst (let s1 = store_forecast gate result s in if p_subscribed s
        then (score_start cfg gate result s1, [audit_score gate result], score_rest cfg gate result (p_clock s))
        else (s1, [], Done))),
       snd (let s1 = store_forecast gate result s in if p_subscribed s
        then (score_start cfg gate result s1, [audit_score gate result], score_rest cfg gate result (p_clock s))
        else (s1, [], Done)))"
    by (simp add: beside_steps beside_score_start Let_def)
qed (use assms in \<open>auto simp: Let_def besides_def undisturbed_Done undisturbed_score [OF assms(2)]\<close>)

lemma undisturbed_recompute:
  assumes "besides H" "\<And>result. besides (insert (audit_score gate result) H)"
    and "\<And>e a d s. failed e (beside a d s) = beside a d (failed e s)"
  shows "undisturbed H (recompute_task cfg failed gate window)"
proof -
  have "undisturbed H Done" using assms(1) by (simp add: besides_def undisturbed_Done)
  then show ?thesis
    unfolding recompute_task_def using assms undisturbed_publish_forecast [OF assms(1,2)]
    by (intro undisturbed_beside)
      (auto simp: Let_def beside_steps beside_redis beside_redis_steps split: prod.splits sum.splits intro!: undisturbed_beside)
qed

section \<open>Every order ends as the handlers do\<close>

definition beside_target :: "SignalEvent \<Rightarrow> (SignalSource \<times> string) option \<Rightarrow> (PipelineState \<Rightarrow> PipelineState) list" where
  "beside_target event target = audit_signal event # (case target of Some (src, i) \<Rightarrow> [mark_now src i] | None \<Rightarrow> [])"

lemma besides_target:
  "besides (set (beside_target event target))"
  "besides (insert (audit_score gate result) (set (beside_target event target)))"
proof -
  have sub: "besides H \<Longrightarrow> H' \<subseteq> H \<Longrightarrow> besides H'" for H H' by (auto simp: besides_def intro: commuting_mono)
  have "\<exists>src i. set (beside_target event target) \<subseteq> beside_signal event src i"
    by (cases target) (auto simp: beside_target_def beside_signal_def)
  then obtain src i where "set (beside_target event target) \<subseteq> beside_signal event src i" by blast
  with besides_signal sub show "besides (set (beside_target event target))"
    "besides (insert (audit_score gate result) (set (beside_target event target)))"
    by (meson insert_mono)+
qed

lemma beside_signal_start:
  "trackFansForEvent event (beside (\<lambda>w. a) d s) = beside (\<lambda>w. a) d (trackFansForEvent event s)"
  "appendToWindow g event now (beside (\<lambda>w. a) d s) = beside (\<lambda>w. a) d (appendToWindow g event now s)"
  by (auto simp: trackFansForEvent_def add_fans_def appendToWindow_def beside_def Let_def split: SignalEventPayloadBody.splits option.splits)

lemma target_beside: "h \<in> set (beside_target event target) \<Longrightarrow> \<exists>a d. h = beside (\<lambda>w. a) d"
  by (cases target) (auto simp: beside_target_def beside_actions)

lemma undisturbed_signal: "undisturbed (set (beside_target event target)) (signal_task cfg event)"
proof -
  let ?H = "set (beside_target event target)"
  have ended: "undisturbed ?H Done" using besides_target by (auto simp: besides_def intro: undisturbed_Done)
  have rest: "undisturbed ?H (recompute_task cfg (console_error SIGNAL_EVENTS) gate window)" for gate window
    by (rule undisturbed_recompute) (simp_all add: besides_target beside_steps)
  show ?thesis
    unfolding signal_task_def
  proof (rule undisturbed_Await, goal_cases)
    case 1
    show ?case using besides_target by (simp add: besides_def)
  next
    case (2 s)
    show ?case using ended rest by (simp add: Let_def split: option.splits)
  next
    case (3 s h)
    then obtain a d where "h = beside (\<lambda>w. a) d" using target_beside by blast
    then show ?case by (simp add: Let_def beside_signal_start split: option.splits)
  qed
qed

lemma finish_signal:
  "finish (signal_task cfg event) [] s = settle SIGNAL_EVENTS (onSignalEvent cfg (score_publish cfg) (SignalEventMsg event) s)"
proof (cases "truthy_str (gateId event) \<and> map_of (gatesById (cfg_gates cfg)) (the (gateId event)) \<noteq> None")
  case True
  then obtain gate where gate: "map_of (gatesById (cfg_gates cfg)) (the (gateId event)) = Some gate" by blast
  let ?s2 = "appendToWindow (the (gateId event)) event (p_clock s) (trackFansForEvent event s)"
  have "finish (signal_task cfg event) [] s =
      finish (recompute_task cfg (console_error SIGNAL_EVENTS) gate (getWindowForGate (gate_id gate) ?s2)) [] ?s2"
    unfolding signal_task_def by (rule finish_step) (use True gate in \<open>simp add: Let_def\<close>)
  also have "\<dots> = settle SIGNAL_EVENTS (run_recompute cfg (score_publish cfg) gate ?s2)"
    by (simp add: finish_recompute settle_def split: option.splits prod.splits)
  finally show ?thesis using True gate by (simp add: Let_def)
next
  case False
  then show ?thesis
    by (cases "truthy_str (gateId event)") (simp_all add: signal_task_def finish_step Let_def)
qed

lemma signal_tasks_eq:
  "signal_tasks cfg event target s = (if p_subscribed s then (signal_task cfg event, beside_target event target)
     else (Done, tl (beside_target event target)))"
  by (simp add: signal_tasks_def beside_target_def Let_def)

lemma auditSignal: "audit_signal event s = audit_message (AuditSignalEvent event) s"
  by (simp add: audit_signal_def)

text \<open>C10. Run to completion: whatever order the event loop runs the steps between the \<open>await\<close>s in, a
  published signal ends in the same state as with the handlers run to completion. The steps are
  those of the subscriber of the signals, of the recompute and of the subscriber of the scores it
  starts; beside them run the audit of the signal, the audit of the score and marking the source
  of the signal active. The same holds for the recompute of a scheduled tick.\<close>

theorem any_order:
  "(case signal_tasks cfg event target s of (t, hs) \<Rightarrow> interleave sched t hs s) =
     (let s' = publishSignalEvent cfg event s
      in case target of Some (src, i) \<Rightarrow> mark_source src i (p_clock s') s' | None \<Rightarrow> s') \<and>
   (case map_of (running_timers (p_scheduler s)) handle of
      None \<Rightarrow> s
    | Some t \<Rightarrow> interleave sched (recompute_task cfg (\<lambda>e s. s\<lparr>p_unhandled := p_unhandled s @ [e]\<rparr>) (timer_gate t)
        (getWindowForGate (gate_id (timer_gate t)) s)) [] s) = gate_tick cfg handle s"
proof (rule conjI)
  have m: "(case target of Some (src, i) \<Rightarrow> mark_source src i (p_clock s1) s1 | None \<Rightarrow> s1) =
      run_all (tl (beside_target event target)) s1" for s1
    by (simp add: beside_target_def mark_now_def split: option.splits)
  have "interleave sched (signal_task cfg event) (beside_target event target) s =
      run_all (beside_target event target) (finish (signal_task cfg event) [] s)"
    using interleave_finish [OF undisturbed_signal order_refl] finish_beside [OF undisturbed_signal order_refl] by metis
  then have "p_subscribed s \<Longrightarrow> interleave sched (signal_task cfg event) (beside_target event target) s =
      run_all (tl (beside_target event target)) (publishSignalEvent cfg event s)"
    by (simp add: finish_signal publishSignalEvent_def bus_publish_simps(3) auditSignal beside_target_def del: onSignalEvent.simps)
  moreover have "\<not> p_subscribed s \<Longrightarrow> publishSignalEvent cfg event s = s"
    by (simp add: publishSignalEvent_def bus_publish_simps(3))
  moreover have "interleave sched Done (tl (beside_target event target)) s = run_all (tl (beside_target event target)) s"
  proof -
    have "undisturbed (set (beside_target event target)) Done"
      using besides_target by (auto simp: besides_def intro: undisturbed_Done)
    then have "interleave sched Done (tl (beside_target event target)) s = finish Done (tl (beside_target event target)) s"
      by (rule interleave_finish) (auto simp: beside_target_def)
    then show ?thesis by simp
  qed
  ultimately show "(case signal_tasks cfg event target s of (t, hs) \<Rightarrow> interleave sched t hs s) =
     (let s' = publishSignalEvent cfg event s
      in case target of Some (src, i) \<Rightarrow> mark_source src i (p_clock s') s' | None \<Rightarrow> s')"
    by (simp add: signal_tasks_eq m Let_def)
next
  let ?failed = "\<lambda>e s. s\<lparr>p_unhandled := p_unhandled s @ [e]\<rparr>"
  have "interleave sched (recompute_task cfg ?failed gate window) [] s = finish (recompute_task cfg ?failed gate window) [] s" for gate window
  proof (rule interleave_finish [of "{}"])
    have "besides {}" "besides {audit_score gate result}" for gate result
      by (simp_all add: besides_def commuting_def beside_exists)
    then show "undisturbed {} (recompute_task cfg ?failed gate window)"
      by (intro undisturbed_recompute) (simp_all add: beside_def)
  qed simp
  then show "(case map_of (running_timers (p_scheduler s)) handle of
      None \<Rightarrow> s
    | Some t \<Rightarrow> interleave sched (recompute_task cfg ?failed (timer_gate t)
        (getWindowForGate (gate_id (timer_gate t)) s)) [] s) = gate_tick cfg handle s"
    by (simp add: gate_tick_def finish_recompute run_recompute_bus split: option.splits prod.splits)
qed

section \<open>The checks of the data quality\<close>

text \<open>The task of one gate: its sources are read, read again, and the indicator and the alert follow.\<close>

definition quality_end :: "PipelineConfig \<Rightarrow> Gate \<Rightarrow> SourceStatus list \<Rightarrow> bool \<Rightarrow> PipelineState \<Rightarrow> PipelineState" where
  "quality_end cfg gate statuses allDegraded s =
     (let s1 = s\<lparr>dataQualitySource := setDegraded (gate_id gate) allDegraded (dataQualitySource s)\<rparr>
      in snd (raiseDataQualityAlertIfAllDegraded publishAlert (cfg_uuid cfg (p_draws s1)) (gate_id gate) statuses
           (p_clock s1) (draw s1)))"

definition quality_task :: "PipelineConfig \<Rightarrow> Gate \<Rightarrow> PipelineState task" where
  "quality_task cfg gate =
     Await (\<lambda>s. case getStatus (gate_id gate) (p_clock s) (p_redis s) of (statuses, r1) \<Rightarrow> (s\<lparr>p_redis := r1\<rparr>, [],
       Await (\<lambda>s. case allSourcesDegraded (gate_id gate) (p_clock s) (p_redis s) of (allDegraded, r2) \<Rightarrow> (s\<lparr>p_redis := r2\<rparr>, [],
         Await (\<lambda>s. (quality_end cfg gate statuses allDegraded s, [], Done))))))"

text \<open>Reads at one time do not disturb one another.\<close>

definition has_expired :: "string \<Rightarrow> int \<Rightarrow> expiring_map \<Rightarrow> bool" where
  "has_expired k t m = (case map_of m k of Some e \<Rightarrow> entry_expiresAt e \<le> t | None \<Rightarrow> False)"

lemma has_expired_delete: "has_expired k t (AList.delete k' m) = (k \<noteq> k' \<and> has_expired k t m)"
  by (simp add: has_expired_def delete_conv')

lemma getIfNotExpired_snd: "snd (getIfNotExpired k t m) = (if has_expired k t m then AList.delete k m else m)"
  by (simp add: getIfNotExpired_def has_expired_def split: option.splits)

lemma expired_reads:
  "fst (getIfNotExpired k t (snd (getIfNotExpired k' t m))) = fst (getIfNotExpired k t m)"
  "snd (getIfNotExpired k t (snd (getIfNotExpired k' t m))) = snd (getIfNotExpired k' t (snd (getIfNotExpired k t m)))"
  by (simp add: mock_map.get_get) (simp add: getIfNotExpired_snd has_expired_delete delete_twist [of k k'])

lemma isDegraded_eq:
  "fst (isDegraded src i t r) = (fst (getIfNotExpired (join_key (source_string src) i) t (degradedSourceStore r)) = None)"
  "snd (isDegraded src i t r) = r\<lparr>degradedSourceStore := snd (getIfNotExpired (join_key (source_string src) i) t (degradedSourceStore r))\<rparr>"
  by (simp_all add: isDegraded_def isSourceDegraded_def case_prod_beta Let_def)

lemma isDegraded_reads:
  "fst (isDegraded src i t (snd (isDegraded src' i' t r))) = fst (isDegraded src i t r)"
  "snd (isDegraded src i t (snd (isDegraded src' i' t r))) = snd (isDegraded src' i' t (snd (isDegraded src i t r)))"
  by (simp_all add: isDegraded_eq expired_reads(1)) (simp only: expired_reads(2))

lemma statuses_read:
  "statuses_of ss i t r =
    (map (\<lambda>src. \<lparr>sourceType = src, is_degraded = fst (isDegraded src i t r)\<rparr>) ss, fold (\<lambda>src r. snd (isDegraded src i t r)) ss r)"
  by (induction ss arbitrary: r) (simp_all add: case_prod_beta Let_def isDegraded_reads(1))

lemma getStatus_reads:
  "fst (getStatus i t (snd (getStatus i' t r))) = fst (getStatus i t r)"
  "snd (getStatus i t (snd (getStatus i' t r))) = snd (getStatus i' t (snd (getStatus i t r)))"
proof -
  have f: "fst (isDegraded src i t (fold (\<lambda>src r. snd (isDegraded src i' t r)) ss r)) = fst (isDegraded src i t r)" for src ss i i' r
    by (induction ss arbitrary: r) (simp_all add: isDegraded_reads(1))
  show "fst (getStatus i t (snd (getStatus i' t r))) = fst (getStatus i t r)"
    by (simp add: getStatus_def statuses_read f)
  have s: "snd (isDegraded src i t (fold (\<lambda>src r. snd (isDegraded src i' t r)) ss r)) =
      fold (\<lambda>src r. snd (isDegraded src i' t r)) ss (snd (isDegraded src i t r))" for src ss i i' r
    by (induction ss arbitrary: r) (simp_all, metis isDegraded_reads(2))
  have "fold (\<lambda>src r. snd (isDegraded src i t r)) ss (fold (\<lambda>src r. snd (isDegraded src i' t r)) ss' r) =
      fold (\<lambda>src r. snd (isDegraded src i' t r)) ss' (fold (\<lambda>src r. snd (isDegraded src i t r)) ss r)" for ss ss' r
    by (induction ss arbitrary: r) (simp_all add: s)
  then show "snd (getStatus i t (snd (getStatus i' t r))) = snd (getStatus i' t (snd (getStatus i t r)))"
    by (simp add: getStatus_def statuses_read)
qed

text \<open>The state after reading the sources of a gate, and the last step of its task.\<close>

abbreviation read_sources :: "int \<Rightarrow> Gate \<Rightarrow> RedisState \<Rightarrow> RedisState" where
  "read_sources t gate r \<equiv> snd (getStatus (gate_id gate) t r)"

definition quality_last :: "PipelineConfig \<Rightarrow> int \<Rightarrow> RedisState \<Rightarrow> Gate \<Rightarrow> PipelineState \<Rightarrow> PipelineState" where
  "quality_last cfg t r gate s =
     (let statuses = fst (getStatus (gate_id gate) t r) in quality_end cfg gate statuses (list_all is_degraded statuses) s)"

lemma quality_last_redis:
  "quality_last cfg t r gate (s\<lparr>p_redis := r'\<rparr>) = (quality_last cfg t r gate s)\<lparr>p_redis := r'\<rparr>"
  "p_redis (quality_last cfg t r gate s) = p_redis s" "p_clock (quality_last cfg t r gate s) = p_clock s"
  by (simp_all add: quality_last_def quality_end_def raiseDataQualityAlertIfAllDegraded_def publishAlert_def pipe_broadcast_def
      draw_def Let_def)

lemma fold_quality_last:
  "fold (quality_last cfg t r) gates (s\<lparr>p_redis := r'\<rparr>) = (fold (quality_last cfg t r) gates s)\<lparr>p_redis := r'\<rparr>"
  "p_redis (fold (quality_last cfg t r) gates s) = p_redis s" "p_clock (fold (quality_last cfg t r) gates s) = p_clock s"
  by (induction gates arbitrary: s) (simp_all add: quality_last_redis)

lemma read_sources_fst: "fst (getStatus i t (fold (read_sources t) gates r)) = fst (getStatus i t r)"
  by (induction gates arbitrary: r) (simp_all add: getStatus_reads(1))

lemma read_sources_swap:
  "fold (read_sources t) gates (read_sources t gate r) = read_sources t gate (fold (read_sources t) gates r)"
  by (induction gates arbitrary: r) (simp_all, metis getStatus_reads(2))

lemma quality_last_read: "quality_last cfg t (read_sources t gate' r) gate = quality_last cfg t r gate"
  by (rule ext) (simp add: quality_last_def getStatus_reads(1))

lemma check_gate_quality_eq:
  "check_gate_quality cfg gate s =
    (quality_last cfg (p_clock s) (p_redis s) gate s)\<lparr>p_redis := read_sources (p_clock s) gate (read_sources (p_clock s) gate (p_redis s))\<rparr>"
proof -
  have "check_gate_quality cfg gate s = quality_last cfg (p_clock s) (p_redis s) gate
      (s\<lparr>p_redis := read_sources (p_clock s) gate (read_sources (p_clock s) gate (p_redis s))\<rparr>)"
    by (simp add: check_gate_quality_def quality_last_def quality_end_def allSourcesDegraded_def case_prod_beta Let_def
        getStatus_reads(1))
  then show ?thesis by (simp only: quality_last_redis(1))
qed

lemma fold_check_gate_quality:
  "fold (check_gate_quality cfg) gates s =
    (fold (quality_last cfg (p_clock s) (p_redis s)) gates s)\<lparr>p_redis :=
       fold (read_sources (p_clock s)) gates (fold (read_sources (p_clock s)) gates (p_redis s))\<rparr>"
proof (induction gates arbitrary: s)
  case (Cons gate gates)
  let ?t = "p_clock s" and ?r = "p_redis s"
  have "quality_last cfg ?t (read_sources ?t gate (read_sources ?t gate ?r)) = quality_last cfg ?t ?r"
    by (rule ext) (simp only: quality_last_read)
  then show ?case
    using Cons.IH [of "check_gate_quality cfg gate s"]
    by (simp add: check_gate_quality_eq [of cfg gate s] quality_last_redis fold_quality_last read_sources_swap)
qed simp

text \<open>C37. The checks of the data quality run concurrently, one task for each gate. When their steps take
  turns, first in first out, the state after the three steps of each is the one the checks
  reach one gate after the other, alerts and their order included.\<close>

theorem quality_checks_in_turns:
  "turns 3 (map (quality_task cfg) gates) s = (map (\<lambda>gate. Done) gates, fold (check_gate_quality cfg) gates s)"
proof -
  let ?t = "p_clock s" and ?r = "p_redis s"
  let ?P = "\<lambda>s'. p_clock s' = ?t \<and> (\<forall>i. fst (getStatus i ?t (p_redis s')) = fst (getStatus i ?t ?r))"
  let ?c = "\<lambda>gate s. s\<lparr>p_redis := read_sources ?t gate (p_redis s)\<rparr>"
  have fold_c: "fold ?c gates s' = s'\<lparr>p_redis := fold (read_sources ?t) gates (p_redis s')\<rparr>" for s'
    by (induction gates arbitrary: s') simp_all
  let ?third = "\<lambda>gate. Await (\<lambda>s'. (quality_last cfg ?t ?r gate s', [], Done))"
  let ?second = "\<lambda>gate. Await (\<lambda>s'. case allSourcesDegraded (gate_id gate) (p_clock s') (p_redis s') of
      (allDegraded, r2) \<Rightarrow> (s'\<lparr>p_redis := r2\<rparr>, [],
         Await (\<lambda>s''. (quality_end cfg gate (fst (getStatus (gate_id gate) ?t ?r)) allDegraded s'', [], Done))))"
  have 1: "turn (map (quality_task cfg) gates) s = (map ?second gates, fold ?c gates s)"
    unfolding quality_task_def
    by (rule turn_map [where P = ?P]) (simp_all add: case_prod_beta getStatus_reads(1))
  have 2: "turn (map ?second gates) s' = (map ?third gates, fold ?c gates s')" if "?P s'" for s'
    by (rule turn_map [where P = ?P])
      (use that in \<open>simp_all add: case_prod_beta getStatus_reads(1) allSourcesDegraded_def quality_last_def Let_def\<close>)
  have 3: "turn (map ?third gates) s' = (map (\<lambda>gate. Done) gates, fold (quality_last cfg ?t ?r) gates s')" for s'
    by (rule turn_map [where P = "\<lambda>s. True"]) simp_all
  have "?P (fold ?c gates s)" by (simp add: fold_c read_sources_fst)
  then show ?thesis
    by (simp add: numeral_3_eq_3 1 2 3) (simp add: fold_c fold_check_gate_quality fold_quality_last)
qed

end
