(* ===== verification/Lifecycle.thy ===== *)
theory Lifecycle
  imports Endpoints
begin

text \<open>
  The life of the process, \<open>src/server.ts\<close> from \<open>startServer\<close> on: listening, the signals and fatal
  errors that shut it down, the callback of closing the HTTP server, the timers that force the
  exit, and the exit code. Steps are a relation: connections come and go, the process serves
  whatever \<open>Server\<close> models, and time passes, but not beyond a timer that is due. The lemmas say what
  a shutdown promises and which code the process ends with.
\<close>

section \<open>The process\<close>

record ServerProcess =
  proc_state :: PipelineState
  proc_server :: bool
  proc_listening :: bool
  proc_closing :: bool
  proc_connections :: nat
  proc_timers :: "(int \<times> nat) list"
  proc_exit :: "nat option"

abbreviation proc_clock :: "ServerProcess \<Rightarrow> int" where
  "proc_clock p \<equiv> p_clock (proc_state p)"

definition process_exit :: "nat \<Rightarrow> ServerProcess \<Rightarrow> ServerProcess" where
  "process_exit code p = p\<lparr>proc_exit := Some code\<rparr>"

text \<open>\<open>setTimeout(() => process.exit(code), ms)\<close>: when it is due, and the code.\<close>

definition exit_timer :: "int \<Rightarrow> nat \<Rightarrow> ServerProcess \<Rightarrow> ServerProcess" where
  "exit_timer ms code p = p\<lparr>proc_timers := proc_timers p @ [(proc_clock p + ms, code)]\<rparr>"

definition startServer :: "ServerConfig \<Rightarrow> int \<Rightarrow> ServerProcess" where
  "startServer sc now =
     \<lparr>proc_state = startup sc now, proc_server = True, proc_listening = False, proc_closing = False,
      proc_connections = 0, proc_timers = [], proc_exit = None\<rparr>"

text \<open>\<open>shutdownServer\<close>: the pipeline and the heartbeat stop, the server takes no further connection and
  will exit with 0 when the last one ends, or after 5 seconds.\<close>

definition shutdown_process :: "ServerConfig \<Rightarrow> ServerProcess \<Rightarrow> ServerProcess" where
  "shutdown_process sc p =
     (let p1 = p\<lparr>proc_state := shutdownServer sc (proc_state p)\<rparr>
      in if proc_server p1 then exit_timer 5000 0 (p1\<lparr>proc_listening := False, proc_closing := True\<rparr>) else p1)"

text \<open>The handlers of \<open>uncaughtException\<close> and \<open>unhandledRejection\<close>, which are the same.\<close>

definition on_fatal_error :: "ServerConfig \<Rightarrow> ServerProcess \<Rightarrow> ServerProcess" where
  "on_fatal_error sc p = shutdown_process sc (exit_timer 5000 1 p)"

text \<open>An upgrade request whose target is no URL throws (\<open>Shutdown\<close> is not served, it is \<open>Signalled\<close> below).\<close>

definition serve :: "ServerConfig \<Rightarrow> server_op \<Rightarrow> ServerProcess \<Rightarrow> ServerProcess" where
  "serve sc op p =
     (let s' = snd (server_step sc op (proc_state p)); p' = p\<lparr>proc_state := s'\<rparr>
      in if stops sc op \<or> length (p_unhandled (proc_state p)) < length (p_unhandled s') then on_fatal_error sc p' else p')"

section \<open>Steps\<close>

datatype process_event = Listening | ListenFailed | Connected | Disconnected | Served server_op | Signalled | Crashed
  | CloseCallback | TimerFired

text \<open>What is served comes over a connection, or is a timer of the server; time does not pass a due timer.\<close>

fun servable :: "ServerProcess \<Rightarrow> server_op \<Rightarrow> bool" where
  "servable p (Elapse ms) = list_all (\<lambda>(due, code). int ms \<le> max 0 (due - proc_clock p)) (proc_timers p)"
| "servable p (Request req ep) = (0 < proc_connections p)"
| "servable p (OpenStream c target) = (0 < proc_connections p)"
| "servable p (CloseStream c) = (0 < proc_connections p)"
| "servable p Shutdown = False"
| "servable p _ = True"

text \<open>Of the timers that are due, the one due first fires, the oldest of those due together.\<close>

definition next_timer :: "(int \<times> nat) list \<Rightarrow> (int \<times> nat) option" where
  "next_timer timers = find (\<lambda>(due, code). list_all (\<lambda>(due', code'). due \<le> due') timers) timers"

text \<open>\<open>server.close\<close> calls back in the tick in which the last connection has ended, or at once when there is none:
  nothing else is served and no timer fires before.\<close>

definition drained :: "ServerProcess \<Rightarrow> bool" where
  "drained p = (proc_closing p \<and> proc_connections p = 0)"

inductive process_step :: "ServerConfig \<Rightarrow> ServerProcess \<Rightarrow> process_event \<Rightarrow> ServerProcess \<Rightarrow> bool" for sc where
  listening: "proc_exit p = None \<Longrightarrow> proc_server p \<Longrightarrow> \<not> proc_listening p \<Longrightarrow> \<not> proc_closing p \<Longrightarrow>
    process_step sc p Listening (p\<lparr>proc_listening := True\<rparr>)"
| listen_failed: "proc_exit p = None \<Longrightarrow> proc_server p \<Longrightarrow> \<not> proc_listening p \<Longrightarrow> \<not> proc_closing p \<Longrightarrow>
    process_step sc p ListenFailed (process_exit 1 p)"
| connected: "proc_exit p = None \<Longrightarrow> \<not> drained p \<Longrightarrow> proc_listening p \<Longrightarrow>
    process_step sc p Connected (p\<lparr>proc_connections := Suc (proc_connections p)\<rparr>)"
| disconnected: "proc_exit p = None \<Longrightarrow> proc_connections p = Suc n \<Longrightarrow>
    process_step sc p Disconnected (p\<lparr>proc_connections := n\<rparr>)"
| served: "proc_exit p = None \<Longrightarrow> \<not> drained p \<Longrightarrow> servable p op \<Longrightarrow> process_step sc p (Served op) (serve sc op p)"
| signalled: "proc_exit p = None \<Longrightarrow> \<not> drained p \<Longrightarrow> process_step sc p Signalled (shutdown_process sc p)"
| crashed: "proc_exit p = None \<Longrightarrow> \<not> drained p \<Longrightarrow> process_step sc p Crashed (on_fatal_error sc p)"
| close_callback: "proc_exit p = None \<Longrightarrow> drained p \<Longrightarrow>
    process_step sc p CloseCallback (process_exit 0 p)"
| timer_fired: "proc_exit p = None \<Longrightarrow> \<not> drained p \<Longrightarrow> next_timer (proc_timers p) = Some (due, code) \<Longrightarrow> due \<le> proc_clock p \<Longrightarrow>
    process_step sc p TimerFired (process_exit code p)"

inductive_cases process_stepE: "process_step sc p e q"

inductive process_run :: "ServerConfig \<Rightarrow> ServerProcess \<Rightarrow> process_event list \<Rightarrow> ServerProcess \<Rightarrow> bool" for sc where
  run_refl: "process_run sc p [] p"
| run_step: "process_run sc p es q \<Longrightarrow> process_step sc q e r \<Longrightarrow> process_run sc p (es @ [e]) r"

lemma run_single: "process_step sc p e q \<Longrightarrow> process_run sc p [e] q"
  using process_run.run_step [OF process_run.run_refl] by fastforce

section \<open>A stopped pipeline is quiet\<close>

definition quiet :: "PipelineState \<Rightarrow> bool" where
  "quiet s = (\<not> p_subscribed s \<and> \<not> p_workers s \<and> running_timers (p_scheduler s) = [])"

text \<open>What the pipeline has computed and queued, what the audit log has and what was sent.\<close>

definition computed :: "PipelineState \<Rightarrow> (GateId, SignalEvent list) jsmap \<times> (GateId, (FanId, FanContext) jsmap) jsmap \<times>
    (GateId, ForecastResult) jsmap \<times> (GateId, RiskLevel) jsmap \<times> ForecastStoreState \<times> GateScoreState \<times>
    ActiveActionsState \<times> NudgeWorld \<times> DataQualityState \<times> sent_log" where
  "computed s = (signalWindowByGate s, fansByGate s, forecastsByGate s, previousRiskLevelByGate s, forecastStore s,
     gateScoreSource s, activeActionsSource s, p_nudges s, dataQualitySource s, p_sent s)"

text \<open>The other stores, which clients write to through the endpoints, and the endpoints that do.\<close>

datatype client_store = Alerts | Actions | Redirections | Rejections | Redis

fun agree :: "client_store \<Rightarrow> PipelineState \<Rightarrow> PipelineState \<Rightarrow> bool" where
  "agree Alerts s s' = (alertStore s' = alertStore s)"
| "agree Actions s s' = (activeActionsStore s' = activeActionsStore s)"
| "agree Redirections s s' = (redirectionStore s' = redirectionStore s)"
| "agree Rejections s s' = (recentRejections s' = recentRejections s)"
| "agree Redis s s' = (p_redis s' = p_redis s)"

fun written_by :: "endpoint \<Rightarrow> client_store list" where
  "written_by (PostSignal b) = [Redis]"
| "written_by (GetSourceStatus i) = [Redis]"
| "written_by (PostExecute g i u) = [Actions]"
| "written_by (PostAccept r i d) = [Redirections]"
| "written_by (PostReject r i d) = [Redirections, Rejections, Redis]"
| "written_by (PostAcknowledge i u) = [Alerts]"
| "written_by ep = []"

definition writes :: "client_store \<Rightarrow> process_event \<Rightarrow> bool" where
  "writes x e = (case e of Served (Request req ep) \<Rightarrow> x \<in> set (written_by ep) | _ \<Rightarrow> False)"

lemma agree_refl: "agree x s s"
  by (cases x) simp_all

lemma agree_trans: "agree x s s' \<Longrightarrow> agree x s' s'' \<Longrightarrow> agree x s s''"
  by (cases x) simp_all

lemma agree_shutdown: "agree x s (shutdownServer sc s)"
  by (cases x) (simp_all add: shutdownServer_def stop_def Let_def)

definition elapsed :: "server_op \<Rightarrow> int" where
  "elapsed op = (case op of Elapse ms \<Rightarrow> int ms | _ \<Rightarrow> 0)"

lemma quiet_publish:
  "\<not> p_subscribed s \<Longrightarrow> publishSignalEvent cfg e s = s"
  "\<not> p_subscribed s \<Longrightarrow> publishValidationError cfg err s = draw s"
  by (simp_all add: publishSignalEvent_def publishValidationError_def bus_publish_simps is_leaf_def leaf_publish_def Let_def)

lemma shutdown_quiet:
  assumes "timers_ok (sc_pipeline sc) s"
  shows "quiet (shutdownServer sc s)" "computed (shutdownServer sc s) = computed s"
    "p_clock (shutdownServer sc s) = p_clock s"
proof -
  have "timers_ok (sc_pipeline sc) (shutdownServer sc s)" by (rule timers.shutdown_ok [OF assms])
  then show "quiet (shutdownServer sc s)" "computed (shutdownServer sc s) = computed s" "p_clock (shutdownServer sc s) = p_clock s"
    by (simp_all add: quiet_def timers_ok_def timers_inv_def shutdownServer_def stop_def computed_def Let_def)
qed

definition same_work :: "PipelineState \<Rightarrow> PipelineState \<Rightarrow> bool" where
  "same_work s s' = (quiet s' \<and> computed s' = computed s \<and> p_unhandled s' = p_unhandled s \<and> p_clock s' = p_clock s)"

lemma quiet_route:
  assumes "quiet s"
  shows "same_work s (snd (route_handler sc ep s))"
proof -
  have base: "same_work s s" using assms by (simp add: same_work_def)
  have upd: "same_work s (s\<lparr>redirectionStore := a\<rparr>)" "same_work s (s\<lparr>redirectionStore := a, p_redis := b\<rparr>)"
    "same_work s (s\<lparr>redirectionStore := a, p_redis := b, recentRejections := c\<rparr>)"
    "same_work s (s\<lparr>activeActionsStore := d\<rparr>)" "same_work s (s\<lparr>alertStore := e\<rparr>)" "same_work s (s\<lparr>p_redis := b\<rparr>)"
    "same_work s (draw s)" "same_work s (draw (draw s))" "same_work s ((draw s)\<lparr>p_redis := b\<rparr>)" for a b c d e
    using assms by (simp_all add: same_work_def quiet_def computed_def draw_def)
  have "\<not> p_subscribed (draw s)" using assms by (simp add: quiet_def)
  note q = quiet_publish [OF this]
  show ?thesis
  proof (cases ep)
    case (PostSignal body)
    then show ?thesis
      by (auto simp: post_signal_def handleSignal_def q mark_source_def Let_def upd split: sum.splits)
  next
    case (PostReject r i d)
    then show ?thesis by (auto simp: post_reject_def upd Let_def split: prod.splits option.splits)
  qed (auto simp: get_handler_defs get_source_status_def post_execute_def post_accept_def post_acknowledge_def base upd Let_def
      split: prod.splits)
qed

lemma shutdown_of_quiet:
  assumes "quiet s"
  shows "quiet (shutdownServer sc s)" "computed (shutdownServer sc s) = computed s" "p_clock (shutdownServer sc s) = p_clock s"
proof -
  have "running_timers (fold (\<lambda>g. stopScheduledTicks (gate_id g)) gs sch) = []" if "running_timers sch = []" for gs :: "Gate list" and sch
    using that by (induction gs arbitrary: sch) (simp_all add: stopScheduledTicks_def clearInterval_def Let_def split: option.splits)
  then show "quiet (shutdownServer sc s)" "computed (shutdownServer sc s) = computed s" "p_clock (shutdownServer sc s) = p_clock s"
    using assms by (simp_all add: quiet_def shutdownServer_def stop_def computed_def Let_def)
qed

lemma quiet_agree:
  assumes "quiet s" "op \<noteq> Shutdown"
  shows "agree x s (snd (server_step sc op s)) \<or> (\<exists>req ep. op = Request req ep \<and> x \<in> set (written_by ep))"
proof (cases op)
  case (Request req ep)
  have "\<not> p_subscribed (draw s)" using assms(1) by (simp add: quiet_def)
  note q = quiet_publish [OF this]
  have "agree x s (snd (route_handler sc ep s)) \<or> x \<in> set (written_by ep)"
  proof (cases ep)
    case (PostSignal body)
    then show ?thesis
      by (cases x) (auto simp: post_signal_def handleSignal_def q mark_source_def Let_def split: sum.splits)
  next
    case (PostReject r i d)
    then show ?thesis by (cases x) (auto simp: post_reject_def Let_def split: prod.splits option.splits)
  qed (cases x; auto simp: get_handler_defs get_source_status_def post_execute_def post_accept_def post_acknowledge_def Let_def
      split: prod.splits)+
  moreover have "snd (handle_request sc req ep s) \<in> {s, snd (route_handler sc ep s)}"
    by (simp add: handle_request_def del: route_handler.simps split: option.splits auth_result.splits)
  ultimately show ?thesis using Request agree_refl [of x s] by (auto simp: case_prod_beta Let_def simp del: route_handler.simps)
next
  case (GateTick h)
  then show ?thesis using assms(1) by (simp add: gate_tick_def quiet_def agree_refl Let_def)
next
  case (OpenStream i target)
  have "agree x s (s\<lparr>dashboardHub := h\<rparr>)" for h by (cases x) simp_all
  with OpenStream show ?thesis by (simp add: open_stream_def agree_refl agree_shutdown split: upgrade_result.splits)
qed (use assms in \<open>cases x; simp add: quiet_def nudge_worker_tick_def data_quality_tick_def hub_tick_def close_stream_def\<close>)+

lemma quiet_step:
  assumes "quiet s" "op \<noteq> Shutdown"
  shows "quiet (snd (server_step sc op s))" "computed (snd (server_step sc op s)) = computed s"
    "p_unhandled (snd (server_step sc op s)) = p_unhandled s" "p_clock (snd (server_step sc op s)) = p_clock s + elapsed op"
proof -
  have "quiet (snd (server_step sc op s)) \<and> computed (snd (server_step sc op s)) = computed s \<and>
    p_unhandled (snd (server_step sc op s)) = p_unhandled s \<and> p_clock (snd (server_step sc op s)) = p_clock s + elapsed op"
  proof (cases op)
    case (Request req ep)
    have "same_work s (snd (handle_request sc req ep s))"
      using quiet_route [OF assms(1)] assms(1)
      by (simp add: handle_request_def same_work_def del: route_handler.simps split: option.splits auth_result.splits)
    with Request show ?thesis by (simp add: same_work_def elapsed_def case_prod_beta Let_def)
  next
    case (GateTick h)
    then show ?thesis using assms(1) by (simp add: gate_tick_def quiet_def elapsed_def Let_def)
  next
    case (OpenStream i target)
    have "p_unhandled (shutdownServer sc s) = p_unhandled s" by (simp add: shutdownServer_def stop_def Let_def)
    moreover have "quiet (s\<lparr>dashboardHub := h\<rparr>)" "computed (s\<lparr>dashboardHub := h\<rparr>) = computed s" for h
      using assms(1) by (simp_all add: quiet_def computed_def)
    ultimately show ?thesis
      using OpenStream assms(1) shutdown_of_quiet [OF assms(1), of sc] by (simp add: open_stream_def elapsed_def split: upgrade_result.splits)
  qed (use assms in \<open>simp_all add: quiet_def computed_def elapsed_def nudge_worker_tick_def data_quality_tick_def hub_tick_def
      heartbeat_tick_def close_stream_def\<close>)
  then show "quiet (snd (server_step sc op s))" "computed (snd (server_step sc op s)) = computed s"
    "p_unhandled (snd (server_step sc op s)) = p_unhandled s" "p_clock (snd (server_step sc op s)) = p_clock s + elapsed op"
    by blast+
qed

section \<open>What a shutdown promises\<close>

text \<open>Shutting down since time \<open>t\<close>.\<close>

definition going_down :: "int \<Rightarrow> ServerProcess \<Rightarrow> bool" where
  "going_down t p = (quiet (proc_state p) \<and> \<not> proc_listening p \<and> proc_closing p \<and> proc_server p \<and>
     t \<le> proc_clock p \<and> proc_clock p \<le> t + 5000 \<and> (\<exists>code. (t + 5000, code) \<in> set (proc_timers p)))"

lemma elapsed_pos: "0 \<le> elapsed op"
  by (cases op) (simp_all add: elapsed_def)

lemma serve_quiet:
  assumes "quiet (proc_state p)" "servable p op"
  shows "serve sc op p = (if stops sc op then on_fatal_error sc (p\<lparr>proc_state := snd (server_step sc op (proc_state p))\<rparr>)
      else p\<lparr>proc_state := snd (server_step sc op (proc_state p))\<rparr>)"
    "quiet (proc_state (serve sc op p))" "computed (proc_state (serve sc op p)) = computed (proc_state p)"
    "proc_clock (serve sc op p) = proc_clock p + elapsed op"
    "agree x (proc_state p) (proc_state (serve sc op p)) \<or> writes x (Served op)"
proof -
  let ?s = "snd (server_step sc op (proc_state p))"
  have op: "op \<noteq> Shutdown" using assms(2) by auto
  note q = quiet_step [OF assms(1) op]
  show e: "serve sc op p = (if stops sc op then on_fatal_error sc (p\<lparr>proc_state := ?s\<rparr>) else p\<lparr>proc_state := ?s\<rparr>)"
    using q(3) by (simp add: serve_def Let_def)
  have state: "proc_state (serve sc op p) = (if stops sc op then shutdownServer sc ?s else ?s)"
    by (simp add: e on_fatal_error_def shutdown_process_def exit_timer_def Let_def)
  show "quiet (proc_state (serve sc op p))" "computed (proc_state (serve sc op p)) = computed (proc_state p)"
    "proc_clock (serve sc op p) = proc_clock p + elapsed op"
    using q shutdown_of_quiet [OF q(1)] by (simp_all add: state)
  have "agree x (proc_state p) ?s \<Longrightarrow> agree x (proc_state p) (proc_state (serve sc op p))"
    using agree_trans [OF _ agree_shutdown] by (simp add: state)
  then show "agree x (proc_state p) (proc_state (serve sc op p)) \<or> writes x (Served op)"
    using quiet_agree [OF assms(1) op, of x sc] by (auto simp: writes_def)
qed

lemma serve_frame:
  assumes "quiet (proc_state p)" "servable p op"
  shows "proc_listening (serve sc op p) = (proc_listening p \<and> \<not> (stops sc op \<and> proc_server p))"
    "proc_closing (serve sc op p) = (proc_closing p \<or> stops sc op \<and> proc_server p)" "proc_server (serve sc op p) = proc_server p"
    "proc_exit (serve sc op p) = proc_exit p" "proc_connections (serve sc op p) = proc_connections p"
    "\<exists>later. proc_timers (serve sc op p) = proc_timers p @ later \<and> (\<forall>(due, code) \<in> set later. proc_clock p \<le> due - 5000)"
proof -
  have "op \<noteq> Shutdown" using assms(2) by auto
  note q = quiet_step [OF assms(1) this, of sc]
  have "proc_clock p \<le> p_clock (snd (server_step sc op (proc_state p)))" using q(4) elapsed_pos [of op] by simp
  then show "proc_listening (serve sc op p) = (proc_listening p \<and> \<not> (stops sc op \<and> proc_server p))"
    "proc_closing (serve sc op p) = (proc_closing p \<or> stops sc op \<and> proc_server p)" "proc_server (serve sc op p) = proc_server p"
    "proc_exit (serve sc op p) = proc_exit p" "proc_connections (serve sc op p) = proc_connections p"
    "\<exists>later. proc_timers (serve sc op p) = proc_timers p @ later \<and> (\<forall>(due, code) \<in> set later. proc_clock p \<le> due - 5000)"
    by (auto simp: serve_quiet(1) [OF assms] on_fatal_error_def shutdown_process_def exit_timer_def shutdown_of_quiet(3) [OF q(1)] Let_def)
qed

lemma elapsed_bound: "servable p op \<Longrightarrow> (due, code) \<in> set (proc_timers p) \<Longrightarrow> proc_clock p \<le> due \<Longrightarrow> proc_clock p + elapsed op \<le> due"
  by (cases op) (auto simp: elapsed_def list_all_iff)

lemma going_down_step:
  assumes "going_down t p" "process_step sc p e q"
  shows "going_down t q" "computed (proc_state q) = computed (proc_state p)" "e \<notin> {Listening, ListenFailed, Connected}"
    "agree x (proc_state p) (proc_state q) \<or> writes x e"
proof -
  have "going_down t q \<and> computed (proc_state q) = computed (proc_state p) \<and> e \<notin> {Listening, ListenFailed, Connected} \<and>
      (agree x (proc_state p) (proc_state q) \<or> writes x e)"
    using assms(2)
  proof (cases rule: process_step.cases)
    case (served op)
    obtain code where c: "(t + 5000, code) \<in> set (proc_timers p)" using assms(1) by (auto simp: going_down_def)
    have q: "quiet (proc_state p)" using assms(1) by (simp add: going_down_def)
    obtain later where "proc_timers (serve sc op p) = proc_timers p @ later" using serve_frame(6) [OF q \<open>servable p op\<close>] by blast
    then show ?thesis
      using assms(1) served serve_quiet(2-4) [OF q \<open>servable p op\<close>, where sc = sc]
        serve_quiet(5) [OF q \<open>servable p op\<close>, where sc = sc and x = x] serve_frame(1-5) [OF q \<open>servable p op\<close>, where sc = sc]
        elapsed_bound [OF _ c] elapsed_pos [of op] c
      by (auto simp: going_down_def)
  qed (use assms(1) in \<open>auto simp: going_down_def process_exit_def shutdown_process_def on_fatal_error_def exit_timer_def
      shutdown_of_quiet agree_refl agree_shutdown Let_def\<close>)
  then show "going_down t q" "computed (proc_state q) = computed (proc_state p)" "e \<notin> {Listening, ListenFailed, Connected}"
    "agree x (proc_state p) (proc_state q) \<or> writes x e"
    by blast+
qed

lemma going_down_run:
  assumes "process_run sc p es q" "going_down t p"
  shows "going_down t q \<and> computed (proc_state q) = computed (proc_state p) \<and> set es \<inter> {Listening, ListenFailed, Connected} = {} \<and>
    (agree x (proc_state p) (proc_state q) \<or> list_ex (writes x) es)"
  using assms
proof (induction rule: process_run.induct)
  case (run_step p es q e r)
  then show ?case using going_down_step [of t q sc e r] agree_trans [of x "proc_state p" "proc_state q" "proc_state r"] by auto
qed (simp add: agree_refl)

lemma next_timer_exists:
  assumes "timers \<noteq> []"
  obtains due code where "next_timer timers = Some (due, code)" "list_all (\<lambda>(due', code'). due \<le> due') timers" "(due, code) \<in> set timers"
proof -
  let ?m = "Min (fst ` set timers)"
  have "?m \<in> fst ` set timers" "\<forall>y \<in> set timers. ?m \<le> fst y" using assms by simp_all
  then obtain x where "x \<in> set timers" "\<forall>y \<in> set timers. fst x \<le> fst y" by (metis imageE)
  then have "x \<in> set timers" "(\<lambda>(due, code). list_all (\<lambda>(due', code'). due \<le> due') timers) x"
    by (simp_all add: list_all_iff split_beta)
  then have "next_timer timers \<noteq> None" unfolding next_timer_def find_None_iff by blast
  then obtain due code where n: "next_timer timers = Some (due, code)" by auto
  then have "list_all (\<lambda>(due', code'). due \<le> due') timers" "(due, code) \<in> set timers"
    by (auto simp: next_timer_def find_Some_iff) (metis nth_mem)
  with n show thesis by (rule that)
qed

text \<open>Closing with no connection left, the process can only call back and exit.\<close>

lemma drained_step:
  assumes "drained p" "proc_exit p = None"
  shows "process_step sc p e q \<longleftrightarrow> e = CloseCallback \<and> q = process_exit 0 p"
proof
  show "process_step sc p e q \<Longrightarrow> e = CloseCallback \<and> q = process_exit 0 p"
    by (erule process_stepE) (use assms(1) in \<open>simp_all add: drained_def\<close>)
qed (use assms in \<open>auto intro: close_callback\<close>)

text \<open>Otherwise time can pass up to the next timer, which ends the process.\<close>

lemma timer_exits:
  assumes "going_down t q" "proc_exit q = None" "proc_connections q \<noteq> 0"
  shows "\<exists>ms r code. process_run sc q [Served (Elapse ms), TimerFired] r \<and> proc_exit r = Some code"
proof -
  have "proc_timers q \<noteq> []" using assms(1) by (auto simp: going_down_def)
  then obtain due code where n: "next_timer (proc_timers q) = Some (due, code)"
    "list_all (\<lambda>(due', code'). due \<le> due') (proc_timers q)" by (rule next_timer_exists)
  define ms where "ms = nat (due - proc_clock q)"
  let ?r = "serve sc (Elapse ms) q"
  have "servable q (Elapse ms)"
    using n(2) assms(1) by (auto simp: ms_def list_all_iff going_down_def)
  moreover have r: "proc_timers ?r = proc_timers q" "proc_exit ?r = None" "due \<le> proc_clock ?r" "proc_connections ?r = proc_connections q"
    using assms(2) by (simp_all add: serve_def Let_def ms_def)
  moreover have "\<not> drained q" "\<not> drained ?r" using assms(3) r(4) by (simp_all add: drained_def)
  ultimately have "process_run sc q ([Served (Elapse ms)] @ [TimerFired]) (process_exit code ?r)"
    using assms(2) n(1) by (intro process_run.run_step [OF run_single [OF process_step.served]] process_step.timer_fired) simp_all
  moreover have "proc_exit (process_exit code ?r) = Some code" by (simp add: process_exit_def)
  ultimately show ?thesis by (metis append_Cons append_Nil)
qed

text \<open>C14. Shutting down, from any state of the process, by a signal or after a fatal error, whatever is still
  requested: no connection is accepted any more, no window, forecast, level, dashboard view, queued nudge, audit record or
  message sent changes, and the stores of alerts, actions, redirections, rejections and the redis store change only when a
  connection still open is used for one of the endpoints that write to them. The process does not live on for more than 5 seconds;
  as long as it has not exited, it exits with 0 at once, and can do nothing else, when no connection is left, and otherwise
  when time has passed up to its next timer.\<close>

theorem graceful_shutdown:
  assumes "timers_ok (sc_pipeline sc) (proc_state p)" "proc_server p"
    and "process_run sc (shutdown_process sc p) es q"
  shows "\<not> proc_listening q \<and> Connected \<notin> set es \<and> computed (proc_state q) = computed (proc_state p) \<and>
    (\<forall>x. agree x (proc_state p) (proc_state q) \<or> list_ex (writes x) es) \<and>
    proc_clock q \<le> proc_clock p + 5000 \<and>
    (proc_exit q = None \<longrightarrow>
      (if proc_connections q = 0 then \<forall>e r. process_step sc q e r \<longleftrightarrow> e = CloseCallback \<and> r = process_exit 0 q
       else \<exists>ms r code. process_run sc q [Served (Elapse ms), TimerFired] r \<and> proc_exit r = Some code))"
proof -
  have g: "going_down (proc_clock p) (shutdown_process sc p)" "computed (proc_state (shutdown_process sc p)) = computed (proc_state p)"
    using assms(2) shutdown_quiet [OF assms(1)]
    by (auto simp: going_down_def shutdown_process_def exit_timer_def Let_def)
  have "proc_state (shutdown_process sc p) = shutdownServer sc (proc_state p)"
    by (simp add: shutdown_process_def exit_timer_def Let_def)
  then have "agree x (proc_state p) (proc_state q) \<or> list_ex (writes x) es" for x
    using going_down_run [OF assms(3) g(1), of x] agree_trans [OF agree_shutdown] by auto
  moreover from going_down_run [OF assms(3) g(1)] g(2)
  have q: "going_down (proc_clock p) q" "computed (proc_state q) = computed (proc_state p)" "Connected \<notin> set es" by auto
  moreover have "\<exists>ms r code. process_run sc q [Served (Elapse ms), TimerFired] r \<and> proc_exit r = Some code"
    if "proc_exit q = None" "proc_connections q \<noteq> 0" by (rule timer_exits [OF q(1) that])
  moreover have "process_step sc q e r \<longleftrightarrow> e = CloseCallback \<and> r = process_exit 0 q" if "proc_exit q = None" "proc_connections q = 0" for e r
    using drained_step [of q sc e r] that q(1) by (simp add: drained_def going_down_def)
  ultimately show ?thesis by (simp add: going_down_def)
qed

section \<open>The exit code after a fatal error\<close>

text \<open>A fatal error at time \<open>t\<close>, with no timer from before: the timer that exits with 1 is the first.\<close>

definition failing :: "int \<Rightarrow> ServerProcess \<Rightarrow> bool" where
  "failing t p = (going_down t p \<and> (\<exists>later. proc_timers p = (t + 5000, 1) # later \<and> (\<forall>(due, code) \<in> set later. t + 5000 \<le> due)))"

lemma failing_step:
  assumes "failing t p" "proc_exit p = None" "process_step sc p e q"
  shows "failing t q" "proc_exit q = (if e = CloseCallback then Some 0 else if e = TimerFired then Some 1 else None)"
    "e = TimerFired \<Longrightarrow> proc_clock q = t + 5000 \<and> proc_connections q \<noteq> 0" "e = CloseCallback \<Longrightarrow> proc_connections q = 0"
proof -
  have g: "going_down t p" using assms(1) by (simp add: failing_def)
  obtain later where l: "proc_timers p = (t + 5000, 1) # later" "\<forall>(due, code) \<in> set later. t + 5000 \<le> due"
    using assms(1) by (auto simp: failing_def)
  have n: "next_timer (proc_timers p) = Some (t + 5000, 1)"
    using l by (auto simp: next_timer_def list_all_iff)
  have "proc_clock p \<le> t + 5000" "t \<le> proc_clock p" "proc_server p" using g by (auto simp: going_down_def)
  have "(\<exists>later. proc_timers q = (t + 5000, 1) # later \<and> (\<forall>(due, code) \<in> set later. t + 5000 \<le> due)) \<and>
    proc_exit q = (if e = CloseCallback then Some 0 else if e = TimerFired then Some 1 else None) \<and>
    (e = TimerFired \<longrightarrow> proc_clock q = t + 5000 \<and> proc_connections q \<noteq> 0) \<and> (e = CloseCallback \<longrightarrow> proc_connections q = 0)"
    using assms(3)
  proof (cases rule: process_step.cases)
    case (served op)
    have quiet: "quiet (proc_state p)" using g by (simp add: going_down_def)
    obtain more where "proc_timers (serve sc op p) = proc_timers p @ more" "\<forall>(due, code) \<in> set more. proc_clock p \<le> due - 5000"
      using serve_frame(6) [OF quiet \<open>servable p op\<close>] by blast
    with served l \<open>t \<le> proc_clock p\<close> have "\<exists>later. proc_timers q = (t + 5000, 1) # later \<and> (\<forall>(due, code) \<in> set later. t + 5000 \<le> due)"
      by fastforce
    with served show ?thesis using assms(2) serve_frame(4) [OF quiet \<open>servable p op\<close>, of sc] by simp
  next
    case signalled
    then show ?thesis
      using l assms(2) \<open>proc_clock p \<le> t + 5000\<close> \<open>t \<le> proc_clock p\<close> \<open>proc_server p\<close> g
      by (auto simp: shutdown_process_def exit_timer_def going_down_def shutdown_of_quiet Let_def)
  next
    case crashed
    then show ?thesis
      using l assms(2) \<open>proc_clock p \<le> t + 5000\<close> \<open>t \<le> proc_clock p\<close> \<open>proc_server p\<close> g
      by (auto simp: on_fatal_error_def shutdown_process_def exit_timer_def going_down_def shutdown_of_quiet Let_def)
  next
    case (timer_fired due code)
    then show ?thesis using n l g by (auto simp: process_exit_def going_down_def drained_def)
  qed (use l assms(2) g in \<open>auto simp: process_exit_def going_down_def drained_def\<close>)
  then show "failing t q" "proc_exit q = (if e = CloseCallback then Some 0 else if e = TimerFired then Some 1 else None)"
    "e = TimerFired \<Longrightarrow> proc_clock q = t + 5000 \<and> proc_connections q \<noteq> 0" "e = CloseCallback \<Longrightarrow> proc_connections q = 0"
    using going_down_step [OF g assms(3)] by (auto simp: failing_def)
qed

lemma step_running: "process_step sc p e q \<Longrightarrow> proc_exit p = None"
  by (cases rule: process_step.cases)

lemma failing_run:
  assumes "process_run sc p es q" "failing t p" "proc_exit p = None"
  shows "failing t q \<and> proc_exit q = (if CloseCallback \<in> set es then Some 0 else if TimerFired \<in> set es then Some 1 else None) \<and>
    (TimerFired \<in> set es \<longrightarrow> proc_clock q = t + 5000 \<and> proc_connections q \<noteq> 0) \<and> (CloseCallback \<in> set es \<longrightarrow> proc_connections q = 0)"
  using assms
proof (induction rule: process_run.induct)
  case (run_step p es q e r)
  then have q: "failing t q" "proc_exit q = (if CloseCallback \<in> set es then Some 0 else if TimerFired \<in> set es then Some 1 else None)"
    by auto
  have "proc_exit q = None" by (rule step_running [OF run_step.hyps(2)])
  with q have "CloseCallback \<notin> set es" "TimerFired \<notin> set es" by (auto split: if_splits)
  then show ?case using failing_step [OF q(1) \<open>proc_exit q = None\<close> run_step.hyps(2)] by auto
qed simp

text \<open>C15. The exit code after a fatal error of a running process is decided by its connections: with a connection still open
  after 5 seconds the process exits with 1 at that moment; when its last connection ends before, or it had none, the only
  thing it can do is to exit with 0, as after a signal, so it reports success.\<close>

theorem fatal_error_code:
  assumes "timers_ok (sc_pipeline sc) (proc_state p)" "proc_server p" "proc_timers p = []" "proc_exit p = None"
    and "process_run sc (on_fatal_error sc p) es q"
  shows "proc_exit q = (if CloseCallback \<in> set es then Some 0 else if TimerFired \<in> set es then Some 1 else None) \<and>
    (proc_exit q = Some 1 \<longrightarrow> proc_clock q = proc_clock p + 5000 \<and> proc_connections q \<noteq> 0) \<and>
    (proc_exit q = Some 0 \<longrightarrow> proc_connections q = 0) \<and>
    (proc_exit q = None \<and> proc_connections q = 0 \<longrightarrow>
      (\<forall>e r. process_step sc q e r \<longleftrightarrow> e = CloseCallback \<and> r = process_exit 0 q))"
proof -
  have f: "failing (proc_clock p) (on_fatal_error sc p)" "proc_exit (on_fatal_error sc p) = None"
    using assms(2-4) shutdown_quiet [OF assms(1)]
    by (auto simp: failing_def going_down_def on_fatal_error_def shutdown_process_def exit_timer_def Let_def)
  note run = failing_run [OF assms(5) f]
  have "drained q" if "proc_connections q = 0" using run that by (simp add: failing_def going_down_def drained_def)
  then have "process_step sc q e r \<longleftrightarrow> e = CloseCallback \<and> r = process_exit 0 q" if "proc_exit q = None" "proc_connections q = 0" for e r
    using drained_step that by blast
  with run show ?thesis by (auto split: if_splits)
qed

text \<open>A running process that is told to stop and whose last connection has ended, and one that fails with
  a connection open.\<close>

definition demo_process :: ServerProcess where
  "demo_process = (startServer demo_server 0)\<lparr>proc_listening := True, proc_connections := 1\<rparr>"

lemma demo_process_ok: "timers_ok (sc_pipeline demo_server) (proc_state demo_process)" "proc_server demo_process"
    "proc_timers demo_process = []" "proc_exit demo_process = None"
  using timers_startup [of demo_server 0] by (simp_all add: demo_process_def startServer_def)

lemma graceful_shutdown_witness:
  "\<exists>q. process_run demo_server (shutdown_process demo_server demo_process) [Disconnected] q \<and>
    \<not> proc_listening q \<and> proc_clock q \<le> 5000 \<and> computed (proc_state q) = computed (startup demo_server 0) \<and>
    alertStore (proc_state q) = [] \<and> (\<forall>e r. process_step demo_server q e r \<longleftrightarrow> e = CloseCallback \<and> r = process_exit 0 q)"
proof -
  let ?p = "shutdown_process demo_server demo_process"
  have "process_step demo_server ?p Disconnected (?p\<lparr>proc_connections := 0\<rparr>)"
    by (intro process_step.disconnected)
      (simp_all add: shutdown_process_def exit_timer_def demo_process_def startServer_def Let_def)
  then have r: "process_run demo_server ?p [Disconnected] (?p\<lparr>proc_connections := 0\<rparr>)" by (rule run_single)
  have e: "proc_exit (?p\<lparr>proc_connections := 0\<rparr>) = None"
    by (simp add: shutdown_process_def exit_timer_def demo_process_def startServer_def Let_def)
  have "proc_clock demo_process = 0" "proc_state demo_process = startup demo_server 0"
    by (simp_all add: demo_process_def startServer_def startup_def initial_def Let_def)
  moreover have "alertStore (startup demo_server 0) = []" by (simp add: startup_def initial_def Let_def)
  moreover note g = graceful_shutdown [OF demo_process_ok(1,2) r]
  have "agree Alerts (proc_state demo_process) (proc_state (?p\<lparr>proc_connections := 0\<rparr>)) \<or> list_ex (writes Alerts) [Disconnected]"
    using g by blast
  ultimately show ?thesis using r e g by (intro exI [of _ "?p\<lparr>proc_connections := 0\<rparr>"]) (simp add: writes_def)
qed

lemma fatal_error_code_witness:
  "\<exists>q. process_run demo_server (on_fatal_error demo_server demo_process) [Disconnected, CloseCallback] q \<and> proc_exit q = Some 0"
proof -
  let ?p = "on_fatal_error demo_server demo_process"
  have "process_step demo_server ?p Disconnected (?p\<lparr>proc_connections := 0\<rparr>)"
    by (intro process_step.disconnected)
      (simp_all add: on_fatal_error_def shutdown_process_def exit_timer_def demo_process_def startServer_def Let_def)
  then have "process_run demo_server ?p [Disconnected] (?p\<lparr>proc_connections := 0\<rparr>)" by (rule run_single)
  moreover have "process_step demo_server (?p\<lparr>proc_connections := 0\<rparr>) CloseCallback (process_exit 0 (?p\<lparr>proc_connections := 0\<rparr>))"
    by (intro process_step.close_callback)
      (simp_all add: drained_def on_fatal_error_def shutdown_process_def exit_timer_def demo_process_def startServer_def Let_def)
  ultimately have r: "process_run demo_server ?p [Disconnected, CloseCallback] (process_exit 0 (?p\<lparr>proc_connections := 0\<rparr>))"
    using process_run.run_step by fastforce
  from fatal_error_code [OF demo_process_ok r] r show ?thesis by auto
qed

end
