(* ===== verification/Middleware.thy ===== *)
theory Middleware
  imports Server
begin

text \<open>
  The middleware of \<open>src/server.ts\<close> in front of the routes: the JSON parser, the headers for
  cross-origin requests and the request log. A call is what the framework hands over: the method and the
  path without its query, the headers, whether the body is JSON, and the endpoint its router matches
  with the parameters decoded. The lemmas say which origins are let in and that
  the request log accounts for every change a client makes.
\<close>

section \<open>Calls\<close>

record http_call =
  call_method :: string
  call_path :: string
  call_origin :: "string option"
  call_headers :: http_request
  call_body_valid :: bool
  call_endpoint :: "endpoint option"

record log_line =
  line_timestamp :: string
  line_method :: string
  line_path :: string
  line_statusCode :: nat
  line_durationMs :: int
  line_actorRole :: "Role option"

definition cors_headers :: "string list \<Rightarrow> string option \<Rightarrow> (string \<times> string) list" where
  "cors_headers allowedOrigins origin =
     (case cors_origin allowedOrigins origin of Some o' \<Rightarrow> [(''Access-Control-Allow-Origin'', o')] | None \<Rightarrow> []) @
     [(''Access-Control-Allow-Methods'', ''GET, POST, PUT, DELETE, OPTIONS''),
      (''Access-Control-Allow-Headers'', ''Content-Type, Authorization, X-API-Key'')]"

text \<open>\<open>req.actorRole\<close> once the request has been handled: \<open>requireRole\<close> sets it when it lets the request
  through.\<close>

definition actor_role :: "ServerConfig \<Rightarrow> http_request \<Rightarrow> endpoint \<Rightarrow> Role option" where
  "actor_role sc req ep =
     (case allowed_roles ep of
        None \<Rightarrow> None
      | Some roles \<Rightarrow> (case requireRole (sc_apiKeys sc) roles req of Proceed role key \<Rightarrow> Some role | _ \<Rightarrow> None))"

text \<open>The routes; the framework answers a call that matches none with 404.\<close>

definition routed :: "ServerConfig \<Rightarrow> http_call \<Rightarrow> PipelineState \<Rightarrow> (response \<times> Role option) \<times> PipelineState" where
  "routed sc call s =
     (case call_endpoint call of
        None \<Rightarrow> (((404, NoBody), None), s)
      | Some ep \<Rightarrow>
          (let (r, s') = handle_request sc (call_headers call) ep s in ((r, actor_role sc (call_headers call) ep), s')))"

text \<open>A call from the parser to the end of its response at \<open>finishedAt\<close>: the parser answers a malformed
  body with 400, and a preflight call ends in the middleware for the headers; neither reaches the log.\<close>

definition handle_call :: "ServerConfig \<Rightarrow> http_call \<Rightarrow> int \<Rightarrow> int \<Rightarrow> PipelineState
    \<Rightarrow> (response \<times> (string \<times> string) list \<times> log_line option) \<times> PipelineState" where
  "handle_call sc call startedAt finishedAt s =
     (if \<not> call_body_valid call then (((400, NoBody), [], None), s)
      else
        (let headers = cors_headers (sc_allowedOrigins sc) (call_origin call)
         in if call_method call = ''OPTIONS'' then (((200, NoBody), headers, None), s)
            else
              (let ((r, role), s') = routed sc call s;
                   line = \<lparr>line_timestamp = toISOString finishedAt, line_method = call_method call,
                     line_path = call_path call, line_statusCode = fst r, line_durationMs = finishedAt - startedAt,
                     line_actorRole = role\<rparr>
               in ((r, headers, Some line), s'))))"

section \<open>Origins\<close>

lemma parse_origins_set:
  "set (parse_origins env) = {origin. origin \<noteq> [] \<and> origin \<in> trim ` set (split_on CHR '','' (coalesce env ''''))}"
proof -
  have "set (fold (\<lambda>origin origins. if origin \<in> set origins then origins else origins @ [origin]) xs ys) = set xs \<union> set ys" for xs ys :: "string list"
    by (induction xs arbitrary: ys) auto
  then show ?thesis by (auto simp: parse_origins_def)
qed

text \<open>The header that admits an origin is set for the origins of the list only, never for all.\<close>

lemma cors_allow_list:
  "map_of (cors_headers (parse_origins env) origin) ''Access-Control-Allow-Origin'' =
    (if truthy_str origin \<and> the origin \<in> trim ` set (split_on CHR '','' (coalesce env '''')) then origin else None)"
  by (cases origin) (auto simp: cors_headers_def cors_origin_def parse_origins_set)

section \<open>The request log\<close>

lemma not_found_unchanged:
  assumes "route_handler sc ep s = ((404, body), s')"
  shows "s' = s"
proof (cases ep)
  case (PostSignal b)
  then show ?thesis using assms by (auto simp: post_signal_def Let_def split: prod.splits SignalIngestionResult.splits)
next
  case (PostExecute g i u)
  then show ?thesis
    using assms by (auto simp: post_execute_def executeAction_def found_or_404_def Let_def split: option.splits)
next
  case (PostAccept r i d)
  then show ?thesis
    using assms by (auto simp: post_accept_def acceptRedirection_def found_or_404_def Let_def split: option.splits)
next
  case (PostReject r i d)
  then show ?thesis
    using assms by (auto simp: post_reject_def rejectRedirection_def found_or_404_def Let_def split: option.splits)
next
  case (PostAcknowledge i u)
  then show ?thesis
    using assms by (auto simp: post_acknowledge_def acknowledgeAlert_def found_or_404_def Let_def split: option.splits)
qed (use assms in \<open>auto simp: get_handler_defs get_source_status_def split: prod.splits\<close>)

lemma routed_change:
  assumes "routed sc call s = (((status, body), role), s')"
  shows "s' = s \<or> (\<exists>ep roles r. call_endpoint call = Some ep \<and> allowed_roles ep = Some roles \<and> role = Some r \<and> r \<in> set roles \<and>
    status \<notin> {401, 403, 404})"
proof (cases "call_endpoint call")
  case None
  then show ?thesis using assms by (simp add: routed_def)
next
  case (Some ep)
  show ?thesis
  proof (cases "allowed_roles ep")
    case None
    then have "ep = Preflight \<or> ep = Healthz" by (cases ep) simp_all
    then show ?thesis using assms Some None by (auto simp: routed_def handle_request_def)
  next
    case (Some roles)
    note ep = \<open>call_endpoint call = Some ep\<close>
    show ?thesis
    proof (cases "requireRole (sc_apiKeys sc) roles (call_headers call)")
      case (Proceed r key)
      then have h: "route_handler sc ep s = ((status, body), s')" "role = Some r" "r \<in> set roles"
        using assms ep Some
        by (auto simp: routed_def handle_request_def actor_role_def requireRole_def Let_def find_Some_iff simp del: route_handler.simps
            split: option.splits prod.splits)
      have "status \<notin> {401, 403}"
        using h(1) by (cases ep) (auto simp: post_signal_def get_handler_defs get_source_status_def post_execute_def post_accept_def
            post_reject_def post_acknowledge_def found_or_404_def Let_def split: prod.splits option.splits SignalIngestionResult.splits)
      moreover have "status = 404 \<Longrightarrow> s' = s" using not_found_unchanged h(1) by simp
      ultimately show ?thesis using ep Some h by auto
    qed (use assms ep Some in \<open>auto simp: routed_def handle_request_def\<close>)
  qed
qed

text \<open>C13. Accountability: whatever a call does, the state is unchanged or the request log gets a line with the
  call's method and path, its status and the role it acted in, a role the endpoint is for; refused
  calls, calls for nothing that exists, preflight calls and calls with a malformed body change
  nothing. The log line says nothing else of the request than its method and path.\<close>

theorem changes_are_logged:
  "case handle_call sc call startedAt finishedAt s of ((r, headers, line), s') \<Rightarrow>
     s' = s \<or> (\<exists>ep roles role. call_endpoint call = Some ep \<and> allowed_roles ep = Some roles \<and> role \<in> set roles \<and>
       fst r \<notin> {401, 403, 404} \<and> call_method call \<noteq> ''OPTIONS'' \<and> call_body_valid call \<and>
       line = Some \<lparr>line_timestamp = toISOString finishedAt, line_method = call_method call, line_path = call_path call,
         line_statusCode = fst r, line_durationMs = finishedAt - startedAt, line_actorRole = Some role\<rparr>)"
proof -
  obtain status body role s' where "routed sc call s = (((status, body), role), s')" by (metis prod.collapse)
  with routed_change [OF this] show ?thesis by (auto simp: handle_call_def Let_def)
qed

end
