(* ===== verification/Cooldown.thy ===== *)
theory Cooldown
  imports EndToEnd
begin

text \<open>
  The cooldown of the fan nudges over whole runs of the server. The invariant knows, as history, when each
  recorded nudge was generated: the cooldown store remembers those whose period is not over, and
  two of them to the same fan about the same gate are apart. The second part is the other
  direction: a signal that leaves its gate congested nudges every fan of the gate whose cooldown is over.
\<close>

section \<open>One score update\<close>

definition apart :: "(int \<times> FanNudge) list \<Rightarrow> bool" where
  "apart past = (\<forall>(t, n) \<in> set past. \<forall>(t', n') \<in> set past. nudge_key n = nudge_key n' \<longrightarrow>
     t = t' \<or> COOLDOWN_PERIOD_MS \<le> \<bar>t - t'\<bar>)"

lemma apart_Cons:
  assumes "apart past" "\<forall>(t, m') \<in> set past. nudge_key m' = nudge_key m \<longrightarrow> t + COOLDOWN_PERIOD_MS \<le> now"
  shows "apart ((now, m) # past)"
proof -
  have "COOLDOWN_PERIOD_MS \<le> \<bar>now - t\<bar> \<and> COOLDOWN_PERIOD_MS \<le> \<bar>t - now\<bar>" if "(t, m') \<in> set past" "nudge_key m' = nudge_key m" for t m'
    using assms(2) that by fastforce
  then show ?thesis using assms(1) unfolding apart_def by fastforce
qed

text \<open>What the history says of a recorded nudge.\<close>

definition dated :: "(int \<times> FanNudge) list \<Rightarrow> FanNudge \<Rightarrow> bool" where
  "dated past n = (\<exists>(t, m) \<in> set past. valid_time t \<and> nudge_key m = nudge_key n \<and> nudge_generatedAt n = toISOString t)"

lemma dated_mono: "dated past n \<Longrightarrow> set past \<subseteq> set past' \<Longrightarrow> dated past' n"
  unfolding dated_def by blast

lemma enqueue_values: "snd ` set (enqueueNudge n m) \<subseteq> insert n (snd ` set m)"
  using set_AList_update [of "nudgeId n" n m] by (auto simp: enqueueNudge_def)

lemma generated_at: "generateFanNudge lc fan g forecasts l now = Some n \<Longrightarrow> nudge_generatedAt n = toISOString now"
  by (auto simp: generateFanNudge_def Let_def split: if_splits)

lemma update_remembers:
  assumes "nudge_onScoreUpdate lc fans g forecasts now now st = (ns, st')"
    and "remembers now past (fst st)" "apart past" "no_colon (gate_id g)" "valid_time now"
  shows "\<exists>past'. remembers now past' (fst st') \<and> apart past' \<and> set past \<subseteq> set past' \<and> (\<forall>n \<in> set ns. dated past' n) \<and>
    snd ` set (snd st') \<subseteq> snd ` set (snd st) \<union> set ns"
  using assms
proof (induction fans arbitrary: st ns past)
  case Nil
  then show ?case by auto
next
  case (Cons fan fans)
  let ?e = "\<lparr>ne_fan = fan, ne_gate = g, ne_forecasts = forecasts, ne_time = now\<rparr>"
  obtain n st1 where n: "nudge_fan lc g forecasts now now fan st = (n, st1)" by (metis surj_pair)
  have "nudge_onScoreUpdate lc fans g forecasts now now st1 = (fst (nudge_onScoreUpdate lc fans g forecasts now now st1), st')"
    "ns = (case n of None \<Rightarrow> fst (nudge_onScoreUpdate lc fans g forecasts now now st1)
      | Some nudge \<Rightarrow> nudge # fst (nudge_onScoreUpdate lc fans g forecasts now now st1))"
    using Cons.prems(1) n by (auto simp: case_prod_beta Let_def)
  then obtain ns1 where ns1: "nudge_onScoreUpdate lc fans g forecasts now now st1 = (ns1, st')"
    "ns = (case n of None \<Rightarrow> ns1 | Some nudge \<Rightarrow> nudge # ns1)" by blast
  have step: "case n of None \<Rightarrow> remembers now past (fst st1)
    | Some m \<Rightarrow> remembers now ((now, m) # past) (fst st1) \<and>
        (\<forall>(t, m') \<in> set past. nudge_key m' = nudge_key m \<longrightarrow> t + COOLDOWN_PERIOD_MS \<le> now)"
    using remembers_step [of now past st ?e lc n st1] Cons.prems(2,4,5) n by (cases n) simp_all
  show ?case
  proof (cases n)
    case None
    then have "snd st1 = snd st" using n by (auto simp: nudge_fan_get split: option.splits)
    then show ?thesis using Cons.IH [OF ns1(1) _ Cons.prems(3-5)] step ns1(2) None by simp
  next
    case (Some m)
    with step have "remembers now ((now, m) # past) (fst st1)" "apart ((now, m) # past)"
      using apart_Cons [OF Cons.prems(3)] by auto
    from Cons.IH [OF ns1(1) this Cons.prems(4,5)] obtain past' where p: "remembers now past' (fst st')" "apart past'"
      "set ((now, m) # past) \<subseteq> set past'" "\<forall>n \<in> set ns1. dated past' n" "snd ` set (snd st') \<subseteq> snd ` set (snd st1) \<union> set ns1"
      by blast
    have "nudge_generatedAt m = toISOString now" "snd st1 = enqueueNudge m (snd st)"
      using n Some generated_at by (auto simp: nudge_fan_get split: option.splits)
    then have "dated past' m" "snd ` set (snd st1) \<subseteq> insert m (snd ` set (snd st))"
      using p(3) Cons.prems(5) enqueue_values [of m "snd st"] by (auto simp: dated_def)
    moreover from this(2) p(5) have "snd ` set (snd st') \<subseteq> snd ` set (snd st) \<union> set (m # ns1)" by (simp add: subset_iff) blast
    ultimately show ?thesis using p ns1(2) Some by (intro exI [of _ past']) simp
  qed
qed

section \<open>The invariant\<close>

text \<open>What the invariant depends on.\<close>

type_synonym nudge_view = "int \<times> expiring_map \<times> QueuedNudgeState \<times> NudgeAuditQueryState \<times> (string, FanNudge) jsmap"

definition nudge_view :: "PipelineState \<Rightarrow> nudge_view" where
  "nudge_view s = (p_clock s, cooldownStore (p_redis s), nw_queue (p_nudges s), nw_query (p_nudges s),
     audit_nudges (nw_audit (p_nudges s)))"

text \<open>All nudges the server has recorded: queued or settled, listed for the operators, and audited.\<close>

definition recorded_nudges :: "PipelineState \<Rightarrow> FanNudge set" where
  "recorded_nudges s = snd ` set (nw_queue (p_nudges s)) \<union> set (nw_query (p_nudges s)) \<union>
     snd ` set (audit_nudges (nw_audit (p_nudges s)))"

definition cooldowns_ok :: "PipelineState \<Rightarrow> bool" where
  "cooldowns_ok s = (0 \<le> p_clock s \<and> (valid_time (p_clock s) \<longrightarrow>
     (\<exists>past. remembers (p_clock s) past (p_redis s) \<and> apart past \<and> (\<forall>n \<in> recorded_nudges s. dated past n))))"

lemma cooldown_store: "cooldownStore r = cooldownStore r' \<Longrightarrow> fst (get_cooldown k t r) = fst (get_cooldown k t r')"
  by (simp add: get_cooldown_def getLastNudgeAt_def case_prod_beta Let_def)

lemma remembers_store: "cooldownStore r = cooldownStore r' \<Longrightarrow> remembers now past r = remembers now past r'"
  using cooldown_store [of r r'] by (simp add: remembers_def)

lemma cooldowns_ok_cong:
  assumes "cooldowns_ok s" "nudge_view s' = nudge_view s"
  shows "cooldowns_ok s'"
proof -
  have "recorded_nudges s' = recorded_nudges s" "p_clock s' = p_clock s" "cooldownStore (p_redis s') = cooldownStore (p_redis s)"
    using assms(2) by (simp_all add: nudge_view_def recorded_nudges_def)
  with assms(1) remembers_store [OF this(3)] show ?thesis by (simp add: cooldowns_ok_def)
qed

lemma cooldowns_clock:
  assumes "cooldowns_ok s"
  shows "cooldowns_ok (s\<lparr>p_clock := p_clock s + int ms\<rparr>)"
proof -
  have "remembers (p_clock s + int ms) past r" if "remembers (p_clock s) past r" for past r
    using that by (force simp: remembers_def)
  moreover have "valid_time (p_clock s)" if "valid_time (p_clock s + int ms)" using that assms by (simp add: valid_time_def cooldowns_ok_def)
  ultimately show ?thesis using assms by (auto simp: cooldowns_ok_def recorded_nudges_def)
qed

section \<open>The score update in the server\<close>

abbreviation nudges_log :: "PipelineState \<Rightarrow> (string, FanNudge) jsmap" where
  "nudges_log s \<equiv> audit_nudges (nw_audit (p_nudges s))"

lemma audit_message_nudges [simp]:
  "nudges_log (audit_message m s) = (case m of AuditNudge n \<Rightarrow> AList.update (nudgeId n) n (nudges_log s) | _ \<Rightarrow> nudges_log s)"
  by (cases m) (simp_all add: audit_message_log handle_memory)

lemma leaf_publish_nudges [simp]:
  "nudges_log (leaf_publish m s) = (if p_subscribed s then (case m of FanNudgeMsg n \<Rightarrow> AList.update (nudgeId n) n (nudges_log s)
     | _ \<Rightarrow> nudges_log s) else nudges_log s)"
proof -
  have "nudges_log (fold audit_message (map AuditAction as) s) = nudges_log s" for as
    by (induction as arbitrary: s) simp_all
  then show ?thesis by (cases m) (simp_all add: leaf_publish_def)
qed

lemma before_nudges:
  "nudge_view (pipe_broadcast e s) = nudge_view s"
  "nudge_view (fold (publish_redirection leaf_publish) rs s) = nudge_view s"
  "nudge_view (snd (update_actions cfg leaf_publish gate result s)) = nudge_view s"
  "nudge_view (note_forecast cfg gate result t s) = nudge_view s"
proof -
  show "nudge_view (pipe_broadcast e s) = nudge_view s" for e s
    by (simp add: nudge_view_def)
  note b = this
  have "nudge_view (publish_redirection leaf_publish r s) = nudge_view s" for r s
    by (simp add: publish_redirection_def Let_def nudge_view_def)
  then show "nudge_view (fold (publish_redirection leaf_publish) rs s) = nudge_view s" by (induction rs arbitrary: s) simp_all
  show "nudge_view (snd (update_actions cfg leaf_publish gate result s)) = nudge_view s"
    by (simp add: update_actions_def onScoreUpdate_def publishActions_def Let_def nudge_view_def split: sum.splits)
  show "nudge_view (note_forecast cfg gate result t s) = nudge_view s"
    by (simp add: note_forecast_def raiseRiskLevelAlertIfTransitioned_def publishAlert_def draw_def pipe_broadcast_def Let_def
        nudge_view_def split: option.splits)
qed

lemma published_nudges:
  "snd ` set (nudges_log (fold (\<lambda>n. leaf_publish (FanNudgeMsg n)) ns s)) \<subseteq> snd ` set (nudges_log s) \<union> set ns"
proof (induction ns arbitrary: s)
  case (Cons n ns)
  have "snd ` set (AList.update (nudgeId n) n m) \<subseteq> insert n (snd ` set m)" for m :: "(string, FanNudge) jsmap"
    using set_AList_update [of "nudgeId n" n m] by auto
  then have "snd ` set (nudges_log (leaf_publish (FanNudgeMsg n) s)) \<subseteq> insert n (snd ` set (nudges_log s))" by auto
  with Cons.IH [of "leaf_publish (FanNudgeMsg n) s"] show ?case by auto
qed simp

lemma cooldowns_generate:
  assumes "cooldowns_ok s" "no_colon (gate_id gate)"
  shows "cooldowns_ok (generate_nudges cfg leaf_publish gate (p_clock s) s)"
proof (cases "valid_time (p_clock s)")
  case True
  let ?fans = "map snd (get_or (fansByGate s) (gate_id gate) [])"
  obtain ns redis queue where o: "nudge_onScoreUpdate (cfg_lc cfg) ?fans gate (forecastsByGate s) (p_clock s) (p_clock s)
      (p_redis s, nw_queue (p_nudges s)) = (ns, redis, queue)" by (metis prod_cases3)
  obtain past where past: "remembers (p_clock s) past (p_redis s)" "apart past" "\<forall>n \<in> recorded_nudges s. dated past n"
    using assms(1) True by (auto simp: cooldowns_ok_def)
  obtain past' where p: "remembers (p_clock s) past' redis" "apart past'" "set past \<subseteq> set past'" "\<forall>n \<in> set ns. dated past' n"
    "snd ` set queue \<subseteq> snd ` set (nw_queue (p_nudges s)) \<union> set ns"
    using update_remembers [OF o, of past] past(1,2) assms(2) True by auto
  let ?s1 = "s\<lparr>p_redis := redis, p_nudges := (p_nudges s)\<lparr>nw_queue := queue\<rparr>\<rparr>"
  let ?g = "generate_nudges cfg leaf_publish gate (p_clock s) s"
  have g: "?g = fold (\<lambda>n. leaf_publish (FanNudgeMsg n)) ns ?s1" using o by (simp add: generate_nudges_def Let_def)
  have "recorded_nudges ?g \<subseteq> recorded_nudges s \<union> set ns"
    using p(5) published_nudges [of ns ?s1] unfolding g recorded_nudges_def by auto
  then have "\<forall>n \<in> recorded_nudges ?g. dated past' n" using p(3,4) past(3) dated_mono by blast
  moreover have "p_clock ?g = p_clock s" "p_redis ?g = redis" by (simp_all add: g)
  ultimately show ?thesis using p(1,2) assms(1) by (auto simp: cooldowns_ok_def)
next
  case False
  then show ?thesis using assms(1) by (simp add: cooldowns_ok_def)
qed

lemma cooldowns_publish:
  assumes "cooldowns_ok s" "p_subscribed s" "scores result = p # ps" "no_colon (gate_id gate)"
  shows "cooldowns_ok (score_effect cfg \<lparr>csm_gate = gate, csm_result = result\<rparr> (store_forecast gate result s))"
proof -
  let ?s = "store_forecast gate result s"
  have s: "cooldowns_ok ?s" by (rule cooldowns_ok_cong [OF assms(1)]) (simp add: nudge_view_def)
  let ?body = "score_body cfg gate result ?s"
  obtain s4 where s4: "?body = generate_nudges cfg leaf_publish gate (p_clock ?s) s4" "nudge_view s4 = nudge_view ?s"
    by (simp add: score_body_def Let_def before_nudges)
  from cooldowns_ok_cong [OF s s4(2)] have "cooldowns_ok s4" .
  moreover have "p_clock s4 = p_clock ?s" using s4(2) by (simp add: nudge_view_def)
  ultimately have "cooldowns_ok ?body" using cooldowns_generate [of s4 gate cfg] assms(4) by (simp add: s4(1))
  then show ?thesis
    using assms(2,3) by (auto simp: score_effect_eq [of result p ps] nudge_view_def elim!: cooldowns_ok_cong)
qed

section \<open>The delivery worker\<close>

lemma settled_same: "nudge_key (settled forecasts now n) = nudge_key n" "nudge_generatedAt (settled forecasts now n) = nudge_generatedAt n"
  by (simp_all add: settled_def nudge_key_def)

definition world_nudges :: "NudgeWorld \<Rightarrow> FanNudge set" where
  "world_nudges w = snd ` set (nw_queue w) \<union> set (nw_query w) \<union> snd ` set (audit_nudges (nw_audit w))"

lemma worker_nudges:
  assumes "\<forall>n \<in> world_nudges w. dated past n"
  shows "\<forall>n \<in> world_nudges (process_world forecasts now w). dated past n"
proof -
  have step: "\<forall>m \<in> world_nudges (deliver_one world_update recordDelivery recordCancellation forecasts now n w). dated past m"
    if "\<forall>m \<in> world_nudges w. dated past m" "dated past n" for n w
  proof -
    have "dated past (settled forecasts now n)" using that(2) by (simp add: dated_def settled_same)
    moreover have "world_nudges (deliver_one world_update recordDelivery recordCancellation forecasts now n w) \<subseteq>
        insert (settled forecasts now n) (world_nudges w)"
    proof -
      have "snd ` set (AList.update k m xs) \<subseteq> insert m (snd ` set xs)" for k m and xs :: "(string, FanNudge) jsmap"
        using set_AList_update [of k m xs] by auto
      note this [of "nudgeId (settled forecasts now n)" "settled forecasts now n" "nw_queue w"]
        this [of "nudgeId (settled forecasts now n)" "settled forecasts now n" "audit_nudges (nw_audit w)"]
      then show ?thesis
        by (cases "nudge_status n = QUEUED") (simp_all add: deliver_one_eq world_nudges_def updateNudge_def writeNudgeAudit_def, blast+)
    qed
    ultimately show ?thesis using that(1) by blast
  qed
  have "\<forall>m \<in> world_nudges (fold (deliver_one world_update recordDelivery recordCancellation forecasts now) ns w). dated past m"
    if "\<forall>m \<in> world_nudges w. dated past m" "\<forall>n \<in> set ns. dated past n" for ns w
    using that
  proof (induction ns arbitrary: w)
    case (Cons n ns)
    have "\<forall>m \<in> world_nudges (deliver_one world_update recordDelivery recordCancellation forecasts now n w). dated past m"
      by (rule step) (use Cons.prems in simp_all)
    from Cons.IH [OF this] Cons.prems(2) show ?case by simp
  qed simp
  moreover have "\<forall>n \<in> set (getQueuedNudges (nw_queue w)). dated past n"
    using assms by (auto simp: getQueuedNudges_def world_nudges_def)
  ultimately show ?thesis using assms unfolding processQueue_def by blast
qed

lemma recorded_world: "recorded_nudges s = world_nudges (p_nudges s)"
  by (simp add: recorded_nudges_def world_nudges_def)

lemma cooldowns_worker:
  assumes "cooldowns_ok s"
  shows "cooldowns_ok (s\<lparr>p_nudges := process_world (forecastsByGate s) (p_clock s) (p_nudges s)\<rparr>)"
  using assms worker_nudges [of "p_nudges s"] by (fastforce simp: cooldowns_ok_def recorded_world)

section \<open>Every run\<close>

definition colon_free :: "ServerConfig \<Rightarrow> bool" where
  "colon_free sc = (\<forall>g \<in> set (cfg_gates (sc_pipeline sc)). no_colon (gate_id g))"

lemma check_gate_view: "nudge_view (check_gate_quality cfg g s) = nudge_view s"
  by (auto simp: check_gate_quality_def raiseDataQualityAlertIfAllDegraded_def publishAlert_def draw_def allSourcesDegraded_def
      nudge_view_def Let_def split: prod.splits dest!: status_cooldowns)

lemma cooldowns_invariant:
  assumes "colon_free sc"
  shows "server_invariant sc cooldowns_ok"
proof
  fix s and gate :: Gate and result :: ForecastResult and p ps
  assume "cooldowns_ok s" "p_subscribed s" "scores result = p # ps" "known_gate (sc_pipeline sc) gate"
  moreover from this(4) assms have "no_colon (gate_id gate)" by (auto simp: known_gate_def colon_free_def)
  ultimately show "cooldowns_ok (score_effect (sc_pipeline sc) \<lparr>csm_gate = gate, csm_result = result\<rparr> (store_forecast gate result s))"
    by (intro cooldowns_publish)
next
  show "cooldowns_ok (check_gate_quality (sc_pipeline sc) gate s)" if "cooldowns_ok s" for s gate
    using cooldowns_ok_cong [OF that] by (simp add: check_gate_view)
next
  show "cooldowns_ok (s\<lparr>p_redis := r\<rparr>)" if "cooldowns_ok s" "cooldownStore r = cooldownStore (p_redis s)" for s r
    using cooldowns_ok_cong [OF that(1)] that(2) by (simp add: nudge_view_def)
next
  show "cooldowns_ok (s\<lparr>p_clock := p_clock s + int ms\<rparr>)" if "cooldowns_ok s" for s ms
    using that by (rule cooldowns_clock)
next
  show "cooldowns_ok (s\<lparr>p_nudges := process_world (forecastsByGate s) (p_clock s) (p_nudges s)\<rparr>)" if "cooldowns_ok s" for s
    using that by (rule cooldowns_worker)
qed (erule cooldowns_ok_cong, simp add: nudge_view_def appendToWindow_def stop_def draw_def Let_def)+

lemma cooldowns_startup: "0 \<le> now \<Longrightarrow> cooldowns_ok (startup sc now)"
  by (auto simp: cooldowns_ok_def startup_def initial_def recorded_nudges_def empty_audit_def remembers_def apart_def Let_def
      intro!: exI [of _ "[]"])

text \<open>C8. Cooldown over whole runs: whatever the server is sent and however its timers fire, any two nudges it
  has recorded for the same fan about the same gate, queued, settled or audited, were generated at
  the same moment or at least five minutes apart (gate ids without a colon, clock within the
  range of dates).\<close>

theorem nudges_apart:
  assumes "colon_free sc" "0 \<le> now" "s = snd (run_server sc ops (startup sc now))" "valid_time (p_clock s)"
    and "n \<in> recorded_nudges s" "n' \<in> recorded_nudges s"
    and "nudge_fanId n = nudge_fanId n'" "nudge_originGateId n = nudge_originGateId n'"
  shows "\<exists>t t'. nudge_generatedAt n = toISOString t \<and> nudge_generatedAt n' = toISOString t' \<and> (t = t' \<or> 300000 \<le> \<bar>t - t'\<bar>)"
proof -
  have "cooldowns_ok s"
    unfolding assms(3) using server_invariant.run_ok [OF cooldowns_invariant [OF assms(1)] cooldowns_startup [OF assms(2)]] .
  then obtain past where past: "apart past" "\<forall>n \<in> recorded_nudges s. dated past n"
    using assms(4) by (auto simp: cooldowns_ok_def)
  from past(2) assms(5,6) obtain t m t' m' where "(t, m) \<in> set past" "nudge_key m = nudge_key n" "nudge_generatedAt n = toISOString t"
    "(t', m') \<in> set past" "nudge_key m' = nudge_key n'" "nudge_generatedAt n' = toISOString t'"
    unfolding dated_def by blast
  moreover have "nudge_key n = nudge_key n'" using assms(7,8) by (simp add: nudge_key_def)
  ultimately show ?thesis using past(1) unfolding apart_def COOLDOWN_PERIOD_MS_def by fastforce
qed

section \<open>Nudging the fans of a congested gate\<close>

text \<open>The queue has a nudge to fan \<open>f\<close> about gate \<open>g\<close>, generated at \<open>now\<close>.\<close>

definition nudged :: "FanId \<Rightarrow> GateId \<Rightarrow> int \<Rightarrow> QueuedNudgeState \<Rightarrow> bool" where
  "nudged f g now queue = (case map_of queue (f @ ''-'' @ g @ ''-'' @ toISOString now) of
     Some n \<Rightarrow> nudge_fanId n = f \<and> nudge_originGateId n = g \<and> nudge_generatedAt n = toISOString now \<and> nudge_status n = QUEUED
   | None \<Rightarrow> False)"

lemma generated_fields:
  "generateFanNudge lc fan g forecasts l now = Some n \<Longrightarrow> nudgeId n = fan_fanId fan @ ''-'' @ gate_id g @ ''-'' @ toISOString now \<and>
    nudge_fanId n = fan_fanId fan \<and> nudge_originGateId n = gate_id g \<and> nudge_generatedAt n = toISOString now \<and> nudge_status n = QUEUED"
  by (auto simp: generateFanNudge_def Let_def split: if_splits)

lemma nudged_enqueue:
  assumes "generateFanNudge lc fan g forecasts l now = Some n"
  shows "nudged f (gate_id g) now (enqueueNudge n queue) \<longleftrightarrow> f = fan_fanId fan \<or> nudged f (gate_id g) now queue"
  using generated_fields [OF assms] by (auto simp: nudged_def enqueueNudge_def store_simps)

lemma nudge_fan_nudged:
  assumes "nudge_fan lc g forecasts now now fan st = (n, st')" "no_colon (gate_id g)"
  shows "nudged f (gate_id g) now (snd st) \<Longrightarrow> nudged f (gate_id g) now (snd st')"
    and "f \<noteq> fan_fanId fan \<Longrightarrow> fst (get_cooldown (f, gate_id g) now (fst st')) = fst (get_cooldown (f, gate_id g) now (fst st))"
    and "high_or_critical (currentRiskLevel (map_of forecasts (gate_id g))) \<Longrightarrow>
      \<not> in_cooldown (fst (get_cooldown (fan_fanId fan, gate_id g) now (fst st))) now \<Longrightarrow> nudged (fan_fanId fan) (gate_id g) now (snd st')"
proof -
  let ?k = "(fan_fanId fan, gate_id g)"
  let ?gen = "generateFanNudge lc fan g forecasts (fst (get_cooldown ?k now (fst st))) now"
  have frame: "fst (get_cooldown (f, gate_id g) now (snd (get_cooldown ?k now (fst st)))) = fst (get_cooldown (f, gate_id g) now (fst st))"
    using cooldowns.get_get [of "(f, gate_id g)" ?k now now "fst st"] assms(2) by simp
  show "nudged f (gate_id g) now (snd st) \<Longrightarrow> nudged f (gate_id g) now (snd st')"
    using assms(1) by (cases ?gen) (auto simp: nudge_fan_get nudged_enqueue)
  show "f \<noteq> fan_fanId fan \<Longrightarrow> fst (get_cooldown (f, gate_id g) now (fst st')) = fst (get_cooldown (f, gate_id g) now (fst st))"
    using assms frame cooldowns.get_put_other [of "(f, gate_id g)" ?k now now COOLDOWN_PERIOD_MS now "snd (get_cooldown ?k now (fst st))"]
    by (cases ?gen) (auto simp: nudge_fan_get)
  show "nudged (fan_fanId fan) (gate_id g) now (snd st')"
    if "high_or_critical (currentRiskLevel (map_of forecasts (gate_id g)))" "\<not> in_cooldown (fst (get_cooldown ?k now (fst st))) now"
  proof -
    have "?gen \<noteq> None" using that by (simp add: generateFanNudge_def Let_def)
    then show ?thesis using assms(1) by (auto simp: nudge_fan_get nudged_enqueue)
  qed
qed

lemma update_nudges:
  assumes "nudge_onScoreUpdate lc fans g forecasts now now st = (ns, st')" "no_colon (gate_id g)"
    and "high_or_critical (currentRiskLevel (map_of forecasts (gate_id g)))"
    and "nudged f (gate_id g) now (snd st) \<or> (f \<in> fan_fanId ` set fans \<and> \<not> in_cooldown (fst (get_cooldown (f, gate_id g) now (fst st))) now)"
  shows "nudged f (gate_id g) now (snd st')"
  using assms
proof (induction fans arbitrary: st ns)
  case (Cons fan fans)
  obtain n st1 where n: "nudge_fan lc g forecasts now now fan st = (n, st1)" by (metis surj_pair)
  have "nudge_onScoreUpdate lc fans g forecasts now now st1 = (fst (nudge_onScoreUpdate lc fans g forecasts now now st1), st')"
    using Cons.prems(1) n by (auto simp: case_prod_beta Let_def)
  from Cons.IH [OF this Cons.prems(2,3)] show ?case
    using Cons.prems(4) nudge_fan_nudged [OF n Cons.prems(2)] Cons.prems(3) by (cases "f = fan_fanId fan") auto
qed simp

text \<open>One score update at level \<open>HIGH\<close> or \<open>CRITICAL\<close> nudges every fan of the gate whose cooldown is over.\<close>

lemma score_update_nudges:
  assumes "scores result = p # ps" "p_subscribed s" "no_colon (gate_id gate)" "high_or_critical (riskLevel p)"
    and "fan \<in> set (map snd (get_or (fansByGate s) (gate_id gate) []))"
    and "\<not> in_cooldown (fst (get_cooldown (fan_fanId fan, gate_id gate) (p_clock s) (p_redis s))) (p_clock s)"
  shows "nudged (fan_fanId fan) (gate_id gate) (p_clock s)
    (nw_queue (p_nudges (score_effect cfg \<lparr>csm_gate = gate, csm_result = result\<rparr> s)))"
proof -
  obtain s4 where s4: "score_body cfg gate result s = generate_nudges cfg leaf_publish gate (p_clock s) s4"
    "nudge_view s4 = nudge_view s" "fansByGate s4 = fansByGate s" "forecastsByGate s4 = AList.update (gate_id gate) result (forecastsByGate s)"
    by (simp add: score_body_def Let_def before_nudges note_forecast_effect [OF assms(1)])
  let ?fans = "map snd (get_or (fansByGate s) (gate_id gate) [])"
  obtain ns redis queue where o: "nudge_onScoreUpdate (cfg_lc cfg) ?fans gate (forecastsByGate s4) (p_clock s) (p_clock s)
      (p_redis s4, nw_queue (p_nudges s4)) = (ns, redis, queue)" by (metis prod_cases3)
  have "cooldownStore (p_redis s4) = cooldownStore (p_redis s)" "p_clock s4 = p_clock s" using s4(2) by (simp_all add: nudge_view_def)
  then have "\<not> in_cooldown (fst (get_cooldown (fan_fanId fan, gate_id gate) (p_clock s) (p_redis s4))) (p_clock s)"
    using assms(6) cooldown_store by metis
  moreover have "currentRiskLevel (map_of (forecastsByGate s4) (gate_id gate)) = riskLevel p"
    using assms(1) by (simp add: s4(4) store_simps currentRiskLevel_head)
  ultimately have "nudged (fan_fanId fan) (gate_id gate) (p_clock s) queue"
    using update_nudges [OF o assms(3), of "fan_fanId fan"] assms(4,5) by auto
  moreover have "nw_queue (p_nudges (score_body cfg gate result s)) = queue"
    using o \<open>p_clock s4 = p_clock s\<close> by (simp add: s4(1,3) generate_nudges_def Let_def)
  ultimately show ?thesis by (simp add: score_effect_eq [OF assms(1,2)])
qed

lemma recompute_nudges:
  assumes "run_recompute cfg (score_publish cfg) gate s = (None, s')" "p_subscribed s" "no_colon (gate_id gate)"
  shows "fansByGate s' = fansByGate s" "p_clock s' = p_clock s"
    and "getLatestForecast (gate_id gate) (forecastStore s') = Some (q # qs) \<Longrightarrow>
      get_or (previousRiskLevelByGate s') (gate_id gate) LOW = riskLevel q"
    and "high_or_critical (get_or (previousRiskLevelByGate s') (gate_id gate) LOW) \<Longrightarrow>
      fan \<in> set (map snd (get_or (fansByGate s) (gate_id gate) [])) \<Longrightarrow>
      \<not> in_cooldown (fst (get_cooldown (fan_fanId fan, gate_id gate) (p_clock s) (p_redis s))) (p_clock s) \<Longrightarrow>
      nudged (fan_fanId fan) (gate_id gate) (p_clock s) (nw_queue (p_nudges s'))"
proof -
  have "fansByGate s' = fansByGate s \<and> p_clock s' = p_clock s"
  proof (cases rule: run_recompute_cases [of cfg gate s])
    case (published result r p ps)
    then show ?thesis using assms(1,2) by (simp add: score_effect_eq)
  qed (use assms(1) in simp)
  then show "fansByGate s' = fansByGate s" "p_clock s' = p_clock s" by simp_all
  show "get_or (previousRiskLevelByGate s') (gate_id gate) LOW = riskLevel q"
    if "getLatestForecast (gate_id gate) (forecastStore s') = Some (q # qs)"
  proof (cases rule: run_recompute_cases [of cfg gate s])
    case (published result r p ps)
    let ?s1 = "store_forecast gate result ((draw s)\<lparr>p_redis := r\<rparr>)"
    have s': "s' = score_effect cfg \<lparr>csm_gate = gate, csm_result = result\<rparr> ?s1" using published(4) assms(1) by simp
    have "p_subscribed ((draw s)\<lparr>p_redis := r\<rparr>)" using assms(2) by simp
    from score_effect_fields [OF published(1) this, of cfg gate] that have "q = p"
      using published(1) by (simp add: s' store_simps)
    then show ?thesis
      using published(1) assms(2) by (simp add: s' score_effect_eq score_body_effect get_or_def store_simps)
  qed (use assms(1) in simp)
  assume h: "high_or_critical (get_or (previousRiskLevelByGate s') (gate_id gate) LOW)"
    "fan \<in> set (map snd (get_or (fansByGate s) (gate_id gate) []))"
    "\<not> in_cooldown (fst (get_cooldown (fan_fanId fan, gate_id gate) (p_clock s) (p_redis s))) (p_clock s)"
  show "nudged (fan_fanId fan) (gate_id gate) (p_clock s) (nw_queue (p_nudges s'))"
  proof (cases rule: run_recompute_cases [of cfg gate s])
    case (failed e r)
    then show ?thesis using assms(1) by simp
  next
    case (published result r p ps)
    let ?s1 = "store_forecast gate result ((draw s)\<lparr>p_redis := r\<rparr>)"
    have s': "s' = score_effect cfg \<lparr>csm_gate = gate, csm_result = result\<rparr> ?s1" using published(4) assms(1) by simp
    have "p_subscribed ?s1" using assms(2) by simp
    moreover from this have "riskLevel p = get_or (previousRiskLevelByGate s') (gate_id gate) LOW"
      using published(1) by (simp add: s' score_effect_eq score_body_effect get_or_def store_simps)
    moreover have "fst (get_cooldown (fan_fanId fan, gate_id gate) (p_clock ?s1) (p_redis ?s1)) =
        fst (get_cooldown (fan_fanId fan, gate_id gate) (p_clock s) (p_redis s))"
      using cooldown_store [OF published(2)] by simp
    ultimately show ?thesis
      using score_update_nudges [OF published(1), of ?s1 gate fan cfg] h assms(3) by (simp add: s')
  qed
qed

lemma tracked_scan:
  assumes "source e = TICKET_SCANNER" "payload e = TicketScanBody q" "gateId e = Some g" "g \<noteq> []"
  shows "\<lparr>fan_fanId = scan_fanId q\<rparr> \<in> set (map snd (get_or (fansByGate (trackFansForEvent e s)) g []))"
proof -
  have "(k, v) \<in> set (AList.update k v m)" for k v and m :: "(FanId, FanContext) jsmap"
    by (rule map_of_SomeD) (simp add: store_simps)
  then have "v \<in> snd ` set (AList.update k v m)" for k v and m :: "(FanId, FanContext) jsmap" by (metis image_eqI snd_conv)
  then show ?thesis using assms by (simp add: trackFansForEvent_def add_fans_def get_or_def store_simps Let_def)
qed

text \<open>An accepted signal, in a healthy server.\<close>

lemma signal_nudges:
  assumes "healthy sc s" "p_subscribed s" "config_ok dt sc" "timely sc" "colon_free sc" "gate \<in> set (cfg_gates (sc_pipeline sc))"
    and "parseSignalEvent (sc_safeParse sc) (applyIntakeDefaults (cfg_uuid (sc_pipeline sc) (p_draws s)) body (p_clock s)) = Inr v"
    and "gateId v = Some (gate_id gate)" "post_signal sc body s = (res, s')"
    and "t = classifyTiming (timestamp v) (receivedAt v) (p_clock s) DEFAULT_TIMING_CONFIG"
    and "w = filter (within_retention (p_clock s)) (getWindowForGate (gate_id gate) s) @
      [v\<lparr>isStale := tc_isStale t, lateArrivalFlag := tc_lateArrivalFlag t\<rparr>]"
  obtains r p ps where "computeForecast gate w (p_clock s) = Inr r" "scores r = p # ps"
    "p_clock s' = p_clock s" "get_or (previousRiskLevelByGate s') (gate_id gate) LOW = riskLevel p"
    "\<And>fan. high_or_critical (riskLevel p) \<Longrightarrow> fan \<in> set (map snd (get_or (fansByGate s') (gate_id gate) [])) \<Longrightarrow>
      \<not> in_cooldown (fst (get_cooldown (fan_fanId fan, gate_id gate) (p_clock s) (p_redis s))) (p_clock s) \<Longrightarrow>
      nudged (fan_fanId fan) (gate_id gate) (p_clock s) (nw_queue (p_nudges s'))"
    "\<And>q. source v = TICKET_SCANNER \<Longrightarrow> payload v = TicketScanBody q \<Longrightarrow>
      \<lparr>fan_fanId = scan_fanId q\<rparr> \<in> set (map snd (get_or (fansByGate s') (gate_id gate) []))"
proof -
  let ?cfg = "sc_pipeline sc" and ?g = "gate_id gate"
  define e where "e = v\<lparr>isStale := tc_isStale t, lateArrivalFlag := tc_lateArrivalFlag t\<rparr>"
  have e: "gateId e = Some ?g" "source e = source v" "payload e = payload v" by (simp_all add: e_def assms(8))
  have g: "?g \<noteq> []" using parsed_typed(1) [OF assms(3,7)] assms(8) by (auto simp: event_ok_def)
  have typed: "well_typed_event e" unfolding e_def by (rule parsed_typed(2) [OF assms(3,7)])
  let ?s1 = "trackFansForEvent e (draw s)"
  let ?s2 = "appendToWindow ?g e (p_clock s) ?s1"
  have view: "nudge_view ?s2 = nudge_view s" "fansByGate ?s2 = fansByGate ?s1"
    by (simp_all add: nudge_view_def appendToWindow_def trackFansForEvent_def add_fans_def Let_def split: SignalEventPayloadBody.splits option.splits)
  have c: "p_clock ?s2 = p_clock s" "cooldownStore (p_redis ?s2) = cooldownStore (p_redis s)" using view(1) by (simp_all add: nudge_view_def)
  have "core ?s1 = core s" by (simp add: core_track)
  then have "healthy sc ?s1" "p_subscribed ?s1" "getWindowForGate ?g ?s1 = getWindowForGate ?g s"
    using assms(1,2) healthy_core [of ?s1 s] core_window [of ?s1 s] by (simp_all add: core_def)
  then have s2: "windows_typed ?s2" "p_subscribed ?s2" "getWindowForGate ?g ?s2 = w"
    using healthy_append [OF _ typed] by (simp_all add: healthy_def window_appended assms(11) e_def) (simp add: appendToWindow_def Let_def)
  have "proper_capacity gate" using assms(3,6) by (simp add: config_ok_def)
  from recompute_total [OF s2(1) this s2(2), of ?cfg, unfolded s2(3) c(1)] assms(4) obtain r p ps s3 where
    s3: "run_recompute ?cfg (score_publish ?cfg) gate ?s2 = (None, s3)" "scores r = p # ps"
      "getLatestForecast ?g (forecastStore s3) = Some (scores r)" "computeForecast gate w (p_clock s) = Inr r"
    unfolding timely_def by metis
  have "publishSignalEvent ?cfg e (draw s) = audit_message (AuditSignalEvent e) s3"
    using assms(2,4,6) gatesById_lookup [of "cfg_gates ?cfg" gate] s3(1) e(1) g
    by (simp add: publish_signal_eq timely_def Let_def)
  then have s': "s' = mark_source (source e) ?g (p_clock s) (audit_message (AuditSignalEvent e) s3)"
    using assms(9) e g by (auto simp: post_signal_def handleSignal_def assms(7,8) Let_def assms(10) [symmetric] e_def [symmetric])
  have colon: "no_colon ?g" using assms(5,6) by (simp add: colon_free_def)
  note rn = recompute_nudges [OF s3(1) s2(2) colon]
  have f: "fansByGate s' = fansByGate ?s1" using rn(1) view(2) by (simp add: s' mark_source_def)
  have same: "previousRiskLevelByGate s' = previousRiskLevelByGate s3" "nw_queue (p_nudges s') = nw_queue (p_nudges s3)"
    by (simp_all add: s' mark_source_def)
  show thesis
  proof (rule that [OF s3(4,2)])
    show "p_clock s' = p_clock s" using rn(2) c(1) by (simp add: s' mark_source_def)
    show level: "get_or (previousRiskLevelByGate s') ?g LOW = riskLevel p"
      using rn(3) [of p ps] s3(2,3) by (simp add: same)
    show "nudged (fan_fanId fan) ?g (p_clock s) (nw_queue (p_nudges s'))"
      if "high_or_critical (riskLevel p)" "fan \<in> set (map snd (get_or (fansByGate s') ?g []))"
        "\<not> in_cooldown (fst (get_cooldown (fan_fanId fan, ?g) (p_clock s) (p_redis s))) (p_clock s)" for fan
      using rn(4) [of fan] that level f view(2) cooldown_store [OF c(2)] by (simp add: same c(1))
    show "\<lparr>fan_fanId = scan_fanId q\<rparr> \<in> set (map snd (get_or (fansByGate s') ?g []))"
      if "source v = TICKET_SCANNER" "payload v = TicketScanBody q" for q
      using tracked_scan [of e q ?g "draw s"] e g f that by simp
  qed
qed

text \<open>C6. Fans are nudged in time, in every state reached before the service ends, by a signal or an upgrade request that is no URL: when an accepted signal
  leaves its gate at \<open>HIGH\<close> or \<open>CRITICAL\<close>, every fan known to be at the gate, the one of a ticket
  scan just accepted included, has a nudge about it in the queue, generated at this moment, unless
  his cooldown for the gate is running (gate ids without a colon).\<close>

theorem congested_fans_nudged:
  assumes "config_ok dt sc" "timely sc" "colon_free sc" "gate \<in> set (cfg_gates (sc_pipeline sc))" "\<not> list_ex (stops sc) ops"
    and "s = reached sc now ops"
    and "parseSignalEvent (sc_safeParse sc) (applyIntakeDefaults (cfg_uuid (sc_pipeline sc) (p_draws s)) body (p_clock s)) = Inr v"
    and "gateId v = Some (gate_id gate)" "post_signal sc body s = (res, s')"
  shows "list_all (\<lambda>fan. \<not> high_or_critical (get_or (previousRiskLevelByGate s') (gate_id gate) LOW) \<or>
        in_cooldown (fst (get_cooldown (fan_fanId fan, gate_id gate) (p_clock s) (p_redis s))) (p_clock s) \<or>
        nudged (fan_fanId fan) (gate_id gate) (p_clock s) (nw_queue (p_nudges s')))
      (map snd (get_or (fansByGate s') (gate_id gate) [])) \<and>
    (case payload v of
       TicketScanBody q \<Rightarrow> source v \<noteq> TICKET_SCANNER \<or>
         \<lparr>fan_fanId = scan_fanId q\<rparr> \<in> set (map snd (get_or (fansByGate s') (gate_id gate) []))
     | _ \<Rightarrow> True)"
proof (rule signal_nudges [OF healthy_run(1) healthy_run(2) assms(1-4) assms(7-9) [unfolded assms(6)] refl refl, OF assms(1,1,5)])
  fix r p ps
  assume level: "get_or (previousRiskLevelByGate s') (gate_id gate) LOW = riskLevel p"
    and "\<And>fan. high_or_critical (riskLevel p) \<Longrightarrow> fan \<in> set (map snd (get_or (fansByGate s') (gate_id gate) [])) \<Longrightarrow>
      \<not> in_cooldown (fst (get_cooldown (fan_fanId fan, gate_id gate) (p_clock (reached sc now ops)) (p_redis (reached sc now ops))))
        (p_clock (reached sc now ops)) \<Longrightarrow>
      nudged (fan_fanId fan) (gate_id gate) (p_clock (reached sc now ops)) (nw_queue (p_nudges s'))"
    and scan: "\<And>q. source v = TICKET_SCANNER \<Longrightarrow> payload v = TicketScanBody q \<Longrightarrow>
      \<lparr>fan_fanId = scan_fanId q\<rparr> \<in> set (map snd (get_or (fansByGate s') (gate_id gate) []))"
  note nudges = this(2) [folded assms(6)]
  have "case payload v of
       TicketScanBody q \<Rightarrow> source v \<noteq> TICKET_SCANNER \<or> \<lparr>fan_fanId = scan_fanId q\<rparr> \<in> set (map snd (get_or (fansByGate s') (gate_id gate) []))
     | _ \<Rightarrow> True"
    using scan by (cases "payload v") auto
  then show ?thesis unfolding list_all_iff level using nudges by blast
qed

section \<open>A small gate\<close>

text \<open>At a gate of capacity one a single ticket scan is critical.\<close>

definition fan_gate :: Gate where
  "fan_gate = \<lparr>gate_id = ''gate-a'', gate_name = ''Gate A'', capacityThreshold = Fin 1, assignedRouteIds = []\<rparr>"

definition fan_server :: ServerConfig where
  "fan_server = demo_server\<lparr>sc_pipeline := (sc_pipeline demo_server)\<lparr>cfg_gates := [fan_gate]\<rparr>\<rparr>"

lemma fan_server_ok: "config_ok (\<lambda>s. date_parse s \<noteq> None) fan_server" "timely fan_server" "colon_free fan_server"
  "fan_gate \<in> set (cfg_gates (sc_pipeline fan_server))" "gate_id fan_gate = ''gate-a''" "proper_capacity fan_gate"
  using demo_config demo_timely
  by (simp_all add: config_ok_def timely_def colon_free_def fan_server_def fan_gate_def proper_capacity_def no_colon_def)

abbreviation fan_start :: PipelineState where
  "fan_start \<equiv> startup fan_server 0"

lemma fan_body:
  "\<exists>v. parseSignalEvent (sc_safeParse fan_server)
      (applyIntakeDefaults (cfg_uuid (sc_pipeline fan_server) (p_draws fan_start)) (JObj demo_fields) (p_clock fan_start)) = Inr v \<and>
    gateId v = Some ''gate-a'' \<and> source v = TICKET_SCANNER \<and> (\<exists>q. payload v = TicketScanBody q \<and> scan_fanId q = ''f1'') \<and>
    timestamp v = toISOString 0 \<and> receivedAt v = toISOString 0"
proof -
  let ?u = "cfg_uuid (sc_pipeline fan_server) (p_draws fan_start)"
  let ?d = "applyIntakeDefaults ?u (JObj demo_fields) 0"
  have u: "?u \<noteq> []" by (simp add: fan_server_def demo_server_def demo_uuid_def)
  have c: "p_clock fan_start = 0" by (simp add: startup_def initial_def Let_def)
  have sp: "sc_safeParse fan_server = sc_safeParse demo_server" by (simp add: fan_server_def)
  obtain v where v: "parseSignalEvent (sc_safeParse demo_server) ?d = Inr v" using demo_body_parses [OF u] by blast
  then have "v = event_of_json ?d"
    by (auto simp: parseSignalEvent_def demo_server_def reference_safe_parse_def Let_def split: if_splits)
  then have "gateId v = Some ''gate-a'' \<and> source v = TICKET_SCANNER \<and> (\<exists>q. payload v = TicketScanBody q \<and> scan_fanId q = ''f1'') \<and>
      timestamp v = toISOString 0 \<and> receivedAt v = toISOString 0"
    using defaults_field [of ?u demo_fields 0] by (simp add: event_of_json_def demo_fields_def as_source_def)
  with v show ?thesis unfolding c sp by blast
qed

lemma fan_level:
  assumes "source e = TICKET_SCANNER" "timestamp e = toISOString 0" "\<not> isStale e" "well_typed_event e"
    and "computeForecast fan_gate [e] 0 = Inr r" "scores r = p # ps"
  shows "riskLevel p = CRITICAL"
proof -
  have recent: "nonStaleRecent [e] 0 = [e]"
    using assms(2,3) date_parse_toISOString [of 0] by (simp add: nonStaleRecent_def recent_event_def RECENT_WINDOW_MS_def valid_time_def)
  have one: "rnd 1 = Fin 1" "rnd 100 = Fin 100" using rnd_of_int [of 1] rnd_of_int [of 100] by simp_all
  then have base: "baseScore fan_gate (totalIncomingCount [e]) = Fin 100"
    using assms(1) by (simp add: baseScore_def totalIncomingCount_def incomingCountFor_def fan_gate_def js_max_def js_min_def clampScore_def)
  have "offset_score (Fin 100) 0 = Fin 100"
    using one by (simp add: offset_score_def growth_factor_values clampScore_def js_max_def js_min_def)
  then show ?thesis
    using assms(4-6) fan_server_ok(6)
    by (auto simp: computeForecast_eq recent base FORECAST_OFFSETS_MINUTES_def expected_point_def level_of_def)
qed

lemma fan_window: "getWindowForGate g fan_start = []" "fst (get_cooldown k 0 (p_redis fan_start)) = None" "p_clock fan_start = 0"
  by (simp_all add: startup_def initial_def Let_def getWindowForGate_def get_or_def get_cooldown_def getLastNudgeAt_def
      empty_redis_def getIfNotExpired_def)

lemma fan_signal:
  obtains v s' where "parseSignalEvent (sc_safeParse fan_server)
      (applyIntakeDefaults (cfg_uuid (sc_pipeline fan_server) (p_draws fan_start)) (JObj demo_fields) (p_clock fan_start)) = Inr v"
    "gateId v = Some (gate_id fan_gate)" "snd (post_signal fan_server (JObj demo_fields) fan_start) = s'"
    "source v = TICKET_SCANNER" "\<exists>q. payload v = TicketScanBody q \<and> scan_fanId q = ''f1''"
    "get_or (previousRiskLevelByGate s') ''gate-a'' LOW = CRITICAL" "p_clock s' = 0" "nudged ''f1'' ''gate-a'' 0 (nw_queue (p_nudges s'))"
proof -
  obtain v q where v: "parseSignalEvent (sc_safeParse fan_server)
      (applyIntakeDefaults (cfg_uuid (sc_pipeline fan_server) (p_draws fan_start)) (JObj demo_fields) (p_clock fan_start)) = Inr v"
    "gateId v = Some (gate_id fan_gate)" "source v = TICKET_SCANNER" "payload v = TicketScanBody q" "scan_fanId q = ''f1''"
    "timestamp v = toISOString 0" "receivedAt v = toISOString 0"
    using fan_body unfolding fan_server_ok(5) by blast
  obtain res s' where p: "post_signal fan_server (JObj demo_fields) fan_start = (res, s')" by (metis surj_pair)
  have h: "healthy fan_server fan_start" "p_subscribed fan_start" using healthy_run [OF fan_server_ok(1), where now = 0 and ops = "[]"] by simp_all
  show thesis
  proof (rule signal_nudges [OF h fan_server_ok(1-4) v(1,2) p refl refl])
    fix r pt ps
    assume clock: "p_clock s' = p_clock fan_start"
    let ?e = "v\<lparr>isStale := tc_isStale (classifyTiming (timestamp v) (receivedAt v) (p_clock fan_start) DEFAULT_TIMING_CONFIG),
      lateArrivalFlag := tc_lateArrivalFlag (classifyTiming (timestamp v) (receivedAt v) (p_clock fan_start) DEFAULT_TIMING_CONFIG)\<rparr>"
    assume f: "computeForecast fan_gate (filter (within_retention (p_clock fan_start)) (getWindowForGate (gate_id fan_gate) fan_start) @ [?e])
        (p_clock fan_start) = Inr r" "scores r = pt # ps"
      and level: "get_or (previousRiskLevelByGate s') (gate_id fan_gate) LOW = riskLevel pt"
      and n: "\<And>fan. high_or_critical (riskLevel pt) \<Longrightarrow> fan \<in> set (map snd (get_or (fansByGate s') (gate_id fan_gate) [])) \<Longrightarrow>
        \<not> in_cooldown (fst (get_cooldown (fan_fanId fan, gate_id fan_gate) (p_clock fan_start) (p_redis fan_start))) (p_clock fan_start) \<Longrightarrow>
        nudged (fan_fanId fan) (gate_id fan_gate) (p_clock fan_start) (nw_queue (p_nudges s'))"
      and scan: "\<And>q. source v = TICKET_SCANNER \<Longrightarrow> payload v = TicketScanBody q \<Longrightarrow>
        \<lparr>fan_fanId = scan_fanId q\<rparr> \<in> set (map snd (get_or (fansByGate s') (gate_id fan_gate) []))"
    have "\<not> isStale ?e" by (simp add: v(6,7) fan_window(3) classifyTiming_iso valid_time_def DEFAULT_TIMING_CONFIG_def)
    moreover have "well_typed_event ?e" by (rule parsed_typed(2) [OF fan_server_ok(1) v(1)])
    ultimately have c: "riskLevel pt = CRITICAL"
      using fan_level [of ?e r pt ps] f v(3,6) unfolding fan_window by simp
    then have "high_or_critical (riskLevel pt)" by (simp add: high_or_critical_def)
    moreover have "\<lparr>fan_fanId = ''f1''\<rparr> \<in> set (map snd (get_or (fansByGate s') (gate_id fan_gate) []))"
      using scan [OF v(3,4)] v(5) by simp
    moreover have "\<not> in_cooldown (fst (get_cooldown (''f1'', gate_id fan_gate) (p_clock fan_start) (p_redis fan_start))) (p_clock fan_start)"
      unfolding fan_window by (simp add: in_cooldown_def)
    ultimately have "nudged ''f1'' ''gate-a'' 0 (nw_queue (p_nudges s'))"
      using n [of "\<lparr>fan_fanId = ''f1''\<rparr>"] by (simp add: fan_server_ok(5) fan_window(3))
    then show thesis
      using that [OF v(1,2) _ v(3)] v(4,5) p level c clock by (simp add: fan_server_ok(5) fan_window(3))
  qed
qed

lemma congested_fans_nudged_witness:
  "nudged ''f1'' ''gate-a'' 0 (nw_queue (p_nudges (snd (post_signal fan_server (JObj demo_fields) fan_start))))"
proof -
  obtain v s' where v: "parseSignalEvent (sc_safeParse fan_server)
      (applyIntakeDefaults (cfg_uuid (sc_pipeline fan_server) (p_draws fan_start)) (JObj demo_fields) (p_clock fan_start)) = Inr v"
    "gateId v = Some (gate_id fan_gate)" "snd (post_signal fan_server (JObj demo_fields) fan_start) = s'"
    "source v = TICKET_SCANNER" "\<exists>q. payload v = TicketScanBody q \<and> scan_fanId q = ''f1''"
    "get_or (previousRiskLevelByGate s') ''gate-a'' LOW = CRITICAL"
    by (rule fan_signal)
  obtain res where res: "post_signal fan_server (JObj demo_fields) fan_start = (res, s')" using v(3) by (metis surj_pair snd_conv)
  have none: "\<not> list_ex (stops fan_server) []" by simp
  have s: "fan_start = reached fan_server 0 []" by simp
  obtain q where q: "payload v = TicketScanBody q" "scan_fanId q = ''f1''" using v(5) by blast
  note c = congested_fans_nudged [OF fan_server_ok(1-4) none s v(1,2) res, unfolded fan_server_ok(5) fan_window list_all_iff v(6)]
  from c v(4) q have "\<lparr>fan_fanId = ''f1''\<rparr> \<in> set (map snd (get_or (fansByGate s') ''gate-a'' []))" by simp
  with c have "\<not> high_or_critical CRITICAL \<or> in_cooldown None 0 \<or> nudged ''f1'' ''gate-a'' 0 (nw_queue (p_nudges s'))" by fastforce
  then show ?thesis by (simp add: v(3) high_or_critical_def in_cooldown_def)
qed

abbreviation fan_request :: server_op where
  "fan_request \<equiv> Request \<lparr>header_Authorization = None, header_X_API_Key = Some ''k1''\<rparr> (PostSignal (JObj demo_fields))"

lemma fan_request_run: "reached fan_server 0 [fan_request] = snd (post_signal fan_server (JObj demo_fields) fan_start)"
proof -
  have "distinct (map fst (sc_apiKeys fan_server))" "\<forall>k \<in> fst ` set (sc_apiKeys fan_server). short_key k"
    by (simp_all add: fan_server_def demo_server_def short_key_def utf8_char_def MAX_KEY_LENGTH_def)
  then have "verifyApiKey (sc_apiKeys fan_server) (Some ''k1'') = Some [INGESTION_SOURCE]"
    by (simp add: verify_short) (simp add: fan_server_def demo_server_def)
  then have "requireRole (sc_apiKeys fan_server) [INGESTION_SOURCE] \<lparr>header_Authorization = None, header_X_API_Key = Some ''k1''\<rparr> =
      Proceed INGESTION_SOURCE (Some ''k1'')"
    by (simp add: requireRole_def extractApiKey_def trim_def is_space_def char_of_def Let_def)
  then show ?thesis by (simp add: handle_request_def case_prod_beta Let_def)
qed

lemma nudges_apart_witness:
  "\<exists>n. n \<in> recorded_nudges (reached fan_server 0 [fan_request]) \<and>
    (\<exists>t t'. nudge_generatedAt n = toISOString t \<and> nudge_generatedAt n = toISOString t' \<and> (t = t' \<or> 300000 \<le> \<bar>t - t'\<bar>))"
proof -
  let ?s = "reached fan_server 0 [fan_request]"
  obtain s' where s': "snd (post_signal fan_server (JObj demo_fields) fan_start) = s'" "p_clock s' = 0"
    "nudged ''f1'' ''gate-a'' 0 (nw_queue (p_nudges s'))"
    by (rule fan_signal)
  have s: "?s = s'" unfolding fan_request_run by (rule s'(1))
  obtain n where "map_of (nw_queue (p_nudges s')) (''f1'' @ ''-'' @ ''gate-a'' @ ''-'' @ toISOString 0) = Some n"
    using s'(3) by (auto simp: nudged_def split: option.splits)
  then have n: "n \<in> recorded_nudges ?s" unfolding s recorded_nudges_def by (force dest: map_of_SomeD)
  have "valid_time (p_clock ?s)" unfolding s s'(2) by (simp add: valid_time_def)
  from nudges_apart [OF fan_server_ok(3) order_refl refl this n n refl refl] n show ?thesis by blast
qed

end
