(* ===== verification/FastCheck.thy ===== *)
theory FastCheck
  imports Prelude "HOL-Library.State_Monad"
begin

text \<open>
  The arbitraries of the property tests' library \<open>fast-check\<close>, as far as the test kits of the repository
  use them. An arbitrary is a computation on the state of the random source, in the library's state monad:
  \<open>map\<close>, \<open>chain\<close>, \<open>constant\<close> and \<open>record\<close> sequence such computations. The draws themselves are a parameter, the
  record \<open>fast_check\<close>, and \<open>draws_ok\<close> states their documented ranges. The rules in \<open>arbs\<close> reduce
  what an arbitrary generates to what its draws do.
\<close>

type_synonym ('r, 'a) arbitrary = "('r, 'a) state"

section \<open>Draws\<close>

text \<open>\<open>fc.integer({min, max})\<close>, \<open>fc.boolean()\<close>, \<open>fc.string({minLength, maxLength})\<close>, \<open>fc.uuid()\<close>,
  \<open>fc.date({min, max})\<close>, which of \<open>n\<close> alternatives \<open>fc.oneof\<close> and \<open>fc.constantFrom\<close> take, whether
  \<open>fc.option\<close> has a value, and the length of an \<open>fc.array\<close> with a \<open>maxLength\<close>.\<close>

record 'r fast_check =
  fc_integer :: "int \<Rightarrow> int \<Rightarrow> ('r, int) arbitrary"
  fc_boolean :: "('r, bool) arbitrary"
  fc_string :: "nat \<Rightarrow> nat \<Rightarrow> ('r, string) arbitrary"
  fc_uuid :: "('r, string) arbitrary"
  fc_date :: "int \<Rightarrow> int \<Rightarrow> ('r, int) arbitrary"
  fc_alternative :: "nat \<Rightarrow> ('r, nat) arbitrary"
  fc_present :: "('r, bool) arbitrary"
  fc_size :: "nat \<Rightarrow> ('r, nat) arbitrary"

definition draws_ok :: "'r fast_check \<Rightarrow> bool" where
  "draws_ok fc = (
     (\<forall>a b. a \<le> b \<longrightarrow> pred_state (\<lambda>i. a \<le> i \<and> i \<le> b) (fc_integer fc a b)) \<and>
     (\<forall>a b. a \<le> b \<longrightarrow> pred_state (\<lambda>s. a \<le> length s \<and> length s \<le> b) (fc_string fc a b)) \<and>
     pred_state (\<lambda>s. s \<noteq> []) (fc_uuid fc) \<and>
     (\<forall>a b. a \<le> b \<longrightarrow> pred_state (\<lambda>t. a \<le> t \<and> t \<le> b) (fc_date fc a b)) \<and>
     (\<forall>n. 0 < n \<longrightarrow> pred_state (\<lambda>i. i < n) (fc_alternative fc n)) \<and>
     (\<forall>n. pred_state (\<lambda>k. k \<le> n) (fc_size fc n)))"

section \<open>Combinators\<close>

text \<open>The combinators with the meaning their documentation gives them, over the draws.\<close>

definition fc_constant :: "'a \<Rightarrow> ('r, 'a) arbitrary" where
  "fc_constant = State_Monad.return"

definition fc_chain :: "('r, 'a) arbitrary \<Rightarrow> ('a \<Rightarrow> ('r, 'b) arbitrary) \<Rightarrow> ('r, 'b) arbitrary" where
  "fc_chain = State_Monad.bind"

definition fc_map :: "('a \<Rightarrow> 'b) \<Rightarrow> ('r, 'a) arbitrary \<Rightarrow> ('r, 'b) arbitrary" where
  "fc_map f a = fc_chain a (\<lambda>x. fc_constant (f x))"

definition fc_oneof :: "'r fast_check \<Rightarrow> ('r, 'a) arbitrary list \<Rightarrow> ('r, 'a) arbitrary" where
  "fc_oneof fc as = fc_chain (fc_alternative fc (length as)) (\<lambda>i. as ! i)"

definition fc_constantFrom :: "'r fast_check \<Rightarrow> 'a list \<Rightarrow> ('r, 'a) arbitrary" where
  "fc_constantFrom fc vs = fc_map (\<lambda>i. vs ! i) (fc_alternative fc (length vs))"

definition fc_option :: "'r fast_check \<Rightarrow> ('r, 'a) arbitrary \<Rightarrow> ('r, 'a option) arbitrary" where
  "fc_option fc a = fc_chain (fc_present fc) (\<lambda>b. if b then fc_map Some a else fc_constant None)"

primrec fc_vector :: "('r, 'a) arbitrary \<Rightarrow> nat \<Rightarrow> ('r, 'a list) arbitrary" where
  "fc_vector a 0 = fc_constant []"
| "fc_vector a (Suc n) = fc_chain a (\<lambda>x. fc_map ((#) x) (fc_vector a n))"

definition fc_array :: "'r fast_check \<Rightarrow> ('r, 'a) arbitrary \<Rightarrow> nat \<Rightarrow> ('r, 'a list) arbitrary" where
  "fc_array fc a maxLength = fc_chain (fc_size fc maxLength) (fc_vector a)"

section \<open>What an arbitrary generates\<close>

named_theorems arbs \<open>from an arbitrary to its draws\<close>

lemma pred_state_mono: "pred_state Q m \<Longrightarrow> (\<And>x. Q x \<Longrightarrow> P x) \<Longrightarrow> pred_state P m"
  by (intro pred_stateI) blast

lemma arb_draws [arbs]:
  assumes "draws_ok fc"
  shows "a \<le> b \<Longrightarrow> (\<And>i. a \<le> i \<Longrightarrow> i \<le> b \<Longrightarrow> P i) \<Longrightarrow> pred_state P (fc_integer fc a b)"
    and "m \<le> n \<Longrightarrow> (\<And>s. m \<le> length s \<Longrightarrow> length s \<le> n \<Longrightarrow> Q s) \<Longrightarrow> pred_state Q (fc_string fc m n)"
    and "(\<And>s. s \<noteq> [] \<Longrightarrow> Q s) \<Longrightarrow> pred_state Q (fc_uuid fc)"
    and "a \<le> b \<Longrightarrow> (\<And>t. a \<le> t \<Longrightarrow> t \<le> b \<Longrightarrow> P t) \<Longrightarrow> pred_state P (fc_date fc a b)"
    and "0 < n \<Longrightarrow> (\<And>i. i < n \<Longrightarrow> R i) \<Longrightarrow> pred_state R (fc_alternative fc n)"
    and "(\<And>k. k \<le> n \<Longrightarrow> R k) \<Longrightarrow> pred_state R (fc_size fc n)"
proof -
  note d = assms [unfolded draws_ok_def]
  show "pred_state P (fc_integer fc a b)" if "a \<le> b" "\<And>i. a \<le> i \<Longrightarrow> i \<le> b \<Longrightarrow> P i"
    by (rule pred_state_mono [where Q = "\<lambda>i. a \<le> i \<and> i \<le> b"]) (use d that in simp_all)
  show "pred_state Q (fc_string fc m n)" if "m \<le> n" "\<And>s. m \<le> length s \<Longrightarrow> length s \<le> n \<Longrightarrow> Q s"
    by (rule pred_state_mono [where Q = "\<lambda>s. m \<le> length s \<and> length s \<le> n"]) (use d that in simp_all)
  show "pred_state Q (fc_uuid fc)" if "\<And>s. s \<noteq> [] \<Longrightarrow> Q s"
    by (rule pred_state_mono [where Q = "\<lambda>s. s \<noteq> []"]) (use d that in simp_all)
  show "pred_state P (fc_date fc a b)" if "a \<le> b" "\<And>t. a \<le> t \<Longrightarrow> t \<le> b \<Longrightarrow> P t"
    by (rule pred_state_mono [where Q = "\<lambda>i. a \<le> i \<and> i \<le> b"]) (use d that in simp_all)
  show "pred_state R (fc_alternative fc n)" if "0 < n" "\<And>i. i < n \<Longrightarrow> R i"
    by (rule pred_state_mono [where Q = "\<lambda>i. i < n"]) (use d that in simp_all)
  show "pred_state R (fc_size fc n)" if "\<And>k. k \<le> n \<Longrightarrow> R k"
    by (rule pred_state_mono [where Q = "\<lambda>k. k \<le> n"]) (use d that in simp_all)
qed

lemma arb_bool [arbs]: "(\<And>b. P b) \<Longrightarrow> pred_state P (fc_boolean fc)" "(\<And>b. P b) \<Longrightarrow> pred_state P (fc_present fc)"
  by (intro pred_stateI; simp)+

lemma arb_constant [arbs]: "P x \<Longrightarrow> pred_state P (fc_constant x)"
  by (intro pred_stateI) (simp add: fc_constant_def)

lemma arb_chain [arbs]: "pred_state (\<lambda>x. pred_state P (f x)) a \<Longrightarrow> pred_state P (fc_chain a f)"
  unfolding fc_chain_def by (rule bind_predI)

lemma arb_map [arbs]: "pred_state (\<lambda>x. P (f x)) a \<Longrightarrow> pred_state P (fc_map f a)"
  unfolding fc_map_def by (rule arb_chain, erule pred_state_mono, rule arb_constant)

lemma arb_oneof:
  assumes "draws_ok fc" "as \<noteq> []" "\<And>a. a \<in> set as \<Longrightarrow> pred_state P a"
  shows "pred_state P (fc_oneof fc as)"
  unfolding fc_oneof_def using assms by (intro arb_chain arb_draws(5)) auto

lemma arb_constantFrom:
  assumes "draws_ok fc" "vs \<noteq> []" "\<And>v. v \<in> set vs \<Longrightarrow> P v"
  shows "pred_state P (fc_constantFrom fc vs)"
  unfolding fc_constantFrom_def using assms by (intro arb_map arb_draws(5)) auto

lemma arb_option [arbs]:
  assumes "P None" "pred_state (\<lambda>x. P (Some x)) a"
  shows "pred_state P (fc_option fc a)"
  unfolding fc_option_def using assms by (intro arb_chain arb_bool) (simp add: arb_map arb_constant)

lemma arb_array [arbs]:
  assumes "draws_ok fc" "pred_state Q a" "\<And>xs. length xs \<le> n \<Longrightarrow> list_all Q xs \<Longrightarrow> P xs"
  shows "pred_state P (fc_array fc a n)"
proof -
  have "pred_state (\<lambda>xs. length xs = k \<and> list_all Q xs) (fc_vector a k)" for k
  proof (induction k)
    case (Suc k)
    show ?case
      unfolding fc_vector.simps
      by (intro arb_chain pred_state_mono [OF assms(2)] arb_map pred_state_mono [OF Suc]) simp
  qed (simp add: arb_constant)
  then show ?thesis
    unfolding fc_array_def using assms(3) by (intro arb_chain arb_draws(6) [OF assms(1)]) (blast intro: pred_state_mono)
qed

section \<open>A random source\<close>

text \<open>One that counts its draws, to run the kits on.\<close>

definition next_draw :: "(nat \<Rightarrow> 'a) \<Rightarrow> (nat, 'a) arbitrary" where
  "next_draw f = State (\<lambda>r. (f r, Suc r))"

definition counting :: "nat fast_check" where
  "counting = \<lparr>fc_integer = (\<lambda>a b. next_draw (\<lambda>r. a + int r mod (b - a + 1))), fc_boolean = next_draw even,
     fc_string = (\<lambda>a b. next_draw (\<lambda>r. replicate (a + r mod (b - a + 1)) (CHR ''x''))), fc_uuid = next_draw (\<lambda>r. ''u''),
     fc_date = (\<lambda>a b. next_draw (\<lambda>r. a + int r mod (b - a + 1))), fc_alternative = (\<lambda>n. next_draw (\<lambda>r. r mod n)),
     fc_present = next_draw even, fc_size = (\<lambda>n. next_draw (\<lambda>r. r mod Suc n))\<rparr>"

lemma next_draw_pred: "(\<And>r. P (f r)) \<Longrightarrow> pred_state P (next_draw f)"
  by (intro pred_stateI) (auto simp: next_draw_def)

lemma counting_ok: "draws_ok counting"
proof -
  have i: "a + int r mod (b - a + 1) \<le> b" if "a \<le> b" for a b :: int and r
    using pos_mod_bound [of "b - a + 1" "int r"] that by linarith
  have n: "m + r mod (Suc n - m) \<le> n" if "m \<le> n" for m n r :: nat
    using mod_less_divisor [of "Suc n - m" r] that by linarith
  have s: "r mod Suc n \<le> n" for r n using mod_less_divisor [of "Suc n" r] by linarith
  show ?thesis using i n s by (simp add: draws_ok_def counting_def next_draw_pred Suc_diff_le)
qed

end
