(* ===== verification/TestKits.thy ===== *)
theory TestKits
  imports FastCheck Parser
begin

text \<open>
  The test kits: the arbitraries and builders the property tests share,
  \<open>src/congestion-forecaster/test-arbitraries.ts\<close>, \<open>src/signal-ingestion/parser.test-arbitraries.ts\<close>,
  \<open>src/recommendation-engine/recommendations.testHelpers.ts\<close>,
  \<open>src/shuttle-redirection-advisor/redirections.testkit.ts\<close> and
  \<open>src/fan-notification-system/nudges.testkit.ts\<close>. Names the kits share carry the kit's name. The lemmas show
  that the kits test what they say: generated values have the shapes of the domain types, the parser's
  payloads conform to the schema, events meant to be counted or left out by a forecast are, and scores
  are those of their risk level.
\<close>

section \<open>The congestion forecaster\<close>









section \<open>The parser\<close>








section \<open>The recommendation engine\<close>

definition SCORE_RANGE_FOR_RISK :: "RiskLevel \<Rightarrow> int \<times> int" where
  "SCORE_RANGE_FOR_RISK r = (case r of LOW \<Rightarrow> (0, 39) | MODERATE \<Rightarrow> (40, 69) | HIGH \<Rightarrow> (70, 89) | CRITICAL \<Rightarrow> (90, 100))"








definition riskLevelAndScoreArb :: "'r fast_check \<Rightarrow> RiskLevel list \<Rightarrow> ('r, RiskLevel \<times> int) arbitrary" where
  "riskLevelAndScoreArb fc levels = fc_chain (fc_constantFrom fc levels) (\<lambda>level.
     case SCORE_RANGE_FOR_RISK level of (lowest, highest) \<Rightarrow> fc_map (\<lambda>s. (level, s)) (fc_integer fc lowest highest))"

section \<open>The redirection advisor and the fan notifications\<close>

definition RISK_LEVELS_redirections :: "RiskLevel list" where
  "RISK_LEVELS_redirections = [LOW, MODERATE, HIGH, CRITICAL]"

definition RISK_ORDER_redirections :: "RiskLevel \<Rightarrow> int" where
  "RISK_ORDER_redirections r = (case r of LOW \<Rightarrow> 0 | MODERATE \<Rightarrow> 1 | HIGH \<Rightarrow> 2 | CRITICAL \<Rightarrow> 3)"

text \<open>\<open>2024-01-01T12:00:00.000Z\<close>.\<close>

definition FIXED_NOW_redirections :: int where
  "FIXED_NOW_redirections = 1704110400000"

definition scoreRangeFor_redirections :: "RiskLevel \<Rightarrow> int \<times> int" where
  "scoreRangeFor_redirections r = (case r of LOW \<Rightarrow> (0, 39) | MODERATE \<Rightarrow> (40, 69) | HIGH \<Rightarrow> (70, 89) | CRITICAL \<Rightarrow> (90, 100))"

definition riskLevelArb_redirections :: "'r fast_check \<Rightarrow> ('r, RiskLevel) arbitrary" where
  "riskLevelArb_redirections fc = fc_constantFrom fc RISK_LEVELS_redirections"

definition highOrCriticalRiskLevelArb_redirections :: "'r fast_check \<Rightarrow> ('r, RiskLevel) arbitrary" where
  "highOrCriticalRiskLevelArb_redirections fc = fc_constantFrom fc [HIGH, CRITICAL]"

definition scoreForRiskLevelArb_redirections :: "'r fast_check \<Rightarrow> RiskLevel \<Rightarrow> ('r, int) arbitrary" where
  "scoreForRiskLevelArb_redirections fc level =
     (case scoreRangeFor_redirections level of (lowest, highest) \<Rightarrow> fc_integer fc lowest highest)"

definition makeForecastResult_redirections :: "GateId \<Rightarrow> RiskLevel \<Rightarrow> jsnum \<Rightarrow> int \<Rightarrow> ForecastResult" where
  "makeForecastResult_redirections g level s now =
     \<lparr>scores = [\<lparr>point_gateId = g, forecastTime = toISOString now, offsetMinutes = 0, score = s, riskLevel = level,
        point_lowConfidence = False, outdated = False\<rparr>], lowConfidence = False\<rparr>"

definition makeGate_redirections :: "GateId \<Rightarrow> RouteId list \<Rightarrow> Gate" where
  "makeGate_redirections g routes =
     \<lparr>gate_id = g, gate_name = ''Gate '' @ g, capacityThreshold = Fin 100, assignedRouteIds = routes\<rparr>"

definition makeRoute :: "RouteId \<Rightarrow> GateId list \<Rightarrow> ShuttleRoute" where
  "makeRoute r gates = \<lparr>route_id = r, servedGateIds = gates\<rparr>"

definition gateId_kit :: "jsnum \<Rightarrow> string \<Rightarrow> GateId" where
  "gateId_kit index prefix = prefix @ ''-'' @ num_to_string index"

definition routeId_kit :: "jsnum \<Rightarrow> string \<Rightarrow> RouteId" where
  "routeId_kit index prefix = prefix @ ''-'' @ num_to_string index"

definition RISK_LEVELS_nudges :: "RiskLevel list" where
  "RISK_LEVELS_nudges = [LOW, MODERATE, HIGH, CRITICAL]"

definition RISK_ORDER_nudges :: "RiskLevel \<Rightarrow> int" where
  "RISK_ORDER_nudges r = (case r of LOW \<Rightarrow> 0 | MODERATE \<Rightarrow> 1 | HIGH \<Rightarrow> 2 | CRITICAL \<Rightarrow> 3)"

definition FIXED_NOW_nudges :: int where
  "FIXED_NOW_nudges = 1704110400000"

definition scoreRangeFor_nudges :: "RiskLevel \<Rightarrow> int \<times> int" where
  "scoreRangeFor_nudges r = (case r of LOW \<Rightarrow> (0, 39) | MODERATE \<Rightarrow> (40, 69) | HIGH \<Rightarrow> (70, 89) | CRITICAL \<Rightarrow> (90, 100))"

definition riskLevelArb_nudges :: "'r fast_check \<Rightarrow> ('r, RiskLevel) arbitrary" where
  "riskLevelArb_nudges fc = fc_constantFrom fc RISK_LEVELS_nudges"

definition highOrCriticalRiskLevelArb_nudges :: "'r fast_check \<Rightarrow> ('r, RiskLevel) arbitrary" where
  "highOrCriticalRiskLevelArb_nudges fc = fc_constantFrom fc [HIGH, CRITICAL]"

definition lowOrModerateRiskLevelArb :: "'r fast_check \<Rightarrow> ('r, RiskLevel) arbitrary" where
  "lowOrModerateRiskLevelArb fc = fc_constantFrom fc [LOW, MODERATE]"

definition scoreForRiskLevelArb_nudges :: "'r fast_check \<Rightarrow> RiskLevel \<Rightarrow> ('r, int) arbitrary" where
  "scoreForRiskLevelArb_nudges fc level =
     (case scoreRangeFor_nudges level of (lowest, highest) \<Rightarrow> fc_integer fc lowest highest)"

definition makeForecastResult_nudges :: "GateId \<Rightarrow> RiskLevel \<Rightarrow> jsnum \<Rightarrow> int \<Rightarrow> ForecastResult" where
  "makeForecastResult_nudges g level s now =
     \<lparr>scores = [\<lparr>point_gateId = g, forecastTime = toISOString now, offsetMinutes = 0, score = s, riskLevel = level,
        point_lowConfidence = False, outdated = False\<rparr>], lowConfidence = False\<rparr>"

definition makeGate_nudges :: "GateId \<Rightarrow> RouteId list \<Rightarrow> Gate" where
  "makeGate_nudges g routes =
     \<lparr>gate_id = g, gate_name = ''Gate '' @ g, capacityThreshold = Fin 100, assignedRouteIds = routes\<rparr>"

section \<open>Generated values are well typed\<close>










section \<open>Counted and left out\<close>


section \<open>What the kits generate\<close>





text \<open>The random source that always draws the lowest or always the highest value, and what a kit generates from it.\<close>

definition extreme :: "bool \<Rightarrow> unit fast_check" where
  "extreme highest = \<lparr>fc_integer = (\<lambda>a b. State_Monad.return (if highest then b else a)), fc_boolean = State_Monad.return highest,
     fc_string = (\<lambda>m n. State_Monad.return (replicate (if highest then n else m) CHR ''x'')), fc_uuid = State_Monad.return ''u'',
     fc_date = (\<lambda>a b. State_Monad.return (if highest then b else a)), fc_alternative = (\<lambda>n. State_Monad.return (if highest then n - 1 else 0)),
     fc_present = State_Monad.return highest, fc_size = (\<lambda>n. State_Monad.return (if highest then n else 0))\<rparr>"


lemma extreme_ok: "draws_ok (extreme highest)"
  unfolding draws_ok_def extreme_def by (auto intro!: pred_stateI)





section \<open>Scores of a level\<close>

lemma score_ranges:
  "scoreRangeFor_redirections = SCORE_RANGE_FOR_RISK" "scoreRangeFor_nudges = SCORE_RANGE_FOR_RISK"
  "RISK_ORDER_redirections = riskOrderOf" "RISK_ORDER_nudges = riskOrderOf"
  by (rule ext, simp add: scoreRangeFor_redirections_def scoreRangeFor_nudges_def SCORE_RANGE_FOR_RISK_def
      RISK_ORDER_redirections_def RISK_ORDER_nudges_def riskOrderOf_def RISK_ORDER_def)+

lemma score_range_level:
  "fst (SCORE_RANGE_FOR_RISK level) \<le> i \<and> i \<le> snd (SCORE_RANGE_FOR_RISK level) \<longleftrightarrow> deriveRiskLevel (num_of_int i) = Inr level"
  by (cases level) (auto simp: SCORE_RANGE_FOR_RISK_def deriveRiskLevel_def)

text \<open>The tables the kits copy agree with the code they test: an integer lies in a kit's range
  for a level exactly when the forecaster derives that level from it, the kits' order of the levels is
  the order the alternative gate is chosen by, every score drawn for a level has it, and a forecast
  built for a level and a score shows them.\<close>

lemma kit_levels:
  assumes "draws_ok fc" "levels \<noteq> []"
  shows "(fst (scoreRangeFor_redirections level) \<le> i \<and> i \<le> snd (scoreRangeFor_redirections level) \<longleftrightarrow>
      deriveRiskLevel (num_of_int i) = Inr level) \<and>
    scoreRangeFor_nudges level = scoreRangeFor_redirections level \<and> SCORE_RANGE_FOR_RISK level = scoreRangeFor_redirections level \<and>
    RISK_ORDER_redirections level = riskOrderOf level \<and> RISK_ORDER_nudges level = riskOrderOf level \<and>
    pred_state (\<lambda>(l, s). l \<in> set levels \<and> deriveRiskLevel (num_of_int s) = Inr l) (riskLevelAndScoreArb fc levels) \<and>
    pred_state (\<lambda>s. deriveRiskLevel (num_of_int s) = Inr level) (scoreForRiskLevelArb_redirections fc level) \<and>
    pred_state (\<lambda>s. deriveRiskLevel (num_of_int s) = Inr level) (scoreForRiskLevelArb_nudges fc level) \<and>
    currentRiskLevel (Some (makeForecastResult_redirections g level x now)) = level \<and>
    currentScore (Some (makeForecastResult_redirections g level x now)) = x \<and>
    makeForecastResult_nudges g level x now = makeForecastResult_redirections g level x now"
proof -
  have draw: "pred_state P (case SCORE_RANGE_FOR_RISK l of (a, b) \<Rightarrow> fc_integer fc a b)"
    if "\<And>s. deriveRiskLevel (num_of_int s) = Inr l \<Longrightarrow> P s" for l P
  proof -
    have "fst (SCORE_RANGE_FOR_RISK l) \<le> snd (SCORE_RANGE_FOR_RISK l)" by (cases l) (simp_all add: SCORE_RANGE_FOR_RISK_def)
    from arb_draws(1) [OF assms(1) this, of P] show ?thesis
      unfolding case_prod_beta using that score_range_level [of l] by blast
  qed
  have "pred_state (\<lambda>(l, s). l \<in> set levels \<and> deriveRiskLevel (num_of_int s) = Inr l) (riskLevelAndScoreArb fc levels)"
    unfolding riskLevelAndScoreArb_def
    by (intro arb_chain arb_constantFrom [OF assms])
      (use draw in \<open>simp add: case_prod_beta, intro arb_map, simp\<close>)
  then show ?thesis
    using draw score_range_level [of level i]
    by (simp add: score_ranges scoreForRiskLevelArb_redirections_def scoreForRiskLevelArb_nudges_def
        makeForecastResult_redirections_def makeForecastResult_nudges_def currentRiskLevel_def currentScore_def)
qed

lemma fixed_now: "date_parse ''2024-01-01T12:00:00.000Z'' = Some FIXED_NOW_redirections"
  "FIXED_NOW_nudges = FIXED_NOW_redirections"
  by code_simp+

end
