(* ===== verification/RedisRefinement.thy ===== *)
theory RedisRefinement
  imports RedisClient
begin

text \<open>
  The production wrapper of \<open>src/infra/redis-client.ts\<close> and the in-memory client that
  \<open>src/server.ts\<close> runs in its place are interchangeable: a ledger of what was written last under every key
  says what either may answer, and the two answer alike except at the moment an entry expires, where Redis is not precise. So
  what the other theories show of the services over the in-memory client holds over the production client, up to that moment.
\<close>

section \<open>Calls and answers\<close>

text \<open>The interface \<open>RedisClientWrapper\<close>: its methods with their arguments, and what they return.\<close>

datatype redis_call =
    GetLastNudgeAt FanId GateId
  | SetLastNudgeAt FanId GateId int int
  | TouchSource SignalSource string int
  | IsSourceDegraded SignalSource string
  | GetLastKnownScore GateId
  | SetLastKnownScore GateId CongestionScorePoint
  | RecordRejection RouteId GateId int
  | IsRejectionSuppressed RouteId GateId

datatype redis_answer = Stored | NudgeTime "int option option" | Flag bool | CachedScore "CongestionScorePoint option"

fun call_key :: "redis_call \<Rightarrow> redis_key" where
  "call_key (GetLastNudgeAt f g) = CooldownKey f g"
| "call_key (SetLastNudgeAt f g gen ms) = CooldownKey f g"
| "call_key (TouchSource src i ms) = SourceKey src i"
| "call_key (IsSourceDegraded src i) = SourceKey src i"
| "call_key (GetLastKnownScore g) = ScoreKey g"
| "call_key (SetLastKnownScore g p) = ScoreKey g"
| "call_key (RecordRejection r g ms) = RejectionKey r g"
| "call_key (IsRejectionSuppressed r g) = RejectionKey r g"

text \<open>The in-memory client.\<close>

fun mock_call :: "redis_call \<Rightarrow> int \<Rightarrow> RedisState \<Rightarrow> redis_answer \<times> RedisState" where
  "mock_call (GetLastNudgeAt f g) now r = (let (v, r') = getLastNudgeAt f g now r in (NudgeTime v, r'))"
| "mock_call (SetLastNudgeAt f g gen ms) now r = (Stored, setLastNudgeAt f g gen ms now r)"
| "mock_call (TouchSource src i ms) now r = (Stored, touchSource (source_string src) i ms now r)"
| "mock_call (IsSourceDegraded src i) now r = (let (b, r') = isSourceDegraded (source_string src) i now r in (Flag b, r'))"
| "mock_call (GetLastKnownScore g) now r = (CachedScore (getLastKnownScore g r), r)"
| "mock_call (SetLastKnownScore g p) now r = (Stored, setLastKnownScore g p r)"
| "mock_call (RecordRejection rt g ms) now r = (Stored, recordRejection rt g ms now r)"
| "mock_call (IsRejectionSuppressed rt g) now r = (let (b, r') = isRejectionSuppressed rt g now r in (Flag b, r'))"

text \<open>The production wrapper over a client library, with the two directions of \<open>JSON\<close> for a score.\<close>

record 's redis_library =
  lib_get :: "'s client_get"
  lib_set_px :: "'s client_set_px"
  lib_set :: "'s client_set"
  lib_stringify :: "CongestionScorePoint \<Rightarrow> string"
  lib_parse :: "string \<Rightarrow> CongestionScorePoint"

fun wrapper_call :: "'s redis_library \<Rightarrow> redis_call \<Rightarrow> int \<Rightarrow> 's \<Rightarrow> redis_answer \<times> 's" where
  "wrapper_call lib (GetLastNudgeAt f g) now s = (let (v, s') = rc_getLastNudgeAt (lib_get lib) f g now s in (NudgeTime v, s'))"
| "wrapper_call lib (SetLastNudgeAt f g gen ms) now s = (Stored, rc_setLastNudgeAt (lib_set_px lib) f g gen ms now s)"
| "wrapper_call lib (TouchSource src i ms) now s = (Stored, rc_touchSource (lib_set_px lib) (source_string src) i ms now s)"
| "wrapper_call lib (IsSourceDegraded src i) now s =
     (let (b, s') = rc_isSourceDegraded (lib_get lib) (source_string src) i now s in (Flag b, s'))"
| "wrapper_call lib (GetLastKnownScore g) now s =
     (let (p, s') = rc_getLastKnownScore (lib_parse lib) (lib_get lib) g now s in (CachedScore p, s'))"
| "wrapper_call lib (SetLastKnownScore g p) now s = (Stored, rc_setLastKnownScore (lib_stringify lib) (lib_set lib) g p s)"
| "wrapper_call lib (RecordRejection rt g ms) now s = (Stored, rc_recordRejection (lib_set_px lib) rt g ms now s)"
| "wrapper_call lib (IsRejectionSuppressed rt g) now s =
     (let (b, s') = rc_isRejectionSuppressed (lib_get lib) rt g now s in (Flag b, s'))"

text \<open>A client program: timed calls, one after the other.\<close>

fun run_calls :: "(redis_call \<Rightarrow> int \<Rightarrow> 's \<Rightarrow> redis_answer \<times> 's) \<Rightarrow> (redis_call \<times> int) list \<Rightarrow> 's \<Rightarrow> redis_answer list \<times> 's" where
  "run_calls step [] s = ([], s)"
| "run_calls step ((c, now) # calls) s =
     (let (a, s1) = step c now s; (as, s2) = run_calls step calls s1 in (a # as, s2))"

section \<open>The contract of the library\<close>

text \<open>\<open>SET key value PX ms\<close> as in \<open>redis_client\<close>; \<open>SET key value\<close> stores without expiry; the database is empty at the start.\<close>

definition library_contract :: "'s redis_library \<Rightarrow> 's \<Rightarrow> bool" where
  "library_contract lib s0 = (redis_client (lib_set_px lib) (lib_get lib) \<and>
     (\<forall>k t v s. fst (lib_get lib k t (lib_set lib k v s)) = Some v) \<and>
     (\<forall>k k' t v s. k \<noteq> k' \<longrightarrow> fst (lib_get lib k t (lib_set lib k' v s)) = fst (lib_get lib k t s)) \<and>
     (\<forall>k t. fst (lib_get lib k t s0) = None))"

lemma library_laws:
  assumes "library_contract lib s0"
  shows "0 < ttl \<Longrightarrow> now \<le> t \<Longrightarrow> t < now + ttl \<Longrightarrow> fst (lib_get lib k t (lib_set_px lib k v ttl now s)) = Some v"
    "0 < ttl \<Longrightarrow> now + ttl + 1 < t \<Longrightarrow> fst (lib_get lib k t (lib_set_px lib k v ttl now s)) = None"
    "0 < ttl \<Longrightarrow> now \<le> t \<Longrightarrow> fst (lib_get lib k t (lib_set_px lib k v ttl now s)) \<in> {None, Some v}"
    "0 < ttl \<Longrightarrow> k \<noteq> k' \<Longrightarrow> fst (lib_get lib k t (lib_set_px lib k' v ttl now s)) = fst (lib_get lib k t s)"
    "t' \<le> t \<Longrightarrow> fst (lib_get lib k t (snd (lib_get lib k' t' s))) = fst (lib_get lib k t s)"
    "fst (lib_get lib k t (lib_set lib k v s)) = Some v"
    "k \<noteq> k' \<Longrightarrow> fst (lib_get lib k t (lib_set lib k' v s)) = fst (lib_get lib k t s)"
    "fst (lib_get lib k t s0) = None"
proof -
  have c: "redis_client (lib_set_px lib) (lib_get lib)" using assms by (simp add: library_contract_def)
  show "0 < ttl \<Longrightarrow> now \<le> t \<Longrightarrow> t < now + ttl \<Longrightarrow> fst (lib_get lib k t (lib_set_px lib k v ttl now s)) = Some v"
    by (rule redis_client.set_live [OF c])
  show "0 < ttl \<Longrightarrow> now + ttl + 1 < t \<Longrightarrow> fst (lib_get lib k t (lib_set_px lib k v ttl now s)) = None"
    by (rule redis_client.set_gone [OF c])
  show "0 < ttl \<Longrightarrow> now \<le> t \<Longrightarrow> fst (lib_get lib k t (lib_set_px lib k v ttl now s)) \<in> {None, Some v}"
    by (rule redis_client.set_edge [OF c])
  show "0 < ttl \<Longrightarrow> k \<noteq> k' \<Longrightarrow> fst (lib_get lib k t (lib_set_px lib k' v ttl now s)) = fst (lib_get lib k t s)"
    by (rule redis_client.set_other [OF c])
  show "t' \<le> t \<Longrightarrow> fst (lib_get lib k t (snd (lib_get lib k' t' s))) = fst (lib_get lib k t s)"
    by (rule redis_client.get_later [OF c])
qed (use assms in \<open>simp_all add: library_contract_def\<close>)

text \<open>The calls covered: ids that can be told apart in a key, positive times to live, and scores that are read back from
  their text.\<close>

fun call_ok :: "'s redis_library \<Rightarrow> redis_call \<Rightarrow> bool" where
  "call_ok lib (GetLastNudgeAt f g) = no_colon g"
| "call_ok lib (SetLastNudgeAt f g gen ms) = (no_colon g \<and> 0 < ms)"
| "call_ok lib (TouchSource src i ms) = (0 < ms)"
| "call_ok lib (IsSourceDegraded src i) = True"
| "call_ok lib (GetLastKnownScore g) = True"
| "call_ok lib (SetLastKnownScore g p) = (lib_stringify lib p \<noteq> [] \<and> lib_parse lib (lib_stringify lib p) = p)"
| "call_ok lib (RecordRejection rt g ms) = (no_colon rt \<and> 0 < ms)"
| "call_ok lib (IsRejectionSuppressed rt g) = no_colon rt"

lemma call_ok_key: "call_ok lib c \<Longrightarrow> key_ok (call_key c)"
  by (cases c) simp_all

section \<open>The ledger\<close>

text \<open>What a call writes at time \<open>now\<close>, with its expiry, and the last writes under all keys.\<close>

fun written :: "'s redis_library \<Rightarrow> redis_call \<Rightarrow> int \<Rightarrow> (string \<times> int option) option" where
  "written lib (SetLastNudgeAt f g gen ms) now = Some (toISOString gen, Some (now + ms))"
| "written lib (TouchSource src i ms) now = Some (''1'', Some (now + ms))"
| "written lib (SetLastKnownScore g p) now = Some (lib_stringify lib p, None)"
| "written lib (RecordRejection rt g ms) now = Some (''1'', Some (now + ms))"
| "written lib c now = None"

type_synonym ledger = "redis_key \<Rightarrow> (string \<times> int option) option"

definition enter :: "'s redis_library \<Rightarrow> redis_call \<times> int \<Rightarrow> ledger \<Rightarrow> ledger" where
  "enter lib ct w = (case written lib (fst ct) (snd ct) of None \<Rightarrow> w | Some x \<Rightarrow> w(call_key (fst ct) \<mapsto> x))"

definition ledger_of :: "'s redis_library \<Rightarrow> (redis_call \<times> int) list \<Rightarrow> ledger" where
  "ledger_of lib calls = fold (enter lib) calls Map.empty"

text \<open>What a call answers when it finds a value under its key.\<close>

fun answer :: "'s redis_library \<Rightarrow> redis_call \<Rightarrow> string option \<Rightarrow> redis_answer" where
  "answer lib (GetLastNudgeAt f g) v = NudgeTime (if truthy_str v then map_option date_parse v else None)"
| "answer lib (IsSourceDegraded src i) v = Flag (v = None)"
| "answer lib (GetLastKnownScore g) v = CachedScore (if truthy_str v then map_option (lib_parse lib) v else None)"
| "answer lib (IsRejectionSuppressed rt g) v = Flag (v \<noteq> None)"
| "answer lib c v = Stored"

text \<open>What the in-memory client holds under an entry of the ledger, and what Redis may.\<close>

fun holds :: "(string \<times> int option) option \<Rightarrow> int \<Rightarrow> string option" where
  "holds None t = None"
| "holds (Some (v, None)) t = Some v"
| "holds (Some (v, Some expiry)) t = (if t < expiry then Some v else None)"

fun at_edge :: "(string \<times> int option) option \<Rightarrow> int \<Rightarrow> string option \<Rightarrow> bool" where
  "at_edge (Some (v, Some expiry)) t u = (expiry \<le> t \<and> t \<le> expiry + 1 \<and> u = Some v)"
| "at_edge x t u = False"

definition may_hold :: "(string \<times> int option) option \<Rightarrow> int \<Rightarrow> string option \<Rightarrow> bool" where
  "may_hold x t u = (u = holds x t \<or> at_edge x t u)"

section \<open>The in-memory client\<close>

text \<open>What its maps hold under a key.\<close>

fun held :: "'s redis_library \<Rightarrow> redis_key \<Rightarrow> int \<Rightarrow> RedisState \<Rightarrow> string option" where
  "held lib (CooldownKey f g) t r = fst (getIfNotExpired (join_key f g) t (cooldownStore r))"
| "held lib (SourceKey src i) t r = fst (getIfNotExpired (join_key (source_string src) i) t (degradedSourceStore r))"
| "held lib (ScoreKey g) t r = map_option (lib_stringify lib) (map_of (lastKnownScoreStore r) g)"
| "held lib (RejectionKey rt g) t r = fst (getIfNotExpired (join_key rt g) t (rejectionStore r))"

definition mock_follows :: "'s redis_library \<Rightarrow> int \<Rightarrow> ledger \<Rightarrow> RedisState \<Rightarrow> bool" where
  "mock_follows lib now w r = ((\<forall>g p. map_of (lastKnownScoreStore r) g = Some p \<longrightarrow> call_ok lib (SetLastKnownScore g p)) \<and>
     (\<forall>k t. key_ok k \<longrightarrow> now \<le> t \<longrightarrow> held lib k t r = holds (w k) t))"

lemma held_read:
  assumes "now \<le> t"
  shows "held lib k t (snd (getLastNudgeAt f g now r)) = held lib k t r"
    "held lib k t (snd (isSourceDegraded src i now r)) = held lib k t r"
    "held lib k t (snd (isRejectionSuppressed rt g now r)) = held lib k t r"
  using assms by (cases k; simp add: redis_defs case_prod_beta Let_def map_laws)+

lemma held_write:
  assumes "key_ok k" "key_ok k'"
  shows "k' = CooldownKey f g \<Longrightarrow> held lib k t (setLastNudgeAt f g gen ttl now r) =
      (if k = k' then if t < now + ttl then Some (toISOString gen) else None else held lib k t r)"
    "k' = SourceKey src i \<Longrightarrow> held lib k t (touchSource (source_string src) i ttl now r) =
      (if k = k' then if t < now + ttl then Some ''1'' else None else held lib k t r)"
    "k' = ScoreKey g \<Longrightarrow> held lib k t (setLastKnownScore g p r) = (if k = k' then Some (lib_stringify lib p) else held lib k t r)"
    "k' = RejectionKey rt g \<Longrightarrow> held lib k t (recordRejection rt g ttl now r) =
      (if k = k' then if t < now + ttl then Some ''1'' else None else held lib k t r)"
  using assms by (cases k; auto simp: redis_defs setLastKnownScore_def store_simps map_laws join_key_inj join_key_inj_last)+

lemma held_call:
  assumes "key_ok k" "call_ok lib c" "now \<le> t"
  shows "held lib k t (snd (mock_call c now r)) = (case written lib c now of
      None \<Rightarrow> held lib k t r | Some x \<Rightarrow> if k = call_key c then holds (Some x) t else held lib k t r)"
proof (cases c)
  case (SetLastNudgeAt f g gen ms)
  then show ?thesis using held_write(1) [of k "CooldownKey f g" f g lib t gen ms now r] assms by simp
next
  case (TouchSource src i ms)
  then show ?thesis using held_write(2) [of k "SourceKey src i" src i lib t ms now r] assms by simp
next
  case (SetLastKnownScore g p)
  then show ?thesis using held_write(3) [of k "ScoreKey g" g lib t p r] assms by simp
next
  case (RecordRejection rt g ms)
  then show ?thesis using held_write(4) [of k "RejectionKey rt g" rt g lib t ms now r] assms by simp
qed (use assms(3) in \<open>simp_all add: held_read case_prod_beta Let_def\<close>)

lemma scores_frame [simp]:
  "lastKnownScoreStore (snd (getLastNudgeAt f g now r)) = lastKnownScoreStore r"
  "lastKnownScoreStore (snd (isSourceDegraded src i now r)) = lastKnownScoreStore r"
  "lastKnownScoreStore (snd (isRejectionSuppressed rt g now r)) = lastKnownScoreStore r"
  "lastKnownScoreStore (setLastNudgeAt f g gen ttl now r) = lastKnownScoreStore r"
  "lastKnownScoreStore (touchSource src i ttl now r) = lastKnownScoreStore r"
  "lastKnownScoreStore (recordRejection rt g ttl now r) = lastKnownScoreStore r"
  by (simp_all add: redis_defs case_prod_beta Let_def)

lemma mock_step:
  assumes "mock_follows lib now w r" "call_ok lib c"
  shows "fst (mock_call c now r) = answer lib c (holds (w (call_key c)) now)"
    "mock_follows lib now (enter lib (c, now) w) (snd (mock_call c now r))"
proof -
  have h: "held lib (call_key c) now r = holds (w (call_key c)) now"
    using assms(1) call_ok_key [OF assms(2)] by (simp add: mock_follows_def)
  have score: "lib_stringify lib p \<noteq> []" "lib_parse lib (lib_stringify lib p) = p" if "map_of (lastKnownScoreStore r) g = Some p" for g p
    using assms(1) that by (auto simp: mock_follows_def)
  show "fst (mock_call c now r) = answer lib c (holds (w (call_key c)) now)"
    unfolding h [symmetric]
  proof (cases c)
    case (GetLastKnownScore g)
    then show "fst (mock_call c now r) = answer lib c (held lib (call_key c) now r)"
      using score [of g] by (cases "map_of (lastKnownScoreStore r) g") (simp_all add: getLastKnownScore_def)
  qed (simp_all add: getLastNudgeAt_def isSourceDegraded_def isRejectionSuppressed_def case_prod_beta Let_def)
  have "call_ok lib (SetLastKnownScore g p)" if "map_of (lastKnownScoreStore (snd (mock_call c now r))) g = Some p" for g p
    using that score [of g p] assms(2) by (cases c) (auto simp: case_prod_beta Let_def setLastKnownScore_def store_simps split: if_splits)
  moreover have "held lib k t (snd (mock_call c now r)) = holds (enter lib (c, now) w k) t" if "key_ok k" "now \<le> t" for k t
    using held_call [OF that(1) assms(2) that(2), of r] assms(1) that by (auto simp: mock_follows_def enter_def split: option.splits)
  ultimately show "mock_follows lib now (enter lib (c, now) w) (snd (mock_call c now r))" unfolding mock_follows_def by blast
qed

section \<open>The production client\<close>

definition client_follows :: "'s redis_library \<Rightarrow> int \<Rightarrow> ledger \<Rightarrow> 's \<Rightarrow> bool" where
  "client_follows lib now w s =
     (\<forall>k t. key_ok k \<longrightarrow> now \<le> t \<longrightarrow> may_hold (w k) t (fst (lib_get lib (key_text k) t s)))"

lemma wrapper_step:
  assumes "library_contract lib s0" "client_follows lib now w s" "call_ok lib c"
  shows "fst (wrapper_call lib c now s) = answer lib c (fst (lib_get lib (key_text (call_key c)) now s))"
    "client_follows lib now (enter lib (c, now) w) (snd (wrapper_call lib c now s))"
proof -
  note laws = library_laws [OF assms(1)]
  show "fst (wrapper_call lib c now s) = answer lib c (fst (lib_get lib (key_text (call_key c)) now s))"
    by (cases c) (simp_all add: rc_getLastNudgeAt_def rc_isSourceDegraded_def rc_getLastKnownScore_def rc_isRejectionSuppressed_def
        case_prod_beta Let_def)
  have rd: "client_follows lib now w (snd (lib_get lib x now s))" for x
    using assms(2) laws(5) by (simp add: client_follows_def)
  have other: "key_ok k \<Longrightarrow> k \<noteq> call_key c \<Longrightarrow> key_text k \<noteq> key_text (call_key c)" for k
    using key_text_inj [of k "call_key c"] call_ok_key [OF assms(3)] by simp
  have edge: "may_hold (Some (v, Some (now + ms))) t (fst (lib_get lib x t (lib_set_px lib x v ms now s)))" if "0 < ms" "now \<le> t" for v ms t x
    using laws(1-3) [of ms now t x v s] that by (cases "t < now + ms"; cases "now + ms + 1 < t") (auto simp: may_hold_def)
  have wr: "client_follows lib now (w(call_key c \<mapsto> (v, Some (now + ms)))) (lib_set_px lib (key_text (call_key c)) v ms now s)" if "0 < ms" for v ms
    using assms(2) edge [OF that] laws(4) [OF that] other by (auto simp: client_follows_def)
  have plain: "client_follows lib now (w(call_key c \<mapsto> (v, None))) (lib_set lib (key_text (call_key c)) v s)" for v
    using assms(2) laws(6,7) other by (auto simp: client_follows_def may_hold_def)
  show "client_follows lib now (enter lib (c, now) w) (snd (wrapper_call lib c now s))"
    using assms(3) rd wr plain
    by (cases c) (auto simp: enter_def rc_getLastNudgeAt_def rc_isSourceDegraded_def rc_getLastKnownScore_def rc_isRejectionSuppressed_def
        rc_setLastNudgeAt_def rc_touchSource_def rc_setLastKnownScore_def rc_recordRejection_def case_prod_beta Let_def)
qed

section \<open>The refinement\<close>

lemma follows_later:
  "client_follows lib now w s \<Longrightarrow> now \<le> now' \<Longrightarrow> client_follows lib now' w s"
  "mock_follows lib now w r \<Longrightarrow> now \<le> now' \<Longrightarrow> mock_follows lib now' w r"
  by (auto simp: client_follows_def mock_follows_def)

lemma run_calls_length [simp]: "length (fst (run_calls step calls s)) = length calls"
proof (induction calls arbitrary: s)
  case (Cons ct calls)
  then show ?case by (cases ct) (simp add: case_prod_beta Let_def)
qed simp

text \<open>Answer \<open>a\<close> of Redis and \<open>b\<close> of the in-memory client to a call made when the last writes are \<open>w\<close>.\<close>

definition same_answer :: "'s redis_library \<Rightarrow> ledger \<Rightarrow> redis_call \<times> int \<Rightarrow> redis_answer \<Rightarrow> redis_answer \<Rightarrow> bool" where
  "same_answer lib w ct a b = (a = b \<or> (\<exists>v expiry. w (call_key (fst ct)) = Some (v, Some expiry) \<and>
     expiry \<le> snd ct \<and> snd ct \<le> expiry + 1 \<and> a = answer lib (fst ct) (Some v)))"

lemma may_hold_answer:
  assumes "may_hold (w (call_key c)) t u"
  shows "same_answer lib w (c, t) (answer lib c u) (answer lib c (holds (w (call_key c)) t))"
proof (cases "w (call_key c)")
  case (Some x)
  then show ?thesis using assms by (cases x; cases "snd x") (auto simp: may_hold_def same_answer_def)
qed (use assms in \<open>simp add: may_hold_def same_answer_def\<close>)

lemma calls_follow:
  assumes "library_contract lib s0" "client_follows lib now w s" "mock_follows lib now w r"
    and "list_all (\<lambda>(c, t). call_ok lib c) calls" "sorted_wrt (\<le>) (now # map snd calls)" "i < length calls"
  shows "same_answer lib (fold (enter lib) (take i calls) w) (calls ! i)
    (fst (run_calls (wrapper_call lib) calls s) ! i) (fst (run_calls mock_call calls r) ! i)"
  using assms(2-6)
proof (induction calls arbitrary: now w s r i)
  case (Cons ct calls)
  obtain c t where ct: "ct = (c, t)" by (cases ct)
  have t: "now \<le> t" "call_ok lib c" "sorted_wrt (\<le>) (t # map snd calls)" "list_all (\<lambda>(c, t). call_ok lib c) calls"
    using Cons.prems(3,4) by (simp_all add: ct)
  obtain a s' b r' where steps: "wrapper_call lib c t s = (a, s')" "mock_call c t r = (b, r')" by (metis surj_pair)
  have f: "client_follows lib t w s" "mock_follows lib t w r" by (rule follows_later(1) [OF Cons.prems(1) t(1)], rule follows_later(2) [OF Cons.prems(2) t(1)])
  note client = wrapper_step [OF assms(1) f(1) t(2)] and mock = mock_step [OF f(2) t(2)]
  show ?case
  proof (cases i)
    case 0
    have "may_hold (w (call_key c)) t (fst (lib_get lib (key_text (call_key c)) t s))"
      using f(1) call_ok_key [OF t(2)] by (simp add: client_follows_def)
    from may_hold_answer [of w c t, OF this, of lib] show ?thesis
      using client(1) mock(1) by (simp add: 0 ct steps case_prod_beta Let_def)
  next
    case (Suc j)
    have "same_answer lib (fold (enter lib) (take j calls) (enter lib (c, t) w)) (calls ! j)
        (fst (run_calls (wrapper_call lib) calls s') ! j) (fst (run_calls mock_call calls r') ! j)"
      by (rule Cons.IH [OF _ _ t(4,3)]) (use client(2) mock(2) Cons.prems(5) in \<open>simp_all add: Suc steps\<close>)
    then show ?thesis by (simp add: Suc ct steps case_prod_beta Let_def)
  qed
qed simp

text \<open>C25. Refinement: over any client library that keeps its documented contract, the production wrapper gives
  every sequence of calls, at times that do not decrease, the answers of the in-memory client of the
  server. They may differ only in a read made in the millisecond in which what was last written under its key expires: there
  the wrapper may still answer with that value. The calls have positive times to live, the gate of a cooldown and the route of a
  rejection have no colon, and scores are read back from their JSON text.\<close>

theorem redis_refinement:
  assumes "library_contract lib s0" "list_all (\<lambda>(c, t). call_ok lib c) calls" "sorted_wrt (\<le>) (map snd calls)"
  shows "length (fst (run_calls (wrapper_call lib) calls s0)) = length (fst (run_calls mock_call calls empty_redis)) \<and>
    (\<forall>i < length calls.
      fst (run_calls (wrapper_call lib) calls s0) ! i = fst (run_calls mock_call calls empty_redis) ! i \<or>
      (\<exists>v expiry. ledger_of lib (take i calls) (call_key (fst (calls ! i))) = Some (v, Some expiry) \<and>
        expiry \<le> snd (calls ! i) \<and> snd (calls ! i) \<le> expiry + 1 \<and>
        fst (run_calls (wrapper_call lib) calls s0) ! i = answer lib (fst (calls ! i)) (Some v)))"
proof -
  have "same_answer lib (ledger_of lib (take i calls)) (calls ! i)
      (fst (run_calls (wrapper_call lib) calls s0) ! i) (fst (run_calls mock_call calls empty_redis) ! i)" if "i < length calls" for i
  proof -
    have "held lib k t empty_redis = None" for k t by (cases k) (simp_all add: empty_redis_def getIfNotExpired_def)
    then have "mock_follows lib (snd (hd calls)) Map.empty empty_redis" by (simp add: mock_follows_def empty_redis_def)
    moreover have "client_follows lib (snd (hd calls)) Map.empty s0"
      using library_laws(8) [OF assms(1)] by (simp add: client_follows_def may_hold_def)
    moreover have "sorted_wrt (\<le>) (snd (hd calls) # map snd calls)" using assms(3) that by (cases calls) auto
    ultimately show ?thesis unfolding ledger_of_def using calls_follow [OF assms(1) _ _ assms(2) _ that] by blast
  qed
  then show ?thesis by (simp add: same_answer_def)
qed

section \<open>A client library\<close>

text \<open>A database whose entries may have an expiry and, as in Redis, are still there at that moment.\<close>

type_synonym database = "(string, string \<times> int option) jsmap"

definition demo_point :: CongestionScorePoint where
  "demo_point = \<lparr>point_gateId = ''gate-a'', forecastTime = toISOString 0, offsetMinutes = 0, score = Fin 80, riskLevel = HIGH,
     point_lowConfidence = False, outdated = False\<rparr>"

definition database_library :: "database redis_library" where
  "database_library = \<lparr>lib_get = (\<lambda>k t s. (case map_of s k of Some (v, None) \<Rightarrow> Some v
       | Some (v, Some expiry) \<Rightarrow> if expiry < t then None else Some v | None \<Rightarrow> None, s)),
     lib_set_px = (\<lambda>k v ttl now s. AList.update k (v, Some (now + ttl)) s), lib_set = (\<lambda>k v s. AList.update k (v, None) s),
     lib_stringify = (\<lambda>p. ''p''), lib_parse = (\<lambda>s. demo_point)\<rparr>"

lemma database_contract: "library_contract database_library []"
  by (simp add: library_contract_def redis_client_def database_library_def store_simps)

lemma redis_refinement_witness:
  "fst (run_calls (wrapper_call database_library)
      [(SetLastNudgeAt ''f1'' ''gate-a'' 0 300000, 0), (GetLastNudgeAt ''f1'' ''gate-a'', 299999), (GetLastNudgeAt ''f1'' ''gate-a'', 300002)] []) ! 2 =
    NudgeTime None"
proof -
  let ?calls = "[(SetLastNudgeAt ''f1'' ''gate-a'' 0 300000, 0), (GetLastNudgeAt ''f1'' ''gate-a'', 299999),
    (GetLastNudgeAt ''f1'' ''gate-a'', 300002 :: int)]"
  have ok: "list_all (\<lambda>(c, t). call_ok database_library c) ?calls" "sorted_wrt (\<le>) (map snd ?calls)" by (simp_all add: no_colon_def)
  define as where "as = fst (run_calls (wrapper_call database_library) ?calls [])"
  define bs where "bs = fst (run_calls mock_call ?calls empty_redis)"
  have "ledger_of database_library (take 2 ?calls) (CooldownKey ''f1'' ''gate-a'') = Some (toISOString 0, Some 300000)"
    by (simp add: ledger_of_def enter_def)
  moreover have "2 < length ?calls" "?calls ! 2 = (GetLastNudgeAt ''f1'' ''gate-a'', 300002)" by simp_all
  moreover note redis_refinement [OF database_contract ok, folded as_def bs_def, THEN conjunct2, rule_format, of 2]
  ultimately have "as ! 2 = bs ! 2" by simp
  moreover have "bs ! 2 = NudgeTime None"
    by (simp add: bs_def setLastNudgeAt_def getLastNudgeAt_def setExpiring_def getIfNotExpired_def empty_redis_def store_simps Let_def)
  ultimately show ?thesis by (simp only: as_def)
qed

text \<open>At the moment of the expiry itself the two differ: Redis still has the cooldown.\<close>

lemma expiry_differs:
  "fst (rc_getLastNudgeAt (lib_get database_library) ''f1'' ''gate-a'' 300000
      (rc_setLastNudgeAt (lib_set_px database_library) ''f1'' ''gate-a'' 0 300000 0 [])) = Some (Some 0) \<and>
    fst (getLastNudgeAt ''f1'' ''gate-a'' 300000 (setLastNudgeAt ''f1'' ''gate-a'' 0 300000 0 empty_redis)) = None"
  using date_parse_toISOString [of 0]
  by (simp add: rc_getLastNudgeAt_def rc_setLastNudgeAt_def database_library_def setLastNudgeAt_def getLastNudgeAt_def setExpiring_def
      getIfNotExpired_def empty_redis_def store_simps valid_time_def toISOString_not_empty Let_def)

end
