(* ===== verification/Accounting.thy ===== *)
theory Accounting
  imports EndToEnd
begin

text \<open>
  Signals are accounted for over whole runs of the server: the audit log has the accepted ones and the
  dead letters the rejected ones, each once, in the order in which the clients were answered.
\<close>

section \<open>What the answers say\<close>

definition accepted_of :: "response \<Rightarrow> string list" where
  "accepted_of r = (case snd r of SignalAccepted i \<Rightarrow> [i] | _ \<Rightarrow> [])"

definition rejected_of :: "response \<Rightarrow> ValidationError list" where
  "rejected_of r = (case snd r of SignalRejected err \<Rightarrow> [err] | _ \<Rightarrow> [])"

text \<open>The error a dead letter records.\<close>

definition recorded_error :: "json ValidationErrorRecord \<Rightarrow> ValidationError" where
  "recorded_error rec = \<lparr>ve_source = err_source rec, ve_reason = err_reason rec, ve_offendingField = err_offendingField rec,
     ve_rawPayload = err_rawPayload rec\<rparr>"

definition accounts :: "PipelineState \<Rightarrow> string list \<times> ValidationError list" where
  "accounts s = (map signalId (signals_log s), map recorded_error (errors_log s))"

text \<open>One answer more.\<close>

definition book :: "response option \<Rightarrow> string list \<times> ValidationError list \<Rightarrow> string list \<times> ValidationError list" where
  "book r as = (case r of None \<Rightarrow> as | Some x \<Rightarrow> (fst as @ accepted_of x, snd as @ rejected_of x))"

section \<open>One step\<close>

lemma accounts_logs: "signals_log s' = signals_log s \<Longrightarrow> errors_log s' = errors_log s \<Longrightarrow> accounts s' = accounts s"
  by (simp add: accounts_def)

lemma accounts_frame [simp]:
  "accounts (draw s) = accounts s" "accounts (s\<lparr>p_redis := r\<rparr>) = accounts s" "accounts (console_error t err s) = accounts s"
  "accounts (mark_source src i now s) = accounts s" "accounts (trackFansForEvent e s) = accounts s"
  "accounts (appendToWindow g e now s) = accounts s"
  by (rule accounts_logs; simp add: mark_source_def trackFansForEvent_def add_fans_def appendToWindow_def Let_def console_error_def
      split: SignalEventPayloadBody.splits option.splits)+

lemma accounts_recompute:
  assumes "p_subscribed s"
  shows "accounts (snd (run_recompute cfg (score_publish cfg) gate s)) = accounts s"
proof (cases rule: run_recompute_cases [of cfg gate s])
  case (published result r p ps)
  let ?s1 = "(draw s)\<lparr>p_redis := r\<rparr>"
  have "p_subscribed ?s1" using assms by simp
  from score_effect_fields [OF published(1) this, of cfg gate] have "accounts (snd (run_recompute cfg (score_publish cfg) gate s)) = accounts ?s1"
    unfolding published(4) by (intro accounts_logs) simp_all
  then show ?thesis by simp
qed simp

lemma accounts_signal:
  assumes "p_subscribed s"
  shows "accounts (publishSignalEvent cfg e s) = (fst (accounts s) @ [signalId e], snd (accounts s))"
proof -
  have "accounts (snd (onSignalEvent cfg (score_publish cfg) (SignalEventMsg e) s)) = accounts s"
  proof (cases "truthy_str (gateId e)")
    case True
    have "p_subscribed (appendToWindow g e t (trackFansForEvent e s))" for g t
      using assms core_track [of e s] by (simp add: appendToWindow_def core_def Let_def)
    then show ?thesis using True by (simp add: accounts_recompute Let_def split: option.splits)
  qed simp
  then have "accounts (settle SIGNAL_EVENTS (onSignalEvent cfg (score_publish cfg) (SignalEventMsg e) s)) = accounts s"
    by (simp add: settle_def split: option.splits del: onSignalEvent.simps)
  then show ?thesis
    unfolding publish_signal_eq [OF assms] by (simp add: accounts_def del: onSignalEvent.simps)
qed

lemma accounts_invalid:
  assumes "p_subscribed s"
  shows "accounts (publishValidationError cfg err s) = (fst (accounts s), snd (accounts s) @ [err])"
  using assms by (simp add: publishValidationError_def bus_publish_simps is_leaf_def leaf_publish_def accounts_def recorded_error_def Let_def)

lemma accounts_post_signal:
  assumes "p_subscribed s" "post_signal sc body s = (r, s')"
  shows "accounts s' = book (Some r) (accounts s)"
proof -
  have s: "p_subscribed (draw s)" using assms(1) by simp
  show ?thesis
    using assms(2)
    by (auto simp: post_signal_def handleSignal_def book_def accepted_of_def rejected_of_def accounts_signal [OF s] accounts_invalid [OF s]
        Let_def split: sum.splits)
qed

lemma accounts_route:
  assumes "p_subscribed s" "route_handler sc ep s = (r, s')"
  shows "accounts s' = book (Some r) (accounts s)"
proof (cases ep)
  case (PostSignal body)
  then show ?thesis using accounts_post_signal assms by simp
next
  case (PostReject rt i d)
  then show ?thesis
    using assms(2) by (auto simp: post_reject_def book_def accepted_of_def rejected_of_def found_or_404_def accounts_def Let_def
        split: prod.splits option.splits)
qed (use assms(2) in \<open>auto simp: get_handler_defs get_source_status_def post_execute_def post_accept_def post_acknowledge_def book_def
      accepted_of_def rejected_of_def found_or_404_def accounts_def Let_def split: prod.splits option.splits\<close>)

lemma accounts_request:
  assumes "p_subscribed s" "handle_request sc req ep s = (r, s')"
  shows "accounts s' = book (Some r) (accounts s)"
  using assms accounts_route [OF assms(1)]
  by (auto simp: handle_request_def book_def accepted_of_def rejected_of_def split: option.splits auth_result.splits)

lemma accounts_step:
  assumes "healthy sc s" "config_ok dt sc" "p_subscribed s" "\<not> stops sc op" "server_step sc op s = (r, s')"
  shows "accounts s' = book r (accounts s)"
proof -
  have none: "accounts s' = book r (accounts s)" if "accounts s' = accounts s" "r = None" using that by (simp add: book_def)
  show ?thesis
  proof (cases op)
    case (Request req ep)
    obtain x s1 where "handle_request sc req ep s = (x, s1)" by (metis surj_pair)
    with accounts_request [OF assms(3) this] assms(5) Request show ?thesis by simp
  next
    case (GateTick h)
    have same: "core (gate_tick (sc_pipeline sc) h s) = core s" by (rule healthy_gate_tick [OF assms(1,2)])
    have "accounts (gate_tick (sc_pipeline sc) h s) = accounts s"
    proof (cases "map_of (running_timers (p_scheduler s)) h")
      case (Some t)
      obtain e s1 where run: "run_recompute (sc_pipeline sc) (score_publish (sc_pipeline sc)) (timer_gate t) s = (e, s1)" by (metis surj_pair)
      then have "accounts s1 = accounts s" using accounts_recompute [OF assms(3), of "sc_pipeline sc" "timer_gate t"] by simp
      with Some run show ?thesis
        by (cases e) (simp_all add: gate_tick_def run_recompute_bus accounts_def)
    qed (simp add: gate_tick_def)
    moreover have "p_unhandled (gate_tick (sc_pipeline sc) h s) = p_unhandled s" using same by (simp add: core_def)
    ultimately show ?thesis using assms(5) none GateTick by (auto simp: Let_def)
  next
    case DataQualityTick
    have "accounts (check_gate_quality cfg g s) = accounts s" for cfg g s
      by (simp add: accounts_def check_gate_logs)
    then have "accounts (fold (check_gate_quality cfg) gs s) = accounts s" for cfg gs s
      by (induction gs arbitrary: s) simp_all
    then have "accounts (data_quality_tick (sc_pipeline sc) s) = accounts s" by (simp add: data_quality_tick_def)
    then show ?thesis using assms(5) none DataQualityTick by auto
  next
    case NudgeWorkerTick
    have "accounts (nudge_worker_tick s) = accounts s" by (simp add: nudge_worker_tick_def accounts_def process_world_logs)
    then show ?thesis using assms(5) none NudgeWorkerTick by auto
  next
    case HeartbeatTick
    have "accounts (hub_tick s) = accounts s" by (simp add: hub_tick_def accounts_def)
    then show ?thesis using assms(5) none HeartbeatTick by auto
  next
    case (OpenStream i target)
    then have "upgrade (sc_parseUrl sc) (sc_apiKeys sc) target \<noteq> UpgradeThrown" using assms(4) by (simp add: upgrade_thrown)
    then have "accounts (open_stream sc i target s) = accounts s"
      by (simp add: open_stream_def accounts_def split: upgrade_result.splits)
    then show ?thesis using assms(5) none OpenStream by auto
  next
    case (CloseStream i)
    have "accounts (close_stream i s) = accounts s" by (simp add: close_stream_def accounts_def)
    then show ?thesis using assms(5) none CloseStream by auto
  next
    case (Elapse ms)
    then show ?thesis using assms(5) none by (auto simp: accounts_def)
  qed (use assms(4) in simp)
qed

lemma accounts_run:
  assumes "healthy sc s" "timers_ok (sc_pipeline sc) s" "p_subscribed s" "config_ok dt sc" "\<not> list_ex (stops sc) ops"
    and "run_server sc ops s = (rs, s')"
  shows "accounts s' = (fst (accounts s) @ concat (map accepted_of rs), snd (accounts s) @ concat (map rejected_of rs))"
  using assms
proof (induction ops arbitrary: s rs)
  case (Cons op ops)
  obtain r s1 where step: "server_step sc op s = (r, s1)" by (metis surj_pair)
  obtain rs1 where run: "run_server sc ops s1 = (rs1, s')" "rs = (case r of None \<Rightarrow> rs1 | Some x \<Rightarrow> x # rs1)"
    using Cons.prems(6) step by (auto simp: case_prod_beta Let_def prod_eq_iff split: option.splits)
  have op: "\<not> stops sc op" using Cons.prems(5) by simp
  have "timers_ok (sc_pipeline sc) s1" using timers.step_ok [OF Cons.prems(2,2), of op] step by simp
  moreover have "healthy sc s1" "p_subscribed s1"
    using healthy_step [OF Cons.prems(1,2,4), of op] op Cons.prems(3) step by simp_all
  ultimately have "accounts s' = (fst (accounts s1) @ concat (map accepted_of rs1), snd (accounts s1) @ concat (map rejected_of rs1))"
    using Cons.IH [OF _ _ _ Cons.prems(4) _ run(1)] Cons.prems(5) by simp
  moreover have "accounts s1 = book r (accounts s)" by (rule accounts_step [OF Cons.prems(1,4,3) op step])
  ultimately show ?case by (simp add: run(2) book_def split: option.splits)
qed simp

text \<open>C2. Every signal is accounted for, over every run in which the service does not end: the signal events in the
  audit log are those answered with 202, once each and in the order of the answers, and the dead letters in
  the audit log are the errors answered with 400, once each and in that order; whatever else the
  server did, and whichever timers fired, in between.\<close>

theorem signals_accounted:
  assumes "config_ok dt sc" "\<not> list_ex (stops sc) ops" "run_server sc ops (startup sc now) = (rs, s)"
  shows "map signalId (signals_log s) = concat (map accepted_of rs) \<and>
    map recorded_error (errors_log s) = concat (map rejected_of rs)"
proof -
  have h: "healthy sc (startup sc now)" "p_subscribed (startup sc now)"
    using healthy_run [OF assms(1), where now = now and ops = "[]"] by simp_all
  have "accounts (startup sc now) = ([], [])"
    by (simp add: accounts_def startup_def initial_def empty_audit_def Let_def)
  with accounts_run [OF h(1) timers_startup h(2) assms] show ?thesis by (simp add: accounts_def)
qed

lemma signals_accounted_witness:
  "\<exists>rs s. run_server demo_server [Request \<lparr>header_Authorization = None, header_X_API_Key = Some ''k1''\<rparr> (PostSignal (JObj demo_fields)),
      GateTick 0, Elapse 15000, NudgeWorkerTick,
      Request \<lparr>header_Authorization = None, header_X_API_Key = Some ''k1''\<rparr> (PostSignal JNull)] (startup demo_server 0) = (rs, s) \<and>
    length rs = 2 \<and> map signalId (signals_log s) = accepted_of (rs ! 0) @ accepted_of (rs ! 1)"
proof -
  let ?q = "\<lambda>b. Request \<lparr>header_Authorization = None, header_X_API_Key = Some ''k1''\<rparr> (PostSignal b)"
  let ?ops = "[?q (JObj demo_fields), GateTick 0, Elapse 15000, NudgeWorkerTick, ?q JNull]"
  obtain rs s where run: "run_server demo_server ?ops (startup demo_server 0) = (rs, s)" by (metis surj_pair)
  obtain r1 r2 where rs: "rs = [r1, r2]"
  proof -
    have "\<exists>r1 r2. fst (run_server demo_server ?ops s0) = [r1, r2]" for s0
      by (simp add: case_prod_beta Let_def)
    with run that show thesis by (metis fst_conv)
  qed
  have "\<not> list_ex (stops demo_server) ?ops" by simp
  from signals_accounted [OF demo_config this run] rs run show ?thesis by (intro exI [of _ rs] exI [of _ s]) simp
qed

end
