(* ===== verification/NudgeBooks.thy ===== *)
theory NudgeBooks
  imports Cooldown
begin

text \<open>
  The three records of a fan nudge over whole runs of the server: the queue the worker settles, the operators'
  list behind \<open>GET /v1/nudges\<close>, and the audit log. The invariant builds on the one of the cooldowns, which
  keeps an id from being generated twice.
\<close>

section \<open>Ids\<close>

lemma length_toISOString:
  assumes "four_digit_year t"
  shows "length (toISOString t) = 24"
proof -
  obtain y m d where c: "civil_from_days (t div ms_per_day) = (y, m, d)" by (metis prod_cases3)
  from four_digit_year_range [OF assms c] show ?thesis
    by (simp add: toISOString_def c year_string_def clock_string_def length_pad_digits)
qed

text \<open>The id of a nudge, with the gates it may be about.\<close>

definition nudge_id_ok :: "GateId set \<Rightarrow> FanNudge \<Rightarrow> bool" where
  "nudge_id_ok G n = (nudgeId n = nudge_fanId n @ ''-'' @ nudge_originGateId n @ ''-'' @ nudge_generatedAt n \<and>
     nudge_originGateId n \<in> G \<and> (\<exists>t. four_digit_year t \<and> nudge_generatedAt n = toISOString t))"

text \<open>No gate's id ends with a dash and the id of a gate: then the parts of a nudge's id can be told apart.\<close>

definition dash_apart :: "GateId set \<Rightarrow> bool" where
  "dash_apart G = (\<forall>g \<in> G. \<forall>g' \<in> G. \<not> suffix (''-'' @ g') g)"

lemma dash_inj:
  assumes "f @ ''-'' @ g = f' @ ''-'' @ g'" "dash_apart G" "g \<in> G" "g' \<in> G"
  shows "f = f' \<and> g = g'"
proof -
  have no: "\<not> suffix (''-'' @ g') g" "\<not> suffix (''-'' @ g) g'" using assms(2-4) by (auto simp: dash_apart_def)
  from assms(1) obtain us where "f = f' @ us \<and> us @ ''-'' @ g = ''-'' @ g' \<or> f @ us = f' \<and> ''-'' @ g = us @ ''-'' @ g'"
    unfolding append_eq_append_conv2 by blast
  then show ?thesis
  proof
    assume a: "f = f' @ us \<and> us @ ''-'' @ g = ''-'' @ g'"
    then show ?thesis using no(2) by (cases us) (auto simp: suffix_def)
  next
    assume a: "f @ us = f' \<and> ''-'' @ g = us @ ''-'' @ g'"
    then show ?thesis using no(1) by (cases us) (auto simp: suffix_def)
  qed
qed

lemma nudge_id_inj:
  assumes "dash_apart G" "nudge_id_ok G n" "nudge_id_ok G m" "nudgeId n = nudgeId m"
  shows "nudge_key n = nudge_key m \<and> nudge_generatedAt n = nudge_generatedAt m"
proof -
  have len: "length (nudge_generatedAt n) = length (nudge_generatedAt m)"
    using assms(2,3) length_toISOString by (auto simp: nudge_id_ok_def)
  have "(nudge_fanId n @ ''-'' @ nudge_originGateId n @ ''-'') @ nudge_generatedAt n =
      (nudge_fanId m @ ''-'' @ nudge_originGateId m @ ''-'') @ nudge_generatedAt m"
    using assms(2-4) by (simp add: nudge_id_ok_def)
  then have parts: "nudge_fanId n @ ''-'' @ nudge_originGateId n @ ''-'' = nudge_fanId m @ ''-'' @ nudge_originGateId m @ ''-''"
    "nudge_generatedAt n = nudge_generatedAt m"
    unfolding append_eq_append_conv [OF disjI2 [OF len]] by (rule conjunct1, rule conjunct2)
  have "(nudge_fanId n @ ''-'' @ nudge_originGateId n) @ ''-'' = (nudge_fanId m @ ''-'' @ nudge_originGateId m) @ ''-''"
    using parts(1) by simp
  then have "nudge_fanId n @ ''-'' @ nudge_originGateId n = nudge_fanId m @ ''-'' @ nudge_originGateId m"
    by (rule append_same_eq [THEN iffD1])
  then have "nudge_fanId n = nudge_fanId m \<and> nudge_originGateId n = nudge_originGateId m"
    using assms(1-3) by (intro dash_inj) (auto simp: nudge_id_ok_def)
  with parts(2) show ?thesis by (simp add: nudge_key_def)
qed

text \<open>Two gates whose ids are not apart in this sense can share the id of a nudge.\<close>

lemma nudge_ids_collide: "''f'' @ ''-'' @ ''north-gate'' @ ''-'' @ t = ''f-north'' @ ''-'' @ ''gate'' @ ''-'' @ t"
  by simp

section \<open>Generating\<close>

definition fresh :: "FanNudge list \<Rightarrow> QueuedNudgeState \<Rightarrow> bool" where
  "fresh ns q = (distinct (map nudgeId ns) \<and> (\<forall>n \<in> set ns. nudgeId n \<notin> fst ` set q))"

text \<open>An id is generated at most once: a nudge with the same id would be one of the cooldown just checked.\<close>

lemma generated_fresh:
  assumes "queue_ok q" "\<forall>n \<in> snd ` set q. dated past n \<and> nudge_id_ok G n" "dash_apart G" "nudge_id_ok G m"
    and "nudge_generatedAt m = toISOString now" "four_digit_year now"
    and "\<forall>(t, m') \<in> set past. nudge_key m' = nudge_key m \<longrightarrow> t + COOLDOWN_PERIOD_MS \<le> now"
  shows "nudgeId m \<notin> fst ` set q"
proof
  assume "nudgeId m \<in> fst ` set q"
  then obtain n where n: "(nudgeId m, n) \<in> set q" by force
  then have "nudgeId n = nudgeId m" "dated past n" "nudge_id_ok G n" using assms(1,2) by (force simp: queue_ok_def)+
  with nudge_id_inj [OF assms(3) _ assms(4)] have same: "nudge_key n = nudge_key m" "nudge_generatedAt n = toISOString now"
    using assms(5) by simp_all
  from \<open>dated past n\<close> obtain t m' where t: "(t, m') \<in> set past" "valid_time t" "nudge_key m' = nudge_key n" "nudge_generatedAt n = toISOString t"
    by (auto simp: dated_def)
  then have "t = now" using same(2) toISOString_inj four_digit_valid [OF assms(6)] by auto
  with t(1,3) same(1) assms(7) show False by (force simp: COOLDOWN_PERIOD_MS_def)
qed

lemma update_generates:
  assumes "nudge_onScoreUpdate lc fans g forecasts now now st = (ns, st')" "remembers now past (fst st)"
    and "no_colon (gate_id g)" "four_digit_year now" "gate_id g \<in> G" "dash_apart G" "queue_ok (snd st)"
    and "\<forall>n \<in> snd ` set (snd st). dated past n \<and> nudge_id_ok G n"
  shows "snd st' = fold enqueueNudge ns (snd st) \<and> fresh ns (snd st) \<and> (\<forall>n \<in> set ns. nudge_id_ok G n \<and> nudge_status n = QUEUED)"
  using assms
proof (induction fans arbitrary: st ns past)
  case Nil
  then show ?case by (auto simp: fresh_def)
next
  case (Cons fan fans)
  let ?e = "\<lparr>ne_fan = fan, ne_gate = g, ne_forecasts = forecasts, ne_time = now\<rparr>"
  obtain n st1 where n: "nudge_fan lc g forecasts now now fan st = (n, st1)" by (metis surj_pair)
  have "nudge_onScoreUpdate lc fans g forecasts now now st1 = (fst (nudge_onScoreUpdate lc fans g forecasts now now st1), st')"
    "ns = (case n of None \<Rightarrow> fst (nudge_onScoreUpdate lc fans g forecasts now now st1)
      | Some nudge \<Rightarrow> nudge # fst (nudge_onScoreUpdate lc fans g forecasts now now st1))"
    using Cons.prems(1) n by (auto simp: case_prod_beta Let_def)
  then obtain ns1 where ns1: "nudge_onScoreUpdate lc fans g forecasts now now st1 = (ns1, st')"
    "ns = (case n of None \<Rightarrow> ns1 | Some nudge \<Rightarrow> nudge # ns1)" by blast
  have valid: "valid_time now" by (rule four_digit_valid [OF Cons.prems(4)])
  have step: "case n of None \<Rightarrow> remembers now past (fst st1)
    | Some m \<Rightarrow> remembers now ((now, m) # past) (fst st1) \<and>
        (\<forall>(t, m') \<in> set past. nudge_key m' = nudge_key m \<longrightarrow> t + COOLDOWN_PERIOD_MS \<le> now)"
    using remembers_step [of now past st ?e lc n st1] Cons.prems(2,3) valid n by (cases n) simp_all
  show ?case
  proof (cases n)
    case None
    then have "snd st1 = snd st" using n by (auto simp: nudge_fan_get split: option.splits)
    then show ?thesis using Cons.IH [OF ns1(1) _ Cons.prems(3-6)] Cons.prems(7,8) step ns1(2) None by simp
  next
    case (Some m)
    then have m: "snd st1 = enqueueNudge m (snd st)"
      "\<exists>l. generateFanNudge lc fan g forecasts l now = Some m"
      using n by (auto simp: nudge_fan_get split: option.splits)
    from m(2) have id: "nudge_id_ok G m" "nudge_status m = QUEUED" "nudge_generatedAt m = toISOString now"
      using generated_fields Cons.prems(4,5) by (fastforce simp: nudge_id_ok_def)+
    have new: "nudgeId m \<notin> fst ` set (snd st)"
      using generated_fresh [OF Cons.prems(7,8,6) id(1,3) Cons.prems(4)] step Some by simp
    have "dated ((now, m) # past) m" using id(3) valid by (auto simp: dated_def)
    moreover have "dated ((now, m) # past) k" if "dated past k" for k using that by (rule dated_mono) auto
    ultimately have "\<forall>k \<in> snd ` set (snd st1). dated ((now, m) # past) k \<and> nudge_id_ok G k"
      using Cons.prems(8) id(1) enqueue_values [of m "snd st"] unfolding m(1) by blast
    from Cons.IH [OF ns1(1) _ Cons.prems(3-6) _ this] have
      "snd st' = fold enqueueNudge ns1 (snd st1)" "fresh ns1 (snd st1)" "\<forall>n \<in> set ns1. nudge_id_ok G n \<and> nudge_status n = QUEUED"
      using step Some queue_ok_enqueue [OF Cons.prems(7)] by (simp_all add: m(1))
    moreover have "set (snd st1) = insert (nudgeId m, m) (set (snd st))"
      using new by (simp add: m(1) enqueueNudge_def update_fresh)
    ultimately show ?thesis using ns1(2) Some id(1,2) new by (auto simp: m(1) fresh_def)
  qed
qed

section \<open>The three records\<close>

text \<open>The audit log has every nudge as it is in the queue, and the operators' list the settled ones, once each.\<close>

definition books :: "QueuedNudgeState \<Rightarrow> FanNudge list \<Rightarrow> (string, FanNudge) jsmap \<Rightarrow> bool" where
  "books q shown audited = (queue_ok q \<and> map_of audited = map_of q \<and> distinct (map nudgeId shown) \<and>
     set shown = {n \<in> snd ` set q. nudge_status n \<noteq> QUEUED})"

lemma books_generate:
  assumes "books q shown audited" "fresh ns q" "\<forall>n \<in> set ns. nudge_status n = QUEUED"
  shows "books (fold enqueueNudge ns q) shown (fold (\<lambda>n. AList.update (nudgeId n) n) ns audited)"
  using assms
proof (induction ns arbitrary: q audited)
  case (Cons n ns)
  have new: "nudgeId n \<notin> fst ` set q" using Cons.prems(2) by (simp add: fresh_def)
  then have q: "set (enqueueNudge n q) = insert (nudgeId n, n) (set q)" by (simp add: enqueueNudge_def update_fresh)
  have "books (enqueueNudge n q) shown (AList.update (nudgeId n) n audited)"
    using Cons.prems(1,3) queue_ok_enqueue [of q n] q by (auto simp: books_def enqueueNudge_def store_simps fun_eq_iff)
  moreover have "fresh ns (enqueueNudge n q)" using Cons.prems(2) q by (auto simp: fresh_def) (metis imageI)
  ultimately show ?case using Cons.IH Cons.prems(3) by simp
qed simp

lemma queue_values:
  assumes "queue_ok q"
  shows "n \<in> snd ` set q \<longleftrightarrow> map_of q (nudgeId n) = Some n"
proof
  assume "n \<in> snd ` set q"
  then obtain k where "(k, n) \<in> set q" by force
  with assms show "map_of q (nudgeId n) = Some n" by (auto simp: queue_ok_def)
qed (force dest: map_of_SomeD)

lemma queue_ok_worker:
  assumes "queue_ok (nw_queue w)"
  shows "queue_ok (nw_queue (process_world forecasts now w))"
proof -
  have "queue_ok (nw_queue (deliver_one world_update recordDelivery recordCancellation forecasts now n w))" if "queue_ok (nw_queue w)" for n w
    using that queue_ok_enqueue [of "nw_queue w" "settled forecasts now n"] by (simp add: deliver_one_eq updateNudge_def enqueueNudge_def)
  then have "queue_ok (nw_queue (fold (deliver_one world_update recordDelivery recordCancellation forecasts now) ns w))" for ns
    using assms by (induction ns arbitrary: w) simp_all
  then show ?thesis by (simp add: processQueue_def)
qed

lemma image_fixed: "(\<And>m. P m \<Longrightarrow> f m = m) \<Longrightarrow> {n \<in> V. P n} \<union> f ` {n \<in> V. \<not> P n} = f ` V"
proof -
  assume fixed: "\<And>m. P m \<Longrightarrow> f m = m"
  have "f m \<in> {n \<in> V. P n} \<union> f ` {n \<in> V. \<not> P n}" if "m \<in> V" for m
    using that fixed by (cases "P m") simp_all
  moreover have "m \<in> f ` V" if "m \<in> V" "P m" for m
    using that fixed [of m] image_eqI [of m f m V] by simp
  ultimately show ?thesis by blast
qed

lemma books_worker:
  fixes forecasts :: "(GateId, ForecastResult) jsmap" and now :: int
  assumes "books (nw_queue w) (nw_query w) (audit_nudges (nw_audit w))"
  defines "w' \<equiv> process_world forecasts now w"
  shows "books (nw_queue w') (nw_query w') (audit_nudges (nw_audit w'))"
proof -
  let ?q = "nw_queue w" and ?open = "filter (\<lambda>n. nudge_status n = QUEUED) (getQueuedNudges (nw_queue w))"
  have ok: "queue_ok ?q" and log: "map_of (audit_nudges (nw_audit w)) = map_of ?q" and shown: "distinct (map nudgeId (nw_query w))"
    "set (nw_query w) = {n \<in> snd ` set ?q. nudge_status n \<noteq> QUEUED}"
    using assms(1) by (simp_all add: books_def)
  note settles = delivery_settles [OF ok, of forecasts now, folded w'_def]
  have q': "map_of (nw_queue w') i = map_option (settled forecasts now) (map_of ?q i)" for i
    using settles by blast
  have query': "nw_query w' = nw_query w @ map (settled forecasts now) ?open" using settles by blast
  have log': "map_of (audit_nudges (nw_audit w')) i = map_of (nw_queue w') i" for i
    using settles [THEN conjunct2, THEN conjunct2, THEN conjunct2, rule_format, of i]
    by (auto simp: q' log settled_def split: option.splits)
  have ok': "queue_ok (nw_queue w')" unfolding w'_def by (rule queue_ok_worker [OF ok])
  have ids: "map nudgeId (map (settled forecasts now) ?open) = map nudgeId ?open" by (simp add: settled_id)
  have opened: "set ?open = {n \<in> snd ` set ?q. nudge_status n = QUEUED}" by (auto simp: getQueuedNudges_def)
  have "distinct (map nudgeId ?open)" using queue_lookup(1) [OF ok] by (rule distinct_map_filter)
  moreover have "nudgeId n \<noteq> nudgeId m" if "n \<in> set (nw_query w)" "m \<in> set ?open" for n m
  proof
    assume "nudgeId n = nudgeId m"
    have "n \<in> snd ` set ?q \<and> nudge_status n \<noteq> QUEUED" using that(1) unfolding shown(2) by (rule CollectD)
    moreover have "m \<in> snd ` set ?q \<and> nudge_status m = QUEUED" using that(2) unfolding opened by (rule CollectD)
    ultimately show False using queue_values [OF ok] \<open>nudgeId n = nudgeId m\<close> by (metis option.inject)
  qed
  ultimately have "distinct (map nudgeId (nw_query w'))"
    unfolding query' map_append ids distinct_append using shown(1) by fastforce
  moreover have "set (nw_query w') = {n \<in> snd ` set (nw_queue w'). nudge_status n \<noteq> QUEUED}"
  proof -
    have "n \<in> settled forecasts now ` snd ` set ?q" if "n \<in> snd ` set (nw_queue w')" for n
    proof -
      have "map_of (nw_queue w') (nudgeId n) = Some n" using that queue_values [OF ok'] by simp
      then obtain m where m: "map_of ?q (nudgeId n) = Some m" "n = settled forecasts now m" by (auto simp: q')
      then show ?thesis by (force dest: map_of_SomeD)
    qed
    moreover have "settled forecasts now m \<in> snd ` set (nw_queue w')" if "m \<in> snd ` set ?q" for m
      using that by (simp add: queue_values [OF ok'] queue_values [OF ok] q' settled_id)
    ultimately have vals: "snd ` set (nw_queue w') = settled forecasts now ` snd ` set ?q" by blast
    have "nudge_status m \<noteq> QUEUED \<Longrightarrow> settled forecasts now m = m" for m by (simp add: settled_def)
    then have "set (nw_query w') = settled forecasts now ` snd ` set ?q"
      unfolding query' set_append set_map opened shown(2)
      using image_fixed [where P = "\<lambda>n. nudge_status n \<noteq> QUEUED" and f = "settled forecasts now" and V = "snd ` set ?q"] by simp
    then show ?thesis unfolding vals using settled_not_queued by auto
  qed
  ultimately show ?thesis using ok' log' by (simp add: books_def fun_eq_iff)
qed

section \<open>The invariant\<close>

abbreviation gate_ids :: "ServerConfig \<Rightarrow> GateId set" where
  "gate_ids sc \<equiv> gate_id ` set (cfg_gates (sc_pipeline sc))"

definition nudge_records_ok :: "GateId set \<Rightarrow> PipelineState \<Rightarrow> bool" where
  "nudge_records_ok G s = (books (nw_queue (p_nudges s)) (nw_query (p_nudges s)) (nudges_log s) \<and>
     (\<forall>n \<in> snd ` set (nw_queue (p_nudges s)). nudge_id_ok G n))"

definition nudges_ok :: "ServerConfig \<Rightarrow> PipelineState \<Rightarrow> bool" where
  "nudges_ok sc s = (cooldowns_ok s \<and> (four_digit_year (p_clock s) \<longrightarrow> nudge_records_ok (gate_ids sc) s))"

lemma nudge_records_cong: "nudge_view s' = nudge_view s \<Longrightarrow> nudge_records_ok G s' = nudge_records_ok G s"
  by (simp add: nudge_records_ok_def nudge_view_def)

lemma nudges_ok_cong:
  assumes "nudges_ok sc s" "nudge_view s' = nudge_view s"
  shows "nudges_ok sc s'"
proof -
  have "p_clock s' = p_clock s" using assms(2) by (simp add: nudge_view_def)
  then show ?thesis using assms(1) cooldowns_ok_cong [OF _ assms(2)] nudge_records_cong [OF assms(2)] by (simp add: nudges_ok_def)
qed

lemma publish_nudges_log:
  assumes "p_subscribed s"
  shows "nudges_log (fold (\<lambda>n. leaf_publish (FanNudgeMsg n)) ns s) = fold (\<lambda>n. AList.update (nudgeId n) n) ns (nudges_log s)"
  using assms by (induction ns arbitrary: s) simp_all

lemma publish_nudges_shown:
  "nw_queue (p_nudges (fold (\<lambda>n. leaf_publish (FanNudgeMsg n)) ns s)) = nw_queue (p_nudges s) \<and>
   nw_query (p_nudges (fold (\<lambda>n. leaf_publish (FanNudgeMsg n)) ns s)) = nw_query (p_nudges s)"
  by (induction ns arbitrary: s) simp_all

lemma fold_enqueue_values: "snd ` set (fold enqueueNudge ns q) \<subseteq> snd ` set q \<union> set ns"
proof (induction ns arbitrary: q)
  case (Cons n ns)
  from Cons.IH [of "enqueueNudge n q"] show ?case using enqueue_values [of n q] by auto
qed simp

lemma records_generate:
  assumes "cooldowns_ok s" "nudge_records_ok G s" "four_digit_year (p_clock s)" "p_subscribed s"
    and "no_colon (gate_id gate)" "gate_id gate \<in> G" "dash_apart G"
  shows "nudge_records_ok G (generate_nudges cfg leaf_publish gate (p_clock s) s)"
proof -
  let ?q = "nw_queue (p_nudges s)"
  let ?fans = "map snd (get_or (fansByGate s) (gate_id gate) [])"
  obtain ns redis queue where o: "nudge_onScoreUpdate (cfg_lc cfg) ?fans gate (forecastsByGate s) (p_clock s) (p_clock s)
      (p_redis s, ?q) = (ns, redis, queue)" by (metis prod_cases3)
  obtain past where past: "remembers (p_clock s) past (p_redis s)" "\<forall>n \<in> recorded_nudges s. dated past n"
    using assms(1) four_digit_valid [OF assms(3)] by (auto simp: cooldowns_ok_def)
  have queue: "queue_ok ?q" "\<forall>n \<in> snd ` set ?q. dated past n \<and> nudge_id_ok G n"
    using assms(2) past(2) by (auto simp: nudge_records_ok_def books_def recorded_nudges_def)
  have new: "queue = fold enqueueNudge ns ?q" "fresh ns ?q" "\<forall>n \<in> set ns. nudge_id_ok G n \<and> nudge_status n = QUEUED"
    using update_generates [OF o _ assms(5,3,6,7)] past(1) queue by simp_all
  let ?s1 = "s\<lparr>p_redis := redis, p_nudges := (p_nudges s)\<lparr>nw_queue := queue\<rparr>\<rparr>"
  have g: "generate_nudges cfg leaf_publish gate (p_clock s) s = fold (\<lambda>n. leaf_publish (FanNudgeMsg n)) ns ?s1"
    using o by (simp add: generate_nudges_def Let_def)
  have "books queue (nw_query (p_nudges s)) (fold (\<lambda>n. AList.update (nudgeId n) n) ns (nudges_log s))"
    unfolding new(1) using assms(2) new(2,3) by (intro books_generate) (simp_all add: nudge_records_ok_def)
  moreover have "\<forall>n \<in> snd ` set queue. nudge_id_ok G n"
    using fold_enqueue_values [of ns ?q] new(3) queue(2) unfolding new(1) by blast
  ultimately show ?thesis
    unfolding nudge_records_ok_def g using publish_nudges_shown [of ns ?s1] publish_nudges_log [of ?s1 ns] assms(4) by simp
qed

lemma nudges_publish:
  assumes "nudges_ok sc s" "p_subscribed s" "scores result = p # ps" "no_colon (gate_id gate)" "gate_id gate \<in> gate_ids sc"
    and "dash_apart (gate_ids sc)"
  shows "nudges_ok sc (score_effect cfg \<lparr>csm_gate = gate, csm_result = result\<rparr> (store_forecast gate result s))"
proof -
  let ?s = "store_forecast gate result s"
  let ?e = "score_effect cfg \<lparr>csm_gate = gate, csm_result = result\<rparr> ?s"
  have cool: "cooldowns_ok ?e" using assms(1-4) by (intro cooldowns_publish) (auto simp: nudges_ok_def)
  have s: "nudges_ok sc ?s" by (rule nudges_ok_cong [OF assms(1)]) (simp add: nudge_view_def)
  let ?body = "score_body cfg gate result ?s"
  obtain s4 where s4: "?body = generate_nudges cfg leaf_publish gate (p_clock ?s) s4" "nudge_view s4 = nudge_view ?s"
    "p_subscribed s4 = p_subscribed ?s"
    by (simp add: score_body_def Let_def before_nudges)
  from nudges_ok_cong [OF s s4(2)] have s4_ok: "nudges_ok sc s4" .
  have clock: "p_clock s4 = p_clock ?s" using s4(2) by (simp add: nudge_view_def)
  have view: "nudge_view ?e = nudge_view ?body" using assms(2,3) by (auto simp: score_effect_eq [of result p ps] nudge_view_def)
  moreover have "p_clock ?e = p_clock s4" using view s4(1) by (simp add: nudge_view_def)
  ultimately show ?thesis
    using cool s4_ok records_generate [of s4 "gate_ids sc" gate cfg] assms(2,4-6) s4(1,3) clock nudge_records_cong [of ?e ?body "gate_ids sc"]
    by (simp add: nudges_ok_def)
qed

lemma settled_id_ok: "nudge_id_ok G (settled forecasts now n) = nudge_id_ok G n"
  by (simp add: nudge_id_ok_def settled_def)

lemma nudges_worker:
  assumes "nudges_ok sc s"
  shows "nudges_ok sc (s\<lparr>p_nudges := process_world (forecastsByGate s) (p_clock s) (p_nudges s)\<rparr>)"
proof -
  let ?w = "process_world (forecastsByGate s) (p_clock s) (p_nudges s)"
  have "nudge_records_ok G (s\<lparr>p_nudges := ?w\<rparr>)" if records: "nudge_records_ok G s" for G
  proof -
    have ok: "books (nw_queue (p_nudges s)) (nw_query (p_nudges s)) (nudges_log s)" "queue_ok (nw_queue (p_nudges s))"
      using that by (simp_all add: nudge_records_ok_def books_def)
    have "nudge_id_ok G n" if n: "n \<in> snd ` set (nw_queue ?w)" for n
    proof -
      obtain m where m: "map_of (nw_queue (p_nudges s)) (nudgeId n) = Some m" "n = settled (forecastsByGate s) (p_clock s) m"
        using n delivery_settles [OF ok(2), of "forecastsByGate s" "p_clock s"]
        unfolding queue_values [OF queue_ok_worker [OF ok(2)]] by auto
      then have "m \<in> snd ` set (nw_queue (p_nudges s))" by (force dest: map_of_SomeD)
      then have "nudge_id_ok G m" using records unfolding nudge_records_ok_def by blast
      then show ?thesis by (simp add: m(2) settled_id_ok)
    qed
    then show ?thesis using books_worker [OF ok(1)] by (simp add: nudge_records_ok_def)
  qed
  then show ?thesis using assms cooldowns_worker [of s] by (simp add: nudges_ok_def)
qed

section \<open>Every run\<close>

lemma nudges_invariant:
  assumes "colon_free sc" "dash_apart (gate_ids sc)"
  shows "server_invariant sc (nudges_ok sc)"
proof
  fix s and gate :: Gate and result :: ForecastResult and p ps
  assume "nudges_ok sc s" "p_subscribed s" "scores result = p # ps" "known_gate (sc_pipeline sc) gate"
  moreover from this(4) assms(1) have "no_colon (gate_id gate)" "gate_id gate \<in> gate_ids sc" by (auto simp: known_gate_def colon_free_def)
  ultimately show "nudges_ok sc (score_effect (sc_pipeline sc) \<lparr>csm_gate = gate, csm_result = result\<rparr> (store_forecast gate result s))"
    using assms(2) by (intro nudges_publish)
next
  show "nudges_ok sc (check_gate_quality (sc_pipeline sc) gate s)" if "nudges_ok sc s" for s gate
    using nudges_ok_cong [OF that] by (simp add: check_gate_view)
next
  show "nudges_ok sc (s\<lparr>p_redis := r\<rparr>)" if "nudges_ok sc s" "cooldownStore r = cooldownStore (p_redis s)" for s r
    using nudges_ok_cong [OF that(1)] that(2) by (simp add: nudge_view_def)
next
  fix s ms
  assume s: "nudges_ok sc s"
  then have "four_digit_year (p_clock s)" if "four_digit_year (p_clock s + int ms)"
    using that by (simp add: four_digit_year_def nudges_ok_def cooldowns_ok_def)
  then show "nudges_ok sc (s\<lparr>p_clock := p_clock s + int ms\<rparr>)"
    using s cooldowns_clock [of s ms] by (simp add: nudges_ok_def nudge_records_ok_def)
next
  show "nudges_ok sc (s\<lparr>p_nudges := process_world (forecastsByGate s) (p_clock s) (p_nudges s)\<rparr>)" if "nudges_ok sc s" for s
    using that by (rule nudges_worker)
qed (erule nudges_ok_cong, simp add: nudge_view_def appendToWindow_def stop_def draw_def Let_def)+

lemma nudges_startup: "0 \<le> now \<Longrightarrow> nudges_ok sc (startup sc now)"
  using cooldowns_startup [of now sc]
  by (simp add: nudges_ok_def nudge_records_ok_def books_def queue_ok_def startup_def initial_def empty_audit_def Let_def)

lemma nudges_run:
  assumes "colon_free sc" "dash_apart (gate_ids sc)" "0 \<le> now" "four_digit_year (p_clock (reached sc now ops))"
  shows "nudge_records_ok (gate_ids sc) (reached sc now ops)"
  using server_invariant.run_ok [OF nudges_invariant [OF assms(1,2)] nudges_startup [OF assms(3)], of ops] assms(4)
  by (simp add: nudges_ok_def)

text \<open>C9. The records of the nudges agree in every state the server reaches: a nudge is filed in the delivery queue under its
  own id, which is its fan, its gate and the time it was generated, and is about a configured gate;
  the audit log has, under every id, exactly what the queue has; and the operators' list has the
  delivered and cancelled nudges of the queue, each of them once, and no other (gate ids without a
  colon, none of them ending with a dash and another, clock before the year 10000).\<close>

theorem nudge_books:
  assumes "colon_free sc" "dash_apart (gate_ids sc)" "0 \<le> now" "s = reached sc now ops" "four_digit_year (p_clock s)"
  shows "distinct (map fst (nw_queue (p_nudges s))) \<and>
    list_all (\<lambda>(k, n). k = nudgeId n \<and> k = nudge_fanId n @ ''-'' @ nudge_originGateId n @ ''-'' @ nudge_generatedAt n \<and>
      nudge_originGateId n \<in> gate_ids sc) (nw_queue (p_nudges s)) \<and>
    map_of (audit_nudges (nw_audit (p_nudges s))) = map_of (nw_queue (p_nudges s)) \<and>
    distinct (map nudgeId (nw_query (p_nudges s))) \<and>
    set (nw_query (p_nudges s)) = set (filter (\<lambda>n. nudge_status n \<noteq> QUEUED) (getQueuedNudges (nw_queue (p_nudges s))))"
proof -
  have "nudge_records_ok (gate_ids sc) s" using nudges_run [OF assms(1-3)] assms(4,5) by simp
  then have b: "books (nw_queue (p_nudges s)) (nw_query (p_nudges s)) (audit_nudges (nw_audit (p_nudges s)))"
    "\<forall>n \<in> snd ` set (nw_queue (p_nudges s)). nudge_id_ok (gate_ids sc) n" by (simp_all add: nudge_records_ok_def)
  have "k = nudgeId n \<and> nudge_id_ok (gate_ids sc) n" if "(k, n) \<in> set (nw_queue (p_nudges s))" for k n
    using b that by (force simp: books_def queue_ok_def)
  then have "list_all (\<lambda>(k, n). k = nudgeId n \<and> k = nudge_fanId n @ ''-'' @ nudge_originGateId n @ ''-'' @ nudge_generatedAt n \<and>
      nudge_originGateId n \<in> gate_ids sc) (nw_queue (p_nudges s))"
    unfolding list_all_iff nudge_id_ok_def by fastforce
  moreover have "set (nw_query (p_nudges s)) = set (filter (\<lambda>n. nudge_status n \<noteq> QUEUED) (getQueuedNudges (nw_queue (p_nudges s))))"
    using b(1) by (simp add: books_def getQueuedNudges_def)
  ultimately show ?thesis using b(1) by (simp add: books_def queue_ok_def)
qed

lemma fan_run:
  obtains n where "map_of (nw_queue (p_nudges (reached fan_server 0 [fan_request]))) (''f1-gate-a-'' @ toISOString 0) = Some n"
    "nudge_status n = QUEUED" "p_clock (reached fan_server 0 [fan_request]) = 0"
proof -
  obtain s' where s': "snd (post_signal fan_server (JObj demo_fields) fan_start) = s'" "p_clock s' = 0"
    "nudged ''f1'' ''gate-a'' 0 (nw_queue (p_nudges s'))"
    by (rule fan_signal)
  then show thesis using that by (auto simp: fan_request_run nudged_def simp del: run_server.simps split: option.splits)
qed

lemma fan_apart: "dash_apart (gate_ids fan_server)"
  by (auto simp: dash_apart_def fan_server_def fan_gate_def dest: suffix_length_le)

lemma nudge_books_witness:
  "\<exists>n. map_of (audit_nudges (nw_audit (p_nudges (reached fan_server 0 [fan_request])))) (''f1-gate-a-'' @ toISOString 0) = Some n \<and>
    nudge_status n = QUEUED"
proof -
  obtain n where n: "map_of (nw_queue (p_nudges (reached fan_server 0 [fan_request]))) (''f1-gate-a-'' @ toISOString 0) = Some n"
    "nudge_status n = QUEUED" "p_clock (reached fan_server 0 [fan_request]) = 0"
    by (rule fan_run)
  have "four_digit_year (p_clock (reached fan_server 0 [fan_request]))" unfolding n(3) by (simp add: four_digit_year_def)
  from nudge_books [OF fan_server_ok(3) fan_apart order_refl refl this] n(1,2) show ?thesis by metis
qed

section \<open>The worker in the server\<close>

lemma workers_run:
  assumes "config_ok dt sc" "\<not> list_ex (stops sc) ops"
  shows "p_workers (reached sc now ops)"
proof -
  have "server_invariant sc (\<lambda>s. p_subscribed s \<longrightarrow> p_workers s)"
  proof
    show "p_subscribed (check_gate_quality (sc_pipeline sc) gate s) \<longrightarrow> p_workers (check_gate_quality (sc_pipeline sc) gate s)"
      if "p_subscribed s \<longrightarrow> p_workers s" for s gate
      using that by (simp add: check_gate_quality_def raiseDataQualityAlertIfAllDegraded_def case_prod_beta Let_def)
  qed (auto simp: appendToWindow_def stop_def score_effect_eq Let_def)
  moreover have "p_subscribed (startup sc now) \<longrightarrow> p_workers (startup sc now)" by (simp add: startup_def initial_def Let_def)
  ultimately show ?thesis
    using server_invariant.run_ok [where P = "\<lambda>s. p_subscribed s \<longrightarrow> p_workers s" and sc = sc] healthy_run(2) [OF assms] by blast
qed

text \<open>C7. Nudges do not stay queued: at any moment before the service ends, one run of the delivery worker settles every nudge of the
  queue. A nudge whose gate is still at \<open>HIGH\<close> or \<open>CRITICAL\<close> becomes delivered with the time of
  delivery, any other queued nudge cancelled, and those settled before stay; the newly settled nudges, and
  no others, come after the operators' list, which then has every nudge of the queue, and the audit
  log has every nudge in its final state.\<close>

theorem nudges_settled:
  assumes "config_ok dt sc" "colon_free sc" "dash_apart (gate_ids sc)" "0 \<le> now" "\<not> list_ex (stops sc) ops"
    and "s = reached sc now ops" "four_digit_year (p_clock s)" "s' = snd (server_step sc NudgeWorkerTick s)"
  shows "(\<forall>i. map_of (nw_queue (p_nudges s')) i =
      map_option (\<lambda>n. if nudge_status n \<noteq> QUEUED then n
        else if high_or_critical (currentRiskLevel (map_of (forecastsByGate s) (nudge_originGateId n)))
        then n\<lparr>nudge_status := SIMULATED_DELIVERED, simulatedDeliveryTimestamp := Some (toISOString (p_clock s))\<rparr>
        else n\<lparr>nudge_status := CANCELLED\<rparr>) (map_of (nw_queue (p_nudges s)) i)) \<and>
    (\<exists>new. nw_query (p_nudges s') = nw_query (p_nudges s) @ new \<and>
      map nudgeId new = map nudgeId (filter (\<lambda>n. nudge_status n = QUEUED) (getQueuedNudges (nw_queue (p_nudges s))))) \<and>
    set (nw_query (p_nudges s')) = set (getQueuedNudges (nw_queue (p_nudges s'))) \<and>
    list_all (\<lambda>n. nudge_status n \<noteq> QUEUED) (getQueuedNudges (nw_queue (p_nudges s'))) \<and>
    map_of (audit_nudges (nw_audit (p_nudges s'))) = map_of (nw_queue (p_nudges s'))"
proof -
  let ?w = "p_nudges s" and ?w' = "p_nudges s'" and ?f = "settled (forecastsByGate s) (p_clock s)"
  have b: "books (nw_queue ?w) (nw_query ?w) (audit_nudges (nw_audit ?w))"
    using nudges_run [OF assms(2-4)] assms(6,7) by (simp add: nudge_records_ok_def)
  have w': "?w' = process_world (forecastsByGate s) (p_clock s) ?w"
    using workers_run [OF assms(1,5)] assms(6,8) by (simp add: nudge_worker_tick_def)
  have b': "books (nw_queue ?w') (nw_query ?w') (audit_nudges (nw_audit ?w'))" unfolding w' by (rule books_worker [OF b])
  then have ok: "queue_ok (nw_queue ?w)" "queue_ok (nw_queue ?w')" using b by (simp_all add: books_def)
  note settles = delivery_settles [OF ok(1), of "forecastsByGate s" "p_clock s", folded w']
  have "nudge_status n \<noteq> QUEUED" if "n \<in> snd ` set (nw_queue ?w')" for n
    using that settles unfolding queue_values [OF ok(2)] by blast
  then have open_none: "list_all (\<lambda>n. nudge_status n \<noteq> QUEUED) (getQueuedNudges (nw_queue ?w'))"
    "set (nw_query ?w') = set (getQueuedNudges (nw_queue ?w'))"
    using b' by (auto simp: books_def list_all_iff getQueuedNudges_def)
  have new: "\<exists>new. nw_query ?w' = nw_query ?w @ new \<and>
      map nudgeId new = map nudgeId (filter (\<lambda>n. nudge_status n = QUEUED) (getQueuedNudges (nw_queue ?w)))"
    using settles by (intro exI [of _ "map ?f (filter (\<lambda>n. nudge_status n = QUEUED) (getQueuedNudges (nw_queue ?w)))"]) (simp add: settled_id)
  have "map_of (audit_nudges (nw_audit ?w')) = map_of (nw_queue ?w')" using b' by (simp add: books_def)
  then show ?thesis
    unfolding settled_def [of "forecastsByGate s" "p_clock s", symmetric]
    by (intro conjI settles [THEN conjunct1] new open_none)
qed

lemma nudges_settled_witness:
  "\<exists>n. map_of (audit_nudges (nw_audit (p_nudges (snd (server_step fan_server NudgeWorkerTick (reached fan_server 0 [fan_request]))))))
      (''f1-gate-a-'' @ toISOString 0) = Some n \<and> nudge_status n \<noteq> QUEUED"
proof -
  obtain n where n: "map_of (nw_queue (p_nudges (reached fan_server 0 [fan_request]))) (''f1-gate-a-'' @ toISOString 0) = Some n"
    "nudge_status n = QUEUED" "p_clock (reached fan_server 0 [fan_request]) = 0"
    by (rule fan_run)
  have year: "four_digit_year (p_clock (reached fan_server 0 [fan_request]))" unfolding n(3) by (simp add: four_digit_year_def)
  have none: "\<not> list_ex (stops fan_server) [fan_request]" by simp
  note settles = nudges_settled [OF fan_server_ok(1,3) fan_apart order_refl none refl year refl]
  show ?thesis
    unfolding settles [THEN conjunct2, THEN conjunct2, THEN conjunct2, THEN conjunct2] settles [THEN conjunct1, rule_format] n(1)
    using n(2) by simp
qed

end
