(* ===== verification/Spec2Isabelle.thy ===== *)
theory Spec2Isabelle
  imports Parser Timing Forecast IngestService IntakeQueue ForecastService RedisClient Recommend Redirect Nudges Auth KafkaTopics Endpoints EndToEnd Dispatch
    Interleave Lifecycle Middleware Cooldown TestKits RedisRefinement Accounting NudgeBooks
begin

text \<open>
  The Stadium Congestion Forecasting System (TypeScript, all paths under \<open>src/src/\<close>).

  \<^bold>\<open>The program.\<close> Gate counters, ticket scanners and transit feeds post signals. Each accepted signal enters the
  ten-minute window of its gate and triggers a recompute of the gate's forecast: four congestion
  scores for now and 5, 10 and 15 minutes ahead, each with a risk level. A new forecast is stored,
  shown on the dashboard, compared with the gate's previous level (alerts), and turned into ranked
  recommended actions, shuttle redirections for dispatchers and nudges for fans; everything is
  audited. A 30 second timer per gate recomputes without signals, a 15 second worker settles the queued nudges, and
  another checks which sources have gone silent. The parts talk over an in-memory bus that stands
  for Kafka topics; the HTTP server in \<open>server.ts\<close> puts them together over in-memory stores.

  \<^bold>\<open>The theories, bottom up.\<close>

  \<^item> \<open>Prelude\<close>: collections, errors as values, JavaScript maps as association lists, stores with
    the laws of \<open>keyed_store\<close>. \<open>JsNumber\<close>, \<open>JsSort\<close>, \<open>JsDate\<close>: what the code uses of the language, namely binary64
    numbers with rounding, \<open>NaN\<close> and signed infinities, \<open>Array.sort\<close> with a comparator, ISO dates over the proleptic
    Gregorian calendar.
  \<^item> \<open>Models\<close>: \<open>types/models.ts\<close>.
  \<^item> \<open>RiskLevels\<close>, \<open>Forecast\<close>, \<open>ForecastService\<close>: \<open>congestion-forecaster/\<close> (levels and the choice of an alternative
    gate; the scores; deadline fallback, timers and the forecast endpoint).
  \<^item> \<open>Timing\<close>, \<open>Schema\<close>, \<open>Parser\<close>, \<open>IngestService\<close>, \<open>DegradedSource\<close>, \<open>IntakeQueue\<close>: \<open>signal-ingestion/\<close>.
  \<^item> \<open>RedisStore\<close>, \<open>RedisClient\<close>: \<open>infra/redis-client.ts\<close> and its in-memory version in \<open>server.ts\<close>;
    \<open>Stores\<close>: the other in-memory stores of \<open>server.ts\<close>.
  \<^item> \<open>Recommend\<close>, \<open>Redirect\<close>, \<open>Nudges\<close>: \<open>recommendation-engine/\<close>, \<open>shuttle-redirection-advisor/\<close>,
    \<open>fan-notification-system/\<close>.
  \<^item> \<open>Dashboard\<close>, \<open>AuditLog\<close>: \<open>ops-dashboard/\<close>, \<open>audit-log-service/\<close>. \<open>Auth\<close>: \<open>infra/auth.ts\<close>.
    \<open>EventBus\<close>, \<open>KafkaTopics\<close>: \<open>infra/event-bus.ts\<close>, \<open>infra/kafka-topics.ts\<close>, \<open>infra/topology.ts\<close>.
  \<^item> \<open>Pipeline\<close>: \<open>pipeline.ts\<close>. Its state holds every store, the windows, the timers and what was sent to
    clients; \<open>bus_publish\<close> runs the subscribers of a message. \<open>Cascade\<close> and \<open>Effects\<close> give the effect of a
    publication in closed form, and \<open>Server\<close> is \<open>server.ts\<close>: endpoints, roles, the stream, timers and shutdown as
    one operation each (\<open>server_step\<close>) and any interleaving of them (\<open>run_server\<close>).
  \<^item> \<open>ServerInvariants\<close>: the locale \<open>server_invariant\<close>, the elementary changes every operation is made of, with
    the rule that a predicate they preserve holds in every reached state. \<open>Guarantees\<close>, \<open>Endpoints\<close>,
    \<open>EndToEnd\<close>, \<open>Dispatch\<close>, \<open>Cooldown\<close>, \<open>NudgeBooks\<close>, \<open>Accounting\<close>: the theorems on the whole server.
  \<^item> \<open>RedisRefinement\<close>: the calls of the Redis interface over both of its implementations, and the ledger of last
    writes that both follow.
  \<^item> \<open>Tasks\<close>, \<open>Interleave\<close>: the asynchronous subscribers of \<open>pipeline.ts\<close>, and the service methods they await, cut
    at every \<open>await\<close> into steps that an event loop may run in any order.
  \<^item> \<open>Middleware\<close>, \<open>Lifecycle\<close>: the rest of \<open>server.ts\<close>. In front of the routes the JSON parser, the cross-origin
    headers and the request log; around the server the life of the process, from listening to its exit code, as a step relation.
  \<^item> \<open>FastCheck\<close>, \<open>TestKits\<close>: the generators and builders shared by the repository's property tests, as computations of
    the state monad on a random source whose draws are a parameter.

  \<^bold>\<open>State and effects.\<close> A class is a record and its methods return the updated record; an injected interface is
    a tuple of functions on an arbitrary state, and the locales (\<open>keyed_store\<close>, \<open>expiring_store\<close>, \<open>redis_client\<close>, \<open>alert_store\<close>,
    \<open>actions_store\<close>, \<open>collation\<close>, \<open>server_invariant\<close>) state what a client relies on; each is interpreted on the code's own
    definitions. An exception is the left case of a sum. Time is an integer of milliseconds that only \<open>Elapse\<close> advances; fresh ids, the
    collation of \<open>localeCompare\<close>, the schema validator, the parse of an upgrade request's target by \<open>new URL\<close> and the outcome
    of the race against the deadline are arguments.

  \<^bold>\<open>What the lemma groups show.\<close> Components: each operation's behaviour on every branch, round trips of the parser
    and of the key configuration, the bucketed queue as a refinement of a priority list, cooldowns and suppressions over any
    history, the settlement of queued nudges, exactly-once delivery to subscribers and connections, what the audit log keeps and what it overwrites.
    Whole server: the views of a gate agree, alerts are exactly the audited rises, no internal failure,
    fresh forecasts, access control as noninterference, rejections and cooldowns that last, nudges to every fan of a
    congested gate, the path from a signal to the forecast, one audit entry per answered signal, and the three records of a
    nudge (queue, operators' list, audit log) that agree at all times and are settled by every run of the worker. The production
    Redis wrapper answers as the in-memory client under the server does, up to the millisecond of an expiry. A service that has
    started ends by a signal or by an upgrade request that is no URL (\<open>stops\<close>), and by nothing else. Around it: every change is in the request log, a shutdown computes, nudges, audits and
    sends nothing more and ends within five seconds, and the exit codes. Test kits: they generate what their names say.

  \<^bold>\<open>Bounds.\<close> Publishing is recursive, since subscribers publish; \<open>pipe_publish\<close> has a depth, and \<open>cascade_ends\<close>
    shows that the depth 3 in use gives the result of every larger one. Keys are compared within 256 bytes as in the code.
    All other recursions are structural or have a measure.

  \<^bold>\<open>Concurrency.\<close> In \<open>Pipeline\<close> and \<open>Server\<close> a handler runs to completion: all stores are in memory and answer at once,
    so the microtasks of one cascade settle before the next timer or request is served, provided that a client does not
    pipeline several requests into one chunk of its connection, and the clock is read once per cascade; in reality its readings within one
    cascade can be milliseconds apart. \<open>any_order\<close> and \<open>quality_checks_in_turns\<close> justify this. The steps of a published signal's handlers, those of
    the subscriber of the scores it triggers, the audits started beside them and marking the source may be interleaved in any order with the
    same result; the checks of the gates, which run as concurrent tasks and write to one alert store, take turns as the first-in-first-out
    queue of microtasks makes them.

  \<^bold>\<open>Not modelled.\<close> The Redis connection and its client library (a parameter of \<open>RedisClient\<close>); the web framework's router
    and decoders (a call carries the endpoint they match, and whether its body is JSON) and the 503 branches, which no handler
    reaches over in-memory stores; responses that a client breaks off, which are not logged, and the body parser's codes 413 and 415 (one
    code stands for all its refusals); the eviction of keys and the failure of commands in Redis; the console output other than the request log; the fast-check library behind the test kits, whose
    documented ranges are the hypothesis \<open>draws_ok\<close>; and the assertions of the tests themselves. Bodies of requests other than signals have the
    documented shape.
\<close>

end
